(* ===== verification/Prelude.thy ===== *)
theory Prelude
  imports Main "HOL-Library.Word"
begin

text \<open>
  Vocabulary shared by the whole development: the 64-bit unsigned integers of the
  Rust sources with the checked and saturating operations they call, reference
  counted pointers whose identity is observable (\<open>Arc::ptr_eq\<close>), the compare-and-swap
  of an atomic pointer cell, and the generic lemmas on association lists that the
  component theories use.
\<close>

unbundle bit_operations_syntax

named_theorems u64_simps \<open>reading the u64 operations through unat\<close>
named_theorems word_simps \<open>layout of the packed state word\<close>
named_theorems gate_frame \<open>fields an operation leaves alone\<close>

section \<open>Unsigned 64-bit integers\<close>

type_synonym u64 = "64 word"

definition U64_MAX :: u64 where
  "U64_MAX = - 1"

text \<open>\<open>u64::try_from\<close> on a \<open>u128\<close>: an error when the value does not fit.\<close>

definition u64_try_from :: "nat \<Rightarrow> u64 option" where
  "u64_try_from n = (if n < 2 ^ 64 then Some (of_nat n) else None)"

definition u64_checked_add :: "u64 \<Rightarrow> u64 \<Rightarrow> u64 option" where
  "u64_checked_add a b = (if unat a + unat b < 2 ^ 64 then Some (a + b) else None)"

definition u64_saturating_add :: "u64 \<Rightarrow> u64 \<Rightarrow> u64" where
  "u64_saturating_add a b = (if unat a + unat b < 2 ^ 64 then a + b else U64_MAX)"

definition u64_saturating_sub :: "u64 \<Rightarrow> u64 \<Rightarrow> u64" where
  "u64_saturating_sub a b = (if b \<le> a then a - b else 0)"

text \<open>\<open>u64::div_ceil\<close>: the quotient, plus one when there is a remainder.\<close>

definition u64_div_ceil :: "u64 \<Rightarrow> u64 \<Rightarrow> u64" where
  "u64_div_ceil a b = (if a mod b = 0 then a div b else a div b + 1)"

lemma unat_lt_64 [simp]: "unat (a :: u64) < 18446744073709551616"
  using unsigned_less [of a, where ?'a = nat] by simp

lemma unat_U64_MAX [u64_simps]: "unat U64_MAX = 2 ^ 64 - 1"
  by (simp add: U64_MAX_def unsigned_minus_1_eq_mask mask_eq_exp_minus_1)

lemma le_U64_MAX [simp]: "a \<le> U64_MAX"
  by (simp add: U64_MAX_def)

lemma u64_try_from_Some [u64_simps]: "u64_try_from n = Some a \<Longrightarrow> unat a = n"
  by (auto simp: u64_try_from_def unat_of_nat split: if_splits)

lemma u64_try_from_None_iff: "u64_try_from n = None \<longleftrightarrow> 2 ^ 64 \<le> n"
  by (auto simp: u64_try_from_def)

lemma u64_try_from_unat [simp]: "u64_try_from (unat a) = Some a"
  by (simp add: u64_try_from_def)

lemma unat_add_u64: "unat a + unat b < 2 ^ 64 \<Longrightarrow> unat (a + b :: u64) = unat a + unat b"
  by (simp add: unat_word_ariths)

lemma u64_checked_add_Some: "u64_checked_add a b = Some c \<Longrightarrow> unat c = unat a + unat b"
  by (auto simp: u64_checked_add_def unat_word_ariths split: if_splits)

lemma unat_saturating_add [u64_simps]:
  "unat (u64_saturating_add a b) = min (unat a + unat b) (2 ^ 64 - 1)"
  by (auto simp: u64_saturating_add_def unat_word_ariths unat_U64_MAX)

lemma unat_saturating_sub [u64_simps]:
  "unat (u64_saturating_sub a b) = unat a - unat b"
  by (auto simp: u64_saturating_sub_def unat_sub word_le_nat_alt)

lemma unat_div_ceil_2 [u64_simps]: "unat (u64_div_ceil a 2) = (unat a + 1) div 2"
proof -
  have half: "unat (a div 2) = unat a div 2"
    by (simp add: unat_div)
  have eq: "a mod 2 = 0 \<longleftrightarrow> unat a mod 2 = 0"
    by (simp add: word_unat_eq_iff unat_mod)
  have "unat a div 2 < 9223372036854775808"
    using unat_lt_64 [of a] by linarith
  then have "unat (a div 2 + 1) = unat a div 2 + 1"
    using half by (simp add: unat_word_ariths)
  then show ?thesis
    using half eq by (auto simp: u64_div_ceil_def) presburger+
qed

section \<open>Reference-counted pointers and atomic cells\<close>

text \<open>
  \<open>Arc<T>\<close> as an address and the immutable value behind it. \<open>Arc::ptr_eq\<close> compares
  addresses. A live pointer's address is not given to a new allocation, so among the
  pointers a state holds, equal addresses mean equal values; the component theories
  state that as an invariant.
\<close>

datatype 'a arc = Arc (addr: nat) (deref: 'a)

definition ptr_eq :: "'a arc \<Rightarrow> 'a arc \<Rightarrow> bool" where
  "ptr_eq a b \<longleftrightarrow> addr a = addr b"

text \<open>
  \<open>compare_and_swap(&current, new)\<close> on an atomic pointer cell holding \<open>mem\<close>: the new
  pointer is stored when the cell holds \<open>current\<close>; the previous content is returned.
\<close>

definition compare_and_swap :: "'a arc \<Rightarrow> 'a arc \<Rightarrow> 'a arc \<Rightarrow> 'a arc \<times> 'a arc" where
  "compare_and_swap mem expected new = (mem, if ptr_eq mem expected then new else mem)"

text \<open>
  What other threads do to a cell between this thread's read and its compare-and-swap.
  Such a step is honest when it cannot put a different value behind an address that this
  thread still holds.
\<close>

type_synonym 'a interference = "'a arc \<Rightarrow> 'a arc"

definition honest :: "'a interference \<Rightarrow> bool" where
  "honest f \<longleftrightarrow> (\<forall>m. addr (f m) = addr m \<longrightarrow> f m = m)"

lemma ptr_eq_refl [simp]: "ptr_eq a a"
  by (simp add: ptr_eq_def)

lemma honest_id [simp]: "honest id" "honest (\<lambda>m. m)"
  by (simp_all add: honest_def)

lemma honest_const: "honest (\<lambda>m. if addr m = addr c then m else c)"
  by (simp add: honest_def)

text \<open>
  The contract of a compare-and-swap retry loop: \<open>stop\<close> is the early return decided from
  the pointer just read, \<open>attempt\<close> the result and the new content of a successful swap.
  A loop with this shape is linearizable: against honest interference it acts as one
  atomic run at some point of the interference.
\<close>

locale cas_loop =
  fixes loop :: "'a interference list \<Rightarrow> 'a arc \<Rightarrow> 'r \<times> 'a arc"
    and stop :: "'a arc \<Rightarrow> 'r option"
    and attempt :: "'a arc \<Rightarrow> 'r \<times> 'a arc"
  assumes loop_quiet: "loop [] m = (case stop m of Some r \<Rightarrow> (r, m) | None \<Rightarrow> attempt m)"
    and loop_contended: "loop (f # fs) m =
      (case stop m of Some r \<Rightarrow> (r, m)
       | None \<Rightarrow> if addr (f m) = addr m then attempt m else loop fs (f m))"
begin

lemma linearizable:
  assumes "\<forall>f \<in> set env. honest f"
  shows "\<exists>us vs. env = us @ vs \<and> loop env m = loop [] (fold (\<lambda>f. f) us m)"
  using assms
proof (induction env arbitrary: m)
  case Nil
  then show ?case by simp
next
  case (Cons f fs)
  consider (stop) r where "stop m = Some r" | (swap) "stop m = None" "addr (f m) = addr m"
    | (retry) "stop m = None" "addr (f m) \<noteq> addr m"
    by (cases "stop m") auto
  then show ?case
  proof cases
    case stop
    then show ?thesis
      by (intro exI [of _ "[]"] exI [of _ "f # fs"]) (simp add: loop_contended loop_quiet)
  next
    case swap
    with Cons.prems have "f m = m"
      by (simp add: honest_def)
    with swap show ?thesis
      by (intro exI [of _ "[f]"] exI [of _ fs]) (simp add: loop_contended loop_quiet)
  next
    case retry
    from Cons.IH [of "f m"] Cons.prems obtain us vs
      where "fs = us @ vs" "loop fs (f m) = loop [] (fold (\<lambda>f. f) us (f m))" by auto
    with retry show ?thesis
      by (intro exI [of _ "f # us"] exI [of _ vs]) (simp add: loop_contended)
  qed
qed

end

section \<open>Association lists in recency order\<close>

lemma map_of_filter_neq:
  "map_of [p \<leftarrow> ps. fst p \<noteq> k] x = (if x = k then None else map_of ps x)"
  by (induction ps) auto

lemma map_of_Some_in: "map_of ps k = Some v \<Longrightarrow> (k, v) \<in> set ps"
  by (rule map_of_SomeD)

lemma distinct_fst_filter: "distinct (map fst ps) \<Longrightarrow> distinct (map fst [p \<leftarrow> ps. Q p])"
  by (induction ps) auto

lemma distinct_fst_butlast: "distinct (map fst ps) \<Longrightarrow> distinct (map fst (butlast ps))"
  by (simp add: distinct_butlast map_butlast)

lemma length_filter_neq_in:
  "(k, v) \<in> set ps \<Longrightarrow> length [p \<leftarrow> ps. fst p \<noteq> k] < length ps"
  by (rule length_filter_less) auto

lemma set_drop_butlast:
  "xs \<noteq> [] \<Longrightarrow> set (drop (min j (length xs - 1)) xs) \<subseteq> insert (last xs) (set (drop j (butlast xs)))"
  by (cases xs rule: rev_cases) (auto simp: min_def)

lemma sorted_wrt_last:
  "sorted_wrt P xs \<Longrightarrow> (\<And>x. P x x) \<Longrightarrow> x \<in> set xs \<Longrightarrow> P x (last xs)"
  by (induction xs) auto

end
