(* ===== verification/Clock.thy ===== *)
theory Clock
  imports Prelude
begin

text \<open>
  The clock domain of the gate (\<open>src/src/time.rs\<close>). An \<open>Instant\<close> is a signed count
  of nanoseconds whose seconds fit an \<open>i64\<close>; a \<open>Duration\<close> is an unsigned count of
  nanoseconds whose seconds fit a \<open>u64\<close>. Futures are represented by what a poll at a
  given instant returns; \<open>timeout_at\<close>, \<open>timeout\<close> and \<open>sleep\<close> of the
  \<open>TimeDriver\<close> trait are then functions on futures, and an await is a run over the
  instants at which the runtime polls the task.
\<close>

section \<open>Instants and durations\<close>

type_synonym instant = int
type_synonym duration = nat

definition INSTANT_MAX :: instant where
  "INSTANT_MAX = 2 ^ 63 * 10 ^ 9 - 1"

definition DURATION_MAX :: duration where
  "DURATION_MAX = 2 ^ 64 * 10 ^ 9 - 1"

definition from_secs :: "nat \<Rightarrow> duration" where
  "from_secs s = s * 10 ^ 9"

definition from_millis :: "nat \<Rightarrow> duration" where
  "from_millis ms = ms * 10 ^ 6"

text \<open>\<open>Instant::checked_add\<close>.\<close>

definition instant_checked_add :: "instant \<Rightarrow> duration \<Rightarrow> instant option" where
  "instant_checked_add t d = (if t + int d \<le> INSTANT_MAX then Some (t + int d) else None)"

text \<open>\<open>Instant::saturating_duration_since\<close>.\<close>

definition saturating_duration_since :: "instant \<Rightarrow> instant \<Rightarrow> duration" where
  "saturating_duration_since t earlier = nat (t - earlier)"

text \<open>\<open>Duration::saturating_mul\<close>.\<close>

definition duration_saturating_mul :: "duration \<Rightarrow> nat \<Rightarrow> duration" where
  "duration_saturating_mul d n = min (d * n) DURATION_MAX"

lemma instant_checked_add_Some:
  "instant_checked_add t d = Some u \<Longrightarrow> u = t + int d \<and> u \<le> INSTANT_MAX"
  by (auto simp: instant_checked_add_def split: if_splits)

lemma instant_checked_add_None_iff [simp]:
  "instant_checked_add t d = None \<longleftrightarrow> \<not> t + int d \<le> INSTANT_MAX"
  by (simp add: instant_checked_add_def)

lemma instant_checked_add_mono_None:
  "instant_checked_add t d = None \<Longrightarrow> d \<le> d' \<Longrightarrow> instant_checked_add t d' = None"
proof -
  assume none: "instant_checked_add t d = None" and le: "d \<le> d'"
  from none have "\<not> t + int d \<le> INSTANT_MAX"
    by simp
  moreover from le have "int d \<le> int d'"
    by (rule iffD2 [OF of_nat_le_iff])
  ultimately have "\<not> t + int d' \<le> INSTANT_MAX"
    by linarith
  then show ?thesis
    by simp
qed

lemma instant_checked_add_antimono:
  "instant_checked_add t d \<noteq> None \<Longrightarrow> d' \<le> d \<Longrightarrow> instant_checked_add t d' \<noteq> None"
  by (metis instant_checked_add_mono_None)

lemma instant_DURATION_MAX_overflows: "0 \<le> t \<Longrightarrow> instant_checked_add t DURATION_MAX = None"
  by (simp add: instant_checked_add_def DURATION_MAX_def INSTANT_MAX_def)

section \<open>Futures, sleeps and timeouts\<close>

text \<open>A poll at an instant either is ready with a value or pending.\<close>

type_synonym 'a future = "instant \<Rightarrow> 'a option"

datatype timeout_elapsed = TimeoutElapsed

text \<open>
  The awaiting task is polled at the given instants; the await completes at the first
  poll that is ready, at that instant.
\<close>

fun await :: "'a future \<Rightarrow> instant list \<Rightarrow> (instant \<times> 'a) option" where
  "await f [] = None"
| "await f (t # ts) = (case f t of Some v \<Rightarrow> Some (t, v) | None \<Rightarrow> await f ts)"

text \<open>
  \<open>TimeDriver::timeout_at\<close>. The driver's \<open>sleep_until\<close> is a parameter. The check before
  the first poll and the biased select (the delay is polled first) are one poll here:
  the deadline is compared on the first poll only, through the flag \<open>first\<close>.
\<close>

definition timeout_at_poll ::
  "(instant \<Rightarrow> unit future) \<Rightarrow> instant \<Rightarrow> 'a future \<Rightarrow> bool \<Rightarrow> (timeout_elapsed + 'a) future" where
  "timeout_at_poll sleep_until deadline fut first now =
     (if first \<and> now \<ge> deadline then Some (Inl TimeoutElapsed)
      else case sleep_until deadline now of
        Some _ \<Rightarrow> Some (Inl TimeoutElapsed)
      | None \<Rightarrow> (case fut now of Some v \<Rightarrow> Some (Inr v) | None \<Rightarrow> None))"

fun timeout_at ::
  "(instant \<Rightarrow> unit future) \<Rightarrow> instant \<Rightarrow> 'a future \<Rightarrow> instant list
    \<Rightarrow> (instant \<times> (timeout_elapsed + 'a)) option" where
  "timeout_at sleep_until deadline fut [] = None"
| "timeout_at sleep_until deadline fut (t # ts) =
     (case timeout_at_poll sleep_until deadline fut True t of
        Some r \<Rightarrow> Some (t, r)
      | None \<Rightarrow> await (timeout_at_poll sleep_until deadline fut False) ts)"

text \<open>
  \<open>TimeDriver::timeout\<close>: the deadline is computed when the call is made; an
  unrepresentable one means no timeout at all.
\<close>

definition timeout ::
  "(instant \<Rightarrow> unit future) \<Rightarrow> instant \<Rightarrow> duration \<Rightarrow> 'a future \<Rightarrow> instant list
    \<Rightarrow> (instant \<times> (timeout_elapsed + 'a)) option" where
  "timeout sleep_until called_at d fut ts =
     (case instant_checked_add called_at d of
        Some deadline \<Rightarrow> timeout_at sleep_until deadline fut ts
      | None \<Rightarrow> map_option (\<lambda>(t, v). (t, Inr v)) (await fut ts))"

text \<open>\<open>TimeDriver::sleep\<close>: an unrepresentable deadline never completes.\<close>

definition sleep :: "(instant \<Rightarrow> unit future) \<Rightarrow> instant \<Rightarrow> duration \<Rightarrow> unit future" where
  "sleep sleep_until called_at d =
     (case instant_checked_add called_at d of
        Some deadline \<Rightarrow> sleep_until deadline
      | None \<Rightarrow> (\<lambda>_. None))"

text \<open>
  The documented contract of \<open>TimeDriver::sleep_until\<close>: it waits until the deadline
  according to the driver's own clock.
\<close>

definition sleeps_until_deadline :: "(instant \<Rightarrow> unit future) \<Rightarrow> bool" where
  "sleeps_until_deadline sleep_until \<longleftrightarrow>
     (\<forall>deadline now. sleep_until deadline now = (if deadline \<le> now then Some () else None))"

lemma timeout_at_poll_contract:
  assumes "sleeps_until_deadline sleep_until"
  shows "timeout_at_poll sleep_until deadline fut first now =
    (if deadline \<le> now then Some (Inl TimeoutElapsed) else map_option Inr (fut now))"
proof -
  have "sleep_until deadline now = (if deadline \<le> now then Some () else None)"
    using assms unfolding sleeps_until_deadline_def by blast
  then show ?thesis
    by (simp add: timeout_at_poll_def split: option.split)
qed

lemma await_split:
  "await f ts = Some (t, v) \<Longrightarrow>
    \<exists>us vs. ts = us @ t # vs \<and> f t = Some v \<and> (\<forall>u \<in> set us. f u = None)"
proof (induction ts)
  case Nil
  then show ?case by simp
next
  case (Cons a ts)
  show ?case
  proof (cases "f a")
    case None
    with Cons obtain us vs where "ts = us @ t # vs" "f t = Some v" "\<forall>u \<in> set us. f u = None"
      by auto
    with None show ?thesis
      by (intro exI [of _ "a # us"] exI [of _ vs]) simp
  next
    case (Some w)
    with Cons.prems show ?thesis by (intro exI [of _ "[]"] exI [of _ ts]) simp
  qed
qed

lemma await_None_iff: "await f ts = None \<longleftrightarrow> (\<forall>t \<in> set ts. f t = None)"
  by (induction ts) (auto split: option.splits)

lemma timeout_at_await:
  assumes "sleeps_until_deadline sleep_until"
  shows "timeout_at sleep_until deadline fut ts =
    await (\<lambda>now. if deadline \<le> now then Some (Inl TimeoutElapsed) else map_option Inr (fut now)) ts"
proof (cases ts)
  case (Cons t us)
  have "timeout_at_poll sleep_until deadline fut False =
      (\<lambda>now. if deadline \<le> now then Some (Inl TimeoutElapsed) else map_option Inr (fut now))"
    by (rule ext) (rule timeout_at_poll_contract [OF assms])
  with Cons show ?thesis
    by (simp add: timeout_at_poll_contract [OF assms] split: option.splits)
qed simp

section \<open>Exponential backoff\<close>

text \<open>
  The admission retries and the watch reconnects share one contract: each step doubles the
  delay, saturating, up to a cap.
\<close>

locale backoff =
  fixes step :: "duration \<Rightarrow> duration" and cap :: duration
  assumes step: "step d = min (duration_saturating_mul d 2) cap"
begin

lemma step_bounded: "step d \<le> cap"
  by (simp add: step)

lemma step_mono: "d \<le> cap \<Longrightarrow> d \<le> DURATION_MAX \<Longrightarrow> d \<le> step d"
  by (simp add: step duration_saturating_mul_def)

lemma iterate:
  assumes "d \<le> cap" "d \<le> DURATION_MAX"
  shows "(step ^^ n) d = min (d * 2 ^ n) (min cap DURATION_MAX)"
proof (induction n)
  case 0
  then show ?case using assms by simp
next
  case (Suc n)
  have "(step ^^ Suc n) d = min (min (min (d * 2 ^ n) (min cap DURATION_MAX) * 2) DURATION_MAX) cap"
    by (simp add: Suc step duration_saturating_mul_def)
  also have "\<dots> = min (d * 2 ^ n * 2) (min cap DURATION_MAX)"
    unfolding min_def by (simp split: if_splits)
  finally show ?case by (simp add: mult.assoc mult.commute [of 2])
qed

end

end
