(* ===== verification/Config.thy ===== *)
theory Config
  imports Clock
begin

text \<open>
  The gate's configuration (\<open>PolicyGateConfig\<close>, its builder and \<open>ConfigError\<close> in
  \<open>src/src/lib.rs\<close>): the defaults, the setters, the validation that \<open>build\<close> performs
  in the order of the code, and what a successful build guarantees to the runtime.
\<close>

section \<open>Configuration and builder\<close>

record policy_gate_config =
  unary_timeout :: duration
  admission_timeout :: duration
  initial_admission_retry_delay :: duration
  max_admission_retry_delay :: duration
  permanent_failure_cooldown :: duration
  snapshot_republish_interval :: duration
  initial_reconnect_delay :: duration
  max_reconnect_delay :: duration
  watch_events_per_yield :: nat
  max_subjects :: nat
  subject_ttl :: duration
  decision_freshness_ttl :: duration
  refresh_before_expiry :: duration
  refresh_enqueue_timeout :: duration
  refresh_queue_capacity :: nat

record policy_gate_config_builder =
  candidate :: policy_gate_config

text \<open>The default of every field; the freshness default is a sentinel for "no limit".\<close>

definition DEFAULT_UNARY_TIMEOUT :: duration where
  "DEFAULT_UNARY_TIMEOUT = from_secs 2"

definition DEFAULT_ADMISSION_TIMEOUT :: duration where
  "DEFAULT_ADMISSION_TIMEOUT = from_secs 10"

definition DEFAULT_INITIAL_ADMISSION_RETRY_DELAY :: duration where
  "DEFAULT_INITIAL_ADMISSION_RETRY_DELAY = from_millis 100"

definition DEFAULT_MAX_ADMISSION_RETRY_DELAY :: duration where
  "DEFAULT_MAX_ADMISSION_RETRY_DELAY = from_secs 1"

definition DEFAULT_PERMANENT_FAILURE_COOLDOWN :: duration where
  "DEFAULT_PERMANENT_FAILURE_COOLDOWN = from_secs 1"

definition DEFAULT_SNAPSHOT_REPUBLISH_INTERVAL :: duration where
  "DEFAULT_SNAPSHOT_REPUBLISH_INTERVAL = from_millis 10"

definition DEFAULT_INITIAL_RECONNECT_DELAY :: duration where
  "DEFAULT_INITIAL_RECONNECT_DELAY = from_millis 100"

definition DEFAULT_MAX_RECONNECT_DELAY :: duration where
  "DEFAULT_MAX_RECONNECT_DELAY = from_secs 5"

definition DEFAULT_WATCH_EVENTS_PER_YIELD :: nat where
  "DEFAULT_WATCH_EVENTS_PER_YIELD = 64"

definition DEFAULT_MAX_SUBJECTS :: nat where
  "DEFAULT_MAX_SUBJECTS = 65536"

definition DEFAULT_SUBJECT_TTL :: duration where
  "DEFAULT_SUBJECT_TTL = from_secs 3600"

definition DEFAULT_DECISION_FRESHNESS_TTL :: duration where
  "DEFAULT_DECISION_FRESHNESS_TTL = DURATION_MAX"

definition DEFAULT_REFRESH_BEFORE_EXPIRY :: duration where
  "DEFAULT_REFRESH_BEFORE_EXPIRY = 0"

definition DEFAULT_REFRESH_ENQUEUE_TIMEOUT :: duration where
  "DEFAULT_REFRESH_ENQUEUE_TIMEOUT = from_millis 100"

definition DEFAULT_REFRESH_QUEUE_CAPACITY :: nat where
  "DEFAULT_REFRESH_QUEUE_CAPACITY = 1024"

definition builder :: policy_gate_config_builder where
  "builder = \<lparr> candidate = \<lparr>
     unary_timeout = DEFAULT_UNARY_TIMEOUT,
     admission_timeout = DEFAULT_ADMISSION_TIMEOUT,
     initial_admission_retry_delay = DEFAULT_INITIAL_ADMISSION_RETRY_DELAY,
     max_admission_retry_delay = DEFAULT_MAX_ADMISSION_RETRY_DELAY,
     permanent_failure_cooldown = DEFAULT_PERMANENT_FAILURE_COOLDOWN,
     snapshot_republish_interval = DEFAULT_SNAPSHOT_REPUBLISH_INTERVAL,
     initial_reconnect_delay = DEFAULT_INITIAL_RECONNECT_DELAY,
     max_reconnect_delay = DEFAULT_MAX_RECONNECT_DELAY,
     watch_events_per_yield = DEFAULT_WATCH_EVENTS_PER_YIELD,
     max_subjects = DEFAULT_MAX_SUBJECTS,
     subject_ttl = DEFAULT_SUBJECT_TTL,
     decision_freshness_ttl = DEFAULT_DECISION_FRESHNESS_TTL,
     refresh_before_expiry = DEFAULT_REFRESH_BEFORE_EXPIRY,
     refresh_enqueue_timeout = DEFAULT_REFRESH_ENQUEUE_TIMEOUT,
     refresh_queue_capacity = DEFAULT_REFRESH_QUEUE_CAPACITY \<rparr> \<rparr>"

lemmas default_defs =
  DEFAULT_UNARY_TIMEOUT_def
  DEFAULT_ADMISSION_TIMEOUT_def
  DEFAULT_INITIAL_ADMISSION_RETRY_DELAY_def
  DEFAULT_MAX_ADMISSION_RETRY_DELAY_def
  DEFAULT_PERMANENT_FAILURE_COOLDOWN_def
  DEFAULT_SNAPSHOT_REPUBLISH_INTERVAL_def
  DEFAULT_INITIAL_RECONNECT_DELAY_def
  DEFAULT_MAX_RECONNECT_DELAY_def
  DEFAULT_WATCH_EVENTS_PER_YIELD_def
  DEFAULT_MAX_SUBJECTS_def
  DEFAULT_SUBJECT_TTL_def
  DEFAULT_DECISION_FRESHNESS_TTL_def
  DEFAULT_REFRESH_BEFORE_EXPIRY_def
  DEFAULT_REFRESH_ENQUEUE_TIMEOUT_def
  DEFAULT_REFRESH_QUEUE_CAPACITY_def

text \<open>The setters, each replacing one field of the candidate.\<close>

definition set_unary_timeout :: "duration \<Rightarrow> policy_gate_config_builder \<Rightarrow> policy_gate_config_builder" where
  "set_unary_timeout v b = b\<lparr>candidate := (candidate b)\<lparr>unary_timeout := v\<rparr>\<rparr>"

definition set_admission_timeout :: "duration \<Rightarrow> policy_gate_config_builder \<Rightarrow> policy_gate_config_builder" where
  "set_admission_timeout v b = b\<lparr>candidate := (candidate b)\<lparr>admission_timeout := v\<rparr>\<rparr>"

definition set_initial_admission_retry_delay :: "duration \<Rightarrow> policy_gate_config_builder \<Rightarrow> policy_gate_config_builder" where
  "set_initial_admission_retry_delay v b = b\<lparr>candidate := (candidate b)\<lparr>initial_admission_retry_delay := v\<rparr>\<rparr>"

definition set_max_admission_retry_delay :: "duration \<Rightarrow> policy_gate_config_builder \<Rightarrow> policy_gate_config_builder" where
  "set_max_admission_retry_delay v b = b\<lparr>candidate := (candidate b)\<lparr>max_admission_retry_delay := v\<rparr>\<rparr>"

definition set_permanent_failure_cooldown :: "duration \<Rightarrow> policy_gate_config_builder \<Rightarrow> policy_gate_config_builder" where
  "set_permanent_failure_cooldown v b = b\<lparr>candidate := (candidate b)\<lparr>permanent_failure_cooldown := v\<rparr>\<rparr>"

definition set_snapshot_republish_interval :: "duration \<Rightarrow> policy_gate_config_builder \<Rightarrow> policy_gate_config_builder" where
  "set_snapshot_republish_interval v b = b\<lparr>candidate := (candidate b)\<lparr>snapshot_republish_interval := v\<rparr>\<rparr>"

definition set_initial_reconnect_delay :: "duration \<Rightarrow> policy_gate_config_builder \<Rightarrow> policy_gate_config_builder" where
  "set_initial_reconnect_delay v b = b\<lparr>candidate := (candidate b)\<lparr>initial_reconnect_delay := v\<rparr>\<rparr>"

definition set_max_reconnect_delay :: "duration \<Rightarrow> policy_gate_config_builder \<Rightarrow> policy_gate_config_builder" where
  "set_max_reconnect_delay v b = b\<lparr>candidate := (candidate b)\<lparr>max_reconnect_delay := v\<rparr>\<rparr>"

definition set_watch_events_per_yield :: "nat \<Rightarrow> policy_gate_config_builder \<Rightarrow> policy_gate_config_builder" where
  "set_watch_events_per_yield v b = b\<lparr>candidate := (candidate b)\<lparr>watch_events_per_yield := v\<rparr>\<rparr>"

definition set_max_subjects :: "nat \<Rightarrow> policy_gate_config_builder \<Rightarrow> policy_gate_config_builder" where
  "set_max_subjects v b = b\<lparr>candidate := (candidate b)\<lparr>max_subjects := v\<rparr>\<rparr>"

definition set_subject_ttl :: "duration \<Rightarrow> policy_gate_config_builder \<Rightarrow> policy_gate_config_builder" where
  "set_subject_ttl v b = b\<lparr>candidate := (candidate b)\<lparr>subject_ttl := v\<rparr>\<rparr>"

definition set_decision_freshness_ttl :: "duration \<Rightarrow> policy_gate_config_builder \<Rightarrow> policy_gate_config_builder" where
  "set_decision_freshness_ttl v b = b\<lparr>candidate := (candidate b)\<lparr>decision_freshness_ttl := v\<rparr>\<rparr>"

definition set_refresh_before_expiry :: "duration \<Rightarrow> policy_gate_config_builder \<Rightarrow> policy_gate_config_builder" where
  "set_refresh_before_expiry v b = b\<lparr>candidate := (candidate b)\<lparr>refresh_before_expiry := v\<rparr>\<rparr>"

definition set_refresh_enqueue_timeout :: "duration \<Rightarrow> policy_gate_config_builder \<Rightarrow> policy_gate_config_builder" where
  "set_refresh_enqueue_timeout v b = b\<lparr>candidate := (candidate b)\<lparr>refresh_enqueue_timeout := v\<rparr>\<rparr>"

definition set_refresh_queue_capacity :: "nat \<Rightarrow> policy_gate_config_builder \<Rightarrow> policy_gate_config_builder" where
  "set_refresh_queue_capacity v b = b\<lparr>candidate := (candidate b)\<lparr>refresh_queue_capacity := v\<rparr>\<rparr>"

section \<open>Validation\<close>

datatype config_error =
    UnaryExceedsAdmission
  | InitialAdmissionRetryDelayZero
  | InitialRetryExceedsMaximum
  | InitialReconnectDelayZero
  | InitialReconnectExceedsMaximum
  | WatchEventsPerYieldZero
  | AdmissionDeadlineOverflow
  | DurationOverflow string
  | MaxSubjectsZero
  | RefreshQueueCapacityZero
  | RefreshEnqueueTimeoutZero
  | DecisionFreshnessTtlZero
  | RefreshRequiresFiniteDecisionFreshnessTtl
  | RefreshWindowNotLessThanDecisionFreshnessTtl

text \<open>The loop over named durations: the first one with no representable deadline.\<close>

fun first_overflow :: "instant \<Rightarrow> (string \<times> duration) list \<Rightarrow> string option" where
  "first_overflow now [] = None"
| "first_overflow now ((name, d) # rest) =
     (if instant_checked_add now d = None then Some name else first_overflow now rest)"

definition checked_durations :: "policy_gate_config \<Rightarrow> (string \<times> duration) list" where
  "checked_durations c =
     [(''initial admission retry delay'', initial_admission_retry_delay c),
      (''maximum admission retry delay'', max_admission_retry_delay c),
      (''permanent failure cooldown'', permanent_failure_cooldown c),
      (''snapshot republish interval'', snapshot_republish_interval c),
      (''initial reconnect delay'', initial_reconnect_delay c),
      (''maximum reconnect delay'', max_reconnect_delay c),
      (''refresh enqueue timeout'', refresh_enqueue_timeout c)]"

text \<open>\<open>PolicyGateConfigBuilder::build\<close>, run at the instant \<open>now\<close>.\<close>

definition build ::
  "instant \<Rightarrow> policy_gate_config_builder \<Rightarrow> config_error + policy_gate_config" where
  "build now b =
     (let c = candidate b in
      if unary_timeout c > admission_timeout c then Inl UnaryExceedsAdmission
      else if initial_admission_retry_delay c = 0 then Inl InitialAdmissionRetryDelayZero
      else if initial_admission_retry_delay c > max_admission_retry_delay c
        then Inl InitialRetryExceedsMaximum
      else if initial_reconnect_delay c = 0 then Inl InitialReconnectDelayZero
      else if initial_reconnect_delay c > max_reconnect_delay c
        then Inl InitialReconnectExceedsMaximum
      else if watch_events_per_yield c = 0 then Inl WatchEventsPerYieldZero
      else if instant_checked_add now (admission_timeout c) = None
        then Inl AdmissionDeadlineOverflow
      else case first_overflow now (checked_durations c) of
        Some name \<Rightarrow> Inl (DurationOverflow name)
      | None \<Rightarrow>
        if max_subjects c = 0 then Inl MaxSubjectsZero
        else if refresh_queue_capacity c = 0 then Inl RefreshQueueCapacityZero
        else if refresh_enqueue_timeout c = 0 then Inl RefreshEnqueueTimeoutZero
        else if decision_freshness_ttl c = 0 then Inl DecisionFreshnessTtlZero
        else if refresh_before_expiry c \<noteq> 0 \<and> decision_freshness_ttl c = DURATION_MAX
          then Inl RefreshRequiresFiniteDecisionFreshnessTtl
        else if refresh_before_expiry c \<ge> decision_freshness_ttl c
          then Inl RefreshWindowNotLessThanDecisionFreshnessTtl
        else if decision_freshness_ttl c \<noteq> DEFAULT_DECISION_FRESHNESS_TTL
            \<and> instant_checked_add now (decision_freshness_ttl c) = None
          then Inl (DurationOverflow ''decision freshness TTL'')
        else Inr c)"

text \<open>\<open>impl Display for ConfigError\<close>.\<close>

fun config_error_message :: "config_error \<Rightarrow> string" where
  "config_error_message UnaryExceedsAdmission =
     ''unary timeout must not exceed admission timeout''"
| "config_error_message InitialAdmissionRetryDelayZero =
     ''initial admission retry delay must be greater than zero''"
| "config_error_message InitialRetryExceedsMaximum =
     ''initial admission retry delay must not exceed its maximum''"
| "config_error_message InitialReconnectDelayZero =
     ''initial reconnect delay must be greater than zero''"
| "config_error_message InitialReconnectExceedsMaximum =
     ''initial reconnect delay must not exceed its maximum''"
| "config_error_message WatchEventsPerYieldZero =
     ''watch events per yield must be greater than zero''"
| "config_error_message AdmissionDeadlineOverflow =
     ''admission timeout is too large to represent as an Instant deadline''"
| "config_error_message (DurationOverflow name) =
     name @ '' is too large to represent as an Instant deadline''"
| "config_error_message MaxSubjectsZero =
     ''maximum subject count must be greater than zero''"
| "config_error_message RefreshQueueCapacityZero =
     ''refresh queue capacity must be greater than zero''"
| "config_error_message RefreshEnqueueTimeoutZero =
     ''refresh enqueue timeout must be greater than zero''"
| "config_error_message DecisionFreshnessTtlZero =
     ''decision freshness TTL must be greater than zero''"
| "config_error_message RefreshRequiresFiniteDecisionFreshnessTtl =
     ''decision refresh requires a finite decision freshness TTL''"
| "config_error_message RefreshWindowNotLessThanDecisionFreshnessTtl =
     ''decision refresh window must be less than decision freshness TTL''"

section \<open>What a successful build guarantees\<close>

text \<open>The rules the runtime relies on, stated without reference to the order of checks.\<close>

definition config_valid :: "instant \<Rightarrow> policy_gate_config \<Rightarrow> bool" where
  "config_valid now c \<longleftrightarrow>
     unary_timeout c \<le> admission_timeout c \<and>
     0 < initial_admission_retry_delay c \<and>
     initial_admission_retry_delay c \<le> max_admission_retry_delay c \<and>
     0 < initial_reconnect_delay c \<and>
     initial_reconnect_delay c \<le> max_reconnect_delay c \<and>
     0 < watch_events_per_yield c \<and>
     0 < max_subjects c \<and> 0 < refresh_queue_capacity c \<and> 0 < refresh_enqueue_timeout c \<and>
     refresh_before_expiry c < decision_freshness_ttl c \<and>
     (decision_freshness_ttl c = DURATION_MAX \<longrightarrow> refresh_before_expiry c = 0) \<and>
     (\<forall>d \<in> {admission_timeout c, max_admission_retry_delay c, permanent_failure_cooldown c,
            snapshot_republish_interval c, max_reconnect_delay c, refresh_enqueue_timeout c}.
        now + int d \<le> INSTANT_MAX) \<and>
     (decision_freshness_ttl c \<noteq> DURATION_MAX \<longrightarrow>
        now + int (decision_freshness_ttl c) \<le> INSTANT_MAX)"

lemma first_overflow_None_iff:
  "first_overflow now ds = None \<longleftrightarrow> (\<forall>d \<in> snd ` set ds. now + int d \<le> INSTANT_MAX)"
  by (induction ds) (auto split: if_splits)

lemma first_overflow_Some:
  "first_overflow now ds = Some name \<Longrightarrow>
    \<exists>d. (name, d) \<in> set ds \<and> \<not> now + int d \<le> INSTANT_MAX"
  by (induction ds) (fastforce split: if_splits)+

lemma shorter_deadline: "now + int d \<le> INSTANT_MAX \<Longrightarrow> d' \<le> d \<Longrightarrow> now + int d' \<le> INSTANT_MAX"
  using of_nat_le_iff [of d' d, where ?'a = int] by linarith

lemma checked_durations_ok_iff:
  assumes "initial_admission_retry_delay c \<le> max_admission_retry_delay c"
    and "initial_reconnect_delay c \<le> max_reconnect_delay c"
  shows "first_overflow now (checked_durations c) = None \<longleftrightarrow>
    (\<forall>d \<in> {max_admission_retry_delay c, permanent_failure_cooldown c,
       snapshot_republish_interval c, max_reconnect_delay c, refresh_enqueue_timeout c}.
       now + int d \<le> INSTANT_MAX)"
  using shorter_deadline [OF _ assms(1), of now] shorter_deadline [OF _ assms(2), of now]
  by (auto simp: first_overflow_None_iff checked_durations_def)

lemma build_Inr: "build now b = Inr c \<Longrightarrow> c = candidate b"
  unfolding build_def Let_def by (simp split: if_splits option.splits)

lemma build_iff:
  "build now b = Inr c \<longleftrightarrow> c = candidate b \<and> config_valid now (candidate b)"
proof -
  let ?c = "candidate b"
  have finite_ttl: "(refresh_before_expiry ?c \<noteq> 0 \<and> decision_freshness_ttl ?c = DURATION_MAX) \<longleftrightarrow>
      \<not> (decision_freshness_ttl ?c = DURATION_MAX \<longrightarrow> refresh_before_expiry ?c = 0)"
    by auto
  show ?thesis
  proof (cases "initial_admission_retry_delay ?c \<le> max_admission_retry_delay ?c \<and>
      initial_reconnect_delay ?c \<le> max_reconnect_delay ?c")
    case False
    then show ?thesis
      by (auto simp: build_def config_valid_def Let_def)
  next
    case True
    note overflow = checked_durations_ok_iff [of ?c now, OF conjunct1 [OF True] conjunct2 [OF True]]
    show ?thesis
    proof (cases "first_overflow now (checked_durations ?c)")
      case None
      with overflow True show ?thesis
        unfolding build_def config_valid_def Let_def DEFAULT_DECISION_FRESHNESS_TTL_def finite_ttl
        by (simp add: not_less not_le) (auto simp: not_le)
    next
      case (Some name)
      with overflow have "\<not> config_valid now ?c"
        by (auto simp: config_valid_def)
      with Some show ?thesis
        by (simp add: build_def Let_def)
    qed
  qed
qed

text \<open>
  C27: \<open>build\<close> accepts a candidate exactly when it satisfies every rule of
  \<open>config_valid\<close>, and then returns the candidate unchanged.
\<close>

theorem build_ok_iff:
  "build now b = Inr c \<longleftrightarrow> c = candidate b \<and> config_valid now (candidate b)"
  by (rule build_iff)

end
