(* ===== verification/Entry.thy ===== *)
theory Entry
  imports Config
begin

text \<open>
  One subject's shared state (\<open>Entry\<close>, \<open>EntrySnapshot\<close>, \<open>PendingFetch\<close> and
  \<open>Admission\<close> in \<open>src/src/gate.rs\<close>, the decision types of \<open>src/src/lib.rs\<close>).

  A decision and its deadline are packed in one 64-bit word: the low two bits are the
  state, the upper 62 bits the deadline in nanoseconds since the entry's epoch. The
  packed word, the payload and the earliest refresh tick are replaced together by a
  compare-and-swap of one pointer. The retry loops around that compare-and-swap are
  modelled with what other threads store in between; the first group of lemmas shows
  that each loop acts as one atomic step, and the rest of the development uses the
  operations in that form.
\<close>

section \<open>Decisions\<close>

datatype decision = DAllowed | DDenied

record 'p decision_result =
  decision :: decision
  payload :: "'p option"
  valid_until :: "instant option"

record 'k decision_change =
  change_subject :: 'k
  change_decision :: "decision option"

datatype error_kind = Transient | Permanent | Wire

record source_error =
  kind :: error_kind
  message :: string

definition is_permanent_status :: "source_error \<Rightarrow> bool" where
  "is_permanent_status e \<longleftrightarrow> kind e = Permanent \<or> kind e = Wire"

datatype entry_state = EPending | EAllowed | EDenied | EStale

datatype admission_state = AAllowed | ADenied | AStale

datatype observed = OAllowed | ODenied | OExpired | OStale

fun entry_state_of :: "decision \<Rightarrow> entry_state" where
  "entry_state_of DAllowed = EAllowed"
| "entry_state_of DDenied = EDenied"

section \<open>The packed word\<close>

definition STATE_MASK :: u64 where
  "STATE_MASK = 3"

definition NO_EXPIRY :: u64 where
  "NO_EXPIRY = push_bit 62 1 - 1"

definition MAX_FINITE_DEADLINE :: u64 where
  "MAX_FINITE_DEADLINE = NO_EXPIRY - 1"

text \<open>The discriminants of \<open>#[repr(u8)] enum EntryState\<close>.\<close>

fun state_code :: "entry_state \<Rightarrow> u64" where
  "state_code EPending = 0"
| "state_code EAllowed = 1"
| "state_code EDenied = 2"
| "state_code EStale = 3"

definition entry_word :: "entry_state \<Rightarrow> u64 \<Rightarrow> u64" where
  "entry_word s deadline = push_bit 2 deadline OR state_code s"

definition word_deadline :: "u64 \<Rightarrow> u64" where
  "word_deadline w = drop_bit 2 w"

text \<open>The last arm of the source's match is \<open>unreachable\<close>; see \<open>state_bits_cases\<close>.\<close>

definition decode_entry_state :: "u64 \<Rightarrow> entry_state" where
  "decode_entry_state w =
     (let bits = w AND STATE_MASK in
      if bits = 0 then EPending else if bits = 1 then EAllowed
      else if bits = 2 then EDenied else EStale)"

text \<open>The same deadline, state replaced by \<open>Stale\<close>.\<close>

definition stale_word :: "u64 \<Rightarrow> u64" where
  "stale_word w = (w AND NOT STATE_MASK) OR state_code EStale"

lemma STATE_MASK_mask: "STATE_MASK = mask 2"
  by (simp add: STATE_MASK_def mask_eq_exp_minus_1)

lemma unat_NO_EXPIRY [u64_simps]: "unat NO_EXPIRY = 2 ^ 62 - 1"
  by (simp add: NO_EXPIRY_def)

lemma unat_MAX_FINITE_DEADLINE [u64_simps]: "unat MAX_FINITE_DEADLINE = 2 ^ 62 - 2"
  by (simp add: MAX_FINITE_DEADLINE_def NO_EXPIRY_def)

lemma sentinel_code [code]:
  "NO_EXPIRY = 4611686018427387903" "MAX_FINITE_DEADLINE = 4611686018427387902"
  by (simp_all add: MAX_FINITE_DEADLINE_def NO_EXPIRY_def)

lemma state_bits_cases: "w AND STATE_MASK \<in> {0, 1, 2, 3}"
proof -
  have "unat (w AND STATE_MASK) < 4"
    by (simp add: STATE_MASK_mask flip: take_bit_eq_mask) (simp add: take_bit_eq_mod unat_mod)
  then have "unat (w AND STATE_MASK) \<in> {0, 1, 2, 3}"
    by auto
  then show ?thesis
    by (auto simp: word_unat_eq_iff)
qed

lemma state_code_masked: "state_code s AND STATE_MASK = state_code s"
  by (cases s) (simp_all add: STATE_MASK_def)

lemma state_code_shifted: "drop_bit 2 (state_code s) = 0"
  by (cases s) simp_all

lemma push_bit_masked: "push_bit 2 d AND STATE_MASK = 0"
  by (rule bit_word_eqI) (simp add: STATE_MASK_mask bit_simps)

lemma decode_state_code: "w AND STATE_MASK = state_code s \<Longrightarrow> decode_entry_state w = s"
  by (cases s) (simp_all add: decode_entry_state_def)

lemma decode_entry_word [simp, word_simps]: "decode_entry_state (entry_word s d) = s"
  by (rule decode_state_code)
    (simp add: entry_word_def bit.conj_disj_distrib2 push_bit_masked state_code_masked)

lemma word_deadline_entry_word [word_simps]:
  assumes "d \<le> NO_EXPIRY"
  shows "word_deadline (entry_word s d) = d"
proof -
  have "take_bit 62 d = d"
    using assms by (simp add: word_unat_eq_iff word_le_nat_alt unsigned_take_bit_eq u64_simps
      take_bit_nat_eq_self_iff)
  then have low: "bit d n \<Longrightarrow> n < 62" for n
    by (metis bit_take_bit_iff)
  have "drop_bit 2 (push_bit 2 d) = d"
    by (rule bit_word_eqI) (auto simp: bit_simps dest: low)
  then show ?thesis
    by (simp add: word_deadline_def entry_word_def drop_bit_or state_code_shifted)
qed

lemma decode_stale_word [simp, word_simps]: "decode_entry_state (stale_word w) = EStale"
proof (rule decode_state_code)
  have "state_code EStale = mask 2"
    by (simp add: mask_eq_exp_minus_1)
  then show "stale_word w AND STATE_MASK = state_code EStale"
    unfolding stale_word_def STATE_MASK_mask
    by (simp only:) (rule bit_word_eqI, auto simp: bit_simps)
qed

lemma word_deadline_stale_word [simp, word_simps]: "word_deadline (stale_word w) = word_deadline w"
  by (rule bit_word_eqI)
    (auto simp: word_deadline_def stale_word_def bit_simps STATE_MASK_mask dest: bit_imp_le_length)

section \<open>Entries\<close>

text \<open>\<open>EntrySnapshot\<close>: encoded state and deadline, payload, earliest refresh tick.\<close>

record 'p entry_snapshot =
  snap_word :: u64
  snap_payload :: "'p option"
  snap_refresh_after :: u64

type_synonym 'p snapshot_arc = "'p entry_snapshot arc"

text \<open>
  \<open>PendingFetch\<close>: its generation (compared by pointer) and what the closure of its future
  captured: the weak entry pointer, the subject, the cooldown delay and the snapshot a
  refresh started from. The abort handle is identified by the generation.
\<close>

record ('k, 'p) pending_fetch =
  generation :: nat
  fetch_entry :: nat
  fetch_subject :: 'k
  fetch_delay :: "duration option"
  fetch_refresh_from :: "'p snapshot_arc option"

record ('k, 'p) entry =
  current :: "'p snapshot_arc"
  epoch :: instant
  pending :: "('k, 'p) pending_fetch arc option"
  refresh_before :: u64
  refresh_not_before :: u64

abbreviation current_word :: "('k, 'p) entry \<Rightarrow> u64" where
  "current_word e \<equiv> snap_word (deref (current e))"

abbreviation current_state :: "('k, 'p) entry \<Rightarrow> entry_state" where
  "current_state e \<equiv> decode_entry_state (current_word e)"

text \<open>\<open>Entry::pending\<close>; \<open>a\<close> is the address of the new snapshot.\<close>

definition entry_pending ::
  "nat \<Rightarrow> instant \<Rightarrow> ('k, 'p) pending_fetch arc \<Rightarrow> duration \<Rightarrow> ('k, 'p) entry" where
  "entry_pending a ep fetch rb = \<lparr>
     current = Arc a \<lparr> snap_word = entry_word EPending NO_EXPIRY, snap_payload = None,
                       snap_refresh_after = 0 \<rparr>,
     epoch = ep,
     pending = Some fetch,
     refresh_before = (case u64_try_from rb of Some n \<Rightarrow> n | None \<Rightarrow> U64_MAX),
     refresh_not_before = 0 \<rparr>"

subsection \<open>Ticks, deadlines and the refresh window\<close>

definition entry_tick :: "('k, 'p) entry \<Rightarrow> instant \<Rightarrow> u64" where
  "entry_tick e now =
     min (case u64_try_from (saturating_duration_since now (epoch e)) of
            Some n \<Rightarrow> n | None \<Rightarrow> MAX_FINITE_DEADLINE)
         MAX_FINITE_DEADLINE"

definition deadline_after :: "('k, 'p) entry \<Rightarrow> instant \<Rightarrow> duration \<Rightarrow> u64" where
  "deadline_after e now ttl =
     (if ttl = DURATION_MAX then NO_EXPIRY
      else let now = entry_tick e now in
        case u64_try_from ttl of
          None \<Rightarrow> now
        | Some ttl \<Rightarrow>
          (case u64_checked_add now ttl of
             Some deadline \<Rightarrow> if deadline < NO_EXPIRY then deadline else now
           | None \<Rightarrow> now))"

definition is_expired_at :: "('k, 'p) entry \<Rightarrow> u64 \<Rightarrow> instant \<Rightarrow> bool" where
  "is_expired_at e w now \<longleftrightarrow>
     (let deadline = word_deadline w in deadline \<noteq> NO_EXPIRY \<and> entry_tick e now \<ge> deadline)"

definition refresh_eligible_at :: "('k, 'p) entry \<Rightarrow> 'p entry_snapshot \<Rightarrow> instant \<Rightarrow> bool" where
  "refresh_eligible_at e cur now \<longleftrightarrow>
     (let deadline = word_deadline (snap_word cur) in
      if deadline = NO_EXPIRY \<or> decode_entry_state (snap_word cur) \<notin> {EAllowed, EDenied} then False
      else let now = entry_tick e now in
        now < deadline \<and> now \<ge> snap_refresh_after cur
        \<and> deadline - now \<le> refresh_before e \<and> now \<ge> refresh_not_before e)"

definition refresh_due_at :: "('k, 'p) entry \<Rightarrow> 'p entry_snapshot \<Rightarrow> instant \<Rightarrow> bool" where
  "refresh_due_at e cur now \<longleftrightarrow> refresh_eligible_at e cur now \<and> pending e = None"

subsection \<open>Compare-and-swap loops\<close>

text \<open>
  Each loop runs against a list of interferences, one per failed attempt at most; when
  the list is exhausted no other thread writes and the attempt succeeds.
\<close>

fun compare_exchange_loop ::
  "'p entry_snapshot interference list \<Rightarrow> entry_state \<Rightarrow> 'p snapshot_arc \<Rightarrow> 'p snapshot_arc
    \<Rightarrow> (entry_state + unit) \<times> 'p snapshot_arc" where
  "compare_exchange_loop [] expected new previous =
     (let previous_state = decode_entry_state (snap_word (deref previous)) in
      if previous_state \<noteq> expected then (Inl previous_state, previous)
      else let (changed, mem) = compare_and_swap previous previous new in (Inr (), mem))"
| "compare_exchange_loop (f # fs) expected new previous =
     (let previous_state = decode_entry_state (snap_word (deref previous)) in
      if previous_state \<noteq> expected then (Inl previous_state, previous)
      else let (changed, mem) = compare_and_swap (f previous) previous new in
        if ptr_eq changed previous then (Inr (), mem)
        else compare_exchange_loop fs expected new changed)"

definition compare_exchange ::
  "'p entry_snapshot interference list \<Rightarrow> entry_state \<Rightarrow> 'p snapshot_arc \<Rightarrow> ('k, 'p) entry
    \<Rightarrow> (entry_state + unit) \<times> ('k, 'p) entry" where
  "compare_exchange env expected new e =
     (let (r, mem) = compare_exchange_loop env expected new (current e) in (r, e\<lparr>current := mem\<rparr>))"

definition stale_snapshot :: "nat \<Rightarrow> 'p snapshot_arc \<Rightarrow> 'p snapshot_arc" where
  "stale_snapshot a previous =
     Arc a \<lparr> snap_word = stale_word (snap_word (deref previous)), snap_payload = None,
             snap_refresh_after = 0 \<rparr>"

fun current_at_loop ::
  "'p entry_snapshot interference list \<Rightarrow> (u64 \<Rightarrow> bool) \<Rightarrow> nat \<Rightarrow> 'p snapshot_arc
    \<Rightarrow> ('p snapshot_arc \<times> bool) \<times> 'p snapshot_arc" where
  "current_at_loop [] expired a cur =
     (let w = snap_word (deref cur) in
      if \<not> expired w then ((cur, False), cur)
      else if w = stale_word w then ((cur, True), cur)
      else let new = stale_snapshot a cur; (changed, mem) = compare_and_swap cur cur new
        in ((new, True), mem))"
| "current_at_loop (f # fs) expired a cur =
     (let w = snap_word (deref cur) in
      if \<not> expired w then ((cur, False), cur)
      else if w = stale_word w then ((cur, True), cur)
      else let new = stale_snapshot a cur; (changed, mem) = compare_and_swap (f cur) cur new
        in if ptr_eq changed cur then ((new, True), mem) else current_at_loop fs expired a changed)"

text \<open>\<open>Entry::current_at\<close>: the snapshot in force and whether it has expired.\<close>

definition current_at ::
  "'p entry_snapshot interference list \<Rightarrow> nat \<Rightarrow> instant \<Rightarrow> ('k, 'p) entry
    \<Rightarrow> ('p snapshot_arc \<times> bool) \<times> ('k, 'p) entry" where
  "current_at env a now e =
     (let (r, mem) = current_at_loop env (\<lambda>w. is_expired_at e w now) a (current e)
      in (r, e\<lparr>current := mem\<rparr>))"

fun invalidate_loop ::
  "'p entry_snapshot interference list \<Rightarrow> nat \<Rightarrow> 'p snapshot_arc \<Rightarrow> unit \<times> 'p snapshot_arc" where
  "invalidate_loop [] a previous =
     (let (changed, mem) = compare_and_swap previous previous (stale_snapshot a previous)
      in ((), mem))"
| "invalidate_loop (f # fs) a previous =
     (let (changed, mem) = compare_and_swap (f previous) previous (stale_snapshot a previous)
      in if ptr_eq changed previous then ((), mem) else invalidate_loop fs a changed)"

subsection \<open>Pending fetches\<close>

definition pending_generation ::
  "('k, 'p) entry \<Rightarrow> nat \<Rightarrow> ('k, 'p) pending_fetch arc option" where
  "pending_generation e g =
     (case pending e of
        Some p \<Rightarrow> if generation (deref p) = g then Some p else None
      | None \<Rightarrow> None)"

definition pending_is :: "('k, 'p) entry \<Rightarrow> ('k, 'p) pending_fetch arc \<Rightarrow> bool" where
  "pending_is e p \<longleftrightarrow> (case pending e of Some cur \<Rightarrow> ptr_eq cur p | None \<Rightarrow> False)"

definition replace_pending ::
  "nat \<Rightarrow> ('k, 'p) pending_fetch arc option \<Rightarrow> ('k, 'p) entry \<Rightarrow> bool \<times> ('k, 'p) entry" where
  "replace_pending g replacement e =
     (case pending_generation e g of
        None \<Rightarrow> (False, e)
      | Some cur \<Rightarrow>
        (if pending_is e cur then (True, e\<lparr>pending := replacement\<rparr>) else (False, e)))"

text \<open>\<open>Entry::abort_pending\<close>: the generation whose abort handle fired, if any.\<close>

definition abort_pending :: "('k, 'p) entry \<Rightarrow> nat option \<times> ('k, 'p) entry" where
  "abort_pending e = (map_option (generation \<circ> deref) (pending e), e\<lparr>pending := None\<rparr>)"

definition invalidate ::
  "'p entry_snapshot interference list \<Rightarrow> nat \<Rightarrow> ('k, 'p) entry \<Rightarrow> nat option \<times> ('k, 'p) entry" where
  "invalidate env a e =
     (let (_, mem) = invalidate_loop env a (current e) in abort_pending (e\<lparr>current := mem\<rparr>))"

subsection \<open>Observations\<close>

text \<open>
  Every observation may first mark the entry stale. The \<open>unreachable\<close> arms of the source
  are the result \<open>None\<close>.
\<close>

definition state_at :: "nat \<Rightarrow> instant \<Rightarrow> ('k, 'p) entry \<Rightarrow> entry_state \<times> ('k, 'p) entry" where
  "state_at a now e =
     (let ((snap, expired), e') = current_at [] a now e in
      (if expired then EStale else decode_entry_state (snap_word (deref snap)), e'))"

definition observed_at ::
  "nat \<Rightarrow> instant \<Rightarrow> ('k, 'p) entry \<Rightarrow> observed option \<times> ('k, 'p) entry" where
  "observed_at a now e =
     (let ((snap, expired), e') = current_at [] a now e in
      (if expired then Some OExpired
       else (case decode_entry_state (snap_word (deref snap)) of
               EPending \<Rightarrow> None
             | EStale \<Rightarrow> Some OStale
             | EAllowed \<Rightarrow> Some OAllowed
             | EDenied \<Rightarrow> Some ODenied), e'))"

definition verdict_at ::
  "nat \<Rightarrow> instant \<Rightarrow> ('k, 'p) entry \<Rightarrow> decision option \<times> ('k, 'p) entry" where
  "verdict_at a now e =
     (let ((snap, expired), e') = current_at [] a now e in
      (if expired then None
       else (case decode_entry_state (snap_word (deref snap)) of
               EAllowed \<Rightarrow> Some DAllowed
             | EDenied \<Rightarrow> Some DDenied
             | EPending \<Rightarrow> None
             | EStale \<Rightarrow> None), e'))"

text \<open>\<open>Entry::admission\<close>: whether a handle on the entry is given out.\<close>

definition admission :: "nat \<Rightarrow> instant \<Rightarrow> ('k, 'p) entry \<Rightarrow> bool \<times> ('k, 'p) entry" where
  "admission a now e = (let (v, e') = verdict_at a now e in (v \<noteq> None, e'))"

section \<open>Admission handles\<close>

fun admission_state_of :: "observed \<Rightarrow> admission_state" where
  "admission_state_of OAllowed = AAllowed"
| "admission_state_of ODenied = ADenied"
| "admission_state_of OExpired = AStale"
| "admission_state_of OStale = AStale"

definition admission_state_at ::
  "nat \<Rightarrow> instant \<Rightarrow> ('k, 'p) entry \<Rightarrow> admission_state option \<times> ('k, 'p) entry" where
  "admission_state_at a now e =
     (let (ob, e') = observed_at a now e in (map_option admission_state_of ob, e'))"

definition admission_check ::
  "nat \<Rightarrow> instant \<Rightarrow> ('k, 'p) entry \<Rightarrow> (admission_state \<times> bool) option \<times> ('k, 'p) entry" where
  "admission_check a now e =
     (let ((snap, expired), e') = current_at [] a now e in
      (if expired then Some (AStale, False)
       else (case decode_entry_state (snap_word (deref snap)) of
               EAllowed \<Rightarrow> Some (AAllowed, refresh_due_at e' (deref snap) now)
             | EDenied \<Rightarrow> Some (ADenied, refresh_due_at e' (deref snap) now)
             | EStale \<Rightarrow> Some (AStale, refresh_due_at e' (deref snap) now)
             | EPending \<Rightarrow> None), e'))"

definition admission_is_allowed ::
  "nat \<Rightarrow> instant \<Rightarrow> ('k, 'p) entry \<Rightarrow> bool option \<times> ('k, 'p) entry" where
  "admission_is_allowed a now e =
     (let (st, e') = admission_state_at a now e in (map_option (\<lambda>s. s = AAllowed) st, e'))"

definition admission_payload ::
  "nat \<Rightarrow> instant \<Rightarrow> ('k, 'p) entry \<Rightarrow> 'p option \<times> ('k, 'p) entry" where
  "admission_payload a now e =
     (let ((snap, expired), e') = current_at [] a now e in
      (if \<not> expired \<and> decode_entry_state (snap_word (deref snap)) = EAllowed
       then snap_payload (deref snap) else None, e'))"

section \<open>The loops are atomic\<close>

interpretation cx: cas_loop
  "\<lambda>env. compare_exchange_loop env expected new"
  "\<lambda>m. let st = decode_entry_state (snap_word (deref m)) in if st \<noteq> expected then Some (Inl st) else None"
  "\<lambda>m. (Inr (), new)" for expected new
  by unfold_locales (auto simp: compare_and_swap_def ptr_eq_def Let_def)

interpretation ca: cas_loop
  "\<lambda>env. current_at_loop env expired a"
  "\<lambda>m. let w = snap_word (deref m) in
     if \<not> expired w then Some (m, False) else if w = stale_word w then Some (m, True) else None"
  "\<lambda>m. ((stale_snapshot a m, True), stale_snapshot a m)" for expired a
  by unfold_locales (auto simp: compare_and_swap_def ptr_eq_def Let_def)

interpretation iv: cas_loop
  "\<lambda>env. invalidate_loop env a" "\<lambda>m. None" "\<lambda>m. ((), stale_snapshot a m)" for a
  by unfold_locales (auto simp: compare_and_swap_def ptr_eq_def Let_def)

text \<open>What other threads did to the entry's snapshot cell before the operation took effect.\<close>

definition interfered ::
  "'p entry_snapshot interference list \<Rightarrow> ('k, 'p) entry \<Rightarrow> ('k, 'p) entry" where
  "interfered us e = e\<lparr>current := fold (\<lambda>f. f) us (current e)\<rparr>"

lemma is_expired_at_current [simp]:
  "is_expired_at (e\<lparr>current := c\<rparr>) = is_expired_at e" "is_expired_at (e\<lparr>pending := q\<rparr>) = is_expired_at e"
  by (auto simp: is_expired_at_def entry_tick_def fun_eq_iff)

lemma entry_tick_update [simp]:
  "entry_tick (e\<lparr>current := c\<rparr>) = entry_tick e" "entry_tick (e\<lparr>pending := q\<rparr>) = entry_tick e"
  "entry_tick (e\<lparr>refresh_not_before := n\<rparr>) = entry_tick e"
  by (simp_all add: entry_tick_def fun_eq_iff)

text \<open>
  C25: the compare-and-swap loops of \<open>compare_exchange\<close>, \<open>current_at\<close> and \<open>invalidate\<close>
  are linearizable: against any honest interference of other threads each behaves as one
  atomic step on the entry as some prefix of that interference left it.
\<close>

theorem entry_loops_linearizable:
  assumes "\<forall>f \<in> set env. honest f"
  shows "(\<exists>us vs. env = us @ vs \<and>
      compare_exchange env expected new e = compare_exchange [] expected new (interfered us e))
    \<and> (\<exists>us vs. env = us @ vs \<and> current_at env a now e = current_at [] a now (interfered us e))
    \<and> (\<exists>us vs. env = us @ vs \<and> invalidate env a e = invalidate [] a (interfered us e))"
proof (intro conjI)
  from cx.linearizable [OF assms, of expected new "current e"]
  show "\<exists>us vs. env = us @ vs \<and>
      compare_exchange env expected new e = compare_exchange [] expected new (interfered us e)"
    by (fastforce simp: compare_exchange_def interfered_def split: prod.splits)
  from ca.linearizable [OF assms, of "\<lambda>w. is_expired_at e w now" a "current e"]
  show "\<exists>us vs. env = us @ vs \<and> current_at env a now e = current_at [] a now (interfered us e)"
    by (fastforce simp: current_at_def interfered_def split: prod.splits)
  from iv.linearizable [OF assms, of a "current e"]
  show "\<exists>us vs. env = us @ vs \<and> invalidate env a e = invalidate [] a (interfered us e)"
    by (fastforce simp: invalidate_def abort_pending_def interfered_def split: prod.splits)
qed

section \<open>Effect of the atomic operations\<close>

lemma current_at_quiet:
  "current_at [] a now e =
     (if is_expired_at e (current_word e) now
      then if current_word e = stale_word (current_word e) then ((current e, True), e)
           else ((stale_snapshot a (current e), True), e\<lparr>current := stale_snapshot a (current e)\<rparr>)
      else ((current e, False), e))"
  by (simp add: current_at_def compare_and_swap_def Let_def)

text \<open>The entry after an observation at \<open>now\<close>.\<close>

definition expire :: "nat \<Rightarrow> instant \<Rightarrow> ('k, 'p) entry \<Rightarrow> ('k, 'p) entry" where
  "expire a now e = snd (current_at [] a now e)"

lemma state_at_eq:
  "state_at a now e =
     (if is_expired_at e (current_word e) now then EStale else current_state e, expire a now e)"
  by (simp add: state_at_def expire_def current_at_quiet split: prod.splits)

lemma observed_at_eq:
  "observed_at a now e =
     (if is_expired_at e (current_word e) now then Some OExpired
      else (case current_state e of EPending \<Rightarrow> None | EStale \<Rightarrow> Some OStale
            | EAllowed \<Rightarrow> Some OAllowed | EDenied \<Rightarrow> Some ODenied), expire a now e)"
  by (simp add: observed_at_def expire_def current_at_quiet split: prod.splits)

lemma verdict_at_eq:
  "verdict_at a now e =
     (if is_expired_at e (current_word e) now then None
      else (case current_state e of EAllowed \<Rightarrow> Some DAllowed | EDenied \<Rightarrow> Some DDenied
            | EPending \<Rightarrow> None | EStale \<Rightarrow> None), expire a now e)"
  by (simp add: verdict_at_def expire_def current_at_quiet split: prod.splits)

lemma admission_eq:
  "admission a now e =
     (\<not> is_expired_at e (current_word e) now \<and> current_state e \<in> {EAllowed, EDenied}, expire a now e)"
  by (simp add: admission_def verdict_at_eq split: entry_state.split)

lemma compare_exchange_quiet:
  "compare_exchange [] expected new e =
     (if current_state e = expected then (Inr (), e\<lparr>current := new\<rparr>) else (Inl (current_state e), e))"
  by (simp add: compare_exchange_def compare_and_swap_def Let_def)

lemma invalidate_quiet:
  "invalidate [] a e =
     (map_option (generation \<circ> deref) (pending e),
      e\<lparr>current := stale_snapshot a (current e), pending := None\<rparr>)"
  by (simp add: invalidate_def abort_pending_def compare_and_swap_def)

lemma replace_pending_eq:
  "replace_pending g r e =
     (case pending_generation e g of None \<Rightarrow> (False, e) | Some _ \<Rightarrow> (True, e\<lparr>pending := r\<rparr>))"
  by (auto simp: replace_pending_def pending_generation_def pending_is_def split: option.splits)

lemma expire_frame [simp]:
  "epoch (expire a now e) = epoch e" "pending (expire a now e) = pending e"
  "refresh_before (expire a now e) = refresh_before e"
  "refresh_not_before (expire a now e) = refresh_not_before e"
  by (simp_all add: expire_def current_at_quiet)

lemma expire_tick [simp]: "entry_tick (expire a now e) = entry_tick e"
  by (simp add: entry_tick_def fun_eq_iff)

lemma decode_stale_snapshot [simp]:
  "decode_entry_state (snap_word (deref (stale_snapshot a c))) = EStale"
  "word_deadline (snap_word (deref (stale_snapshot a c))) = word_deadline (snap_word (deref c))"
  "addr (stale_snapshot a c) = a"
  by (simp_all add: stale_snapshot_def)

lemma stale_word_fix: "w = stale_word w \<Longrightarrow> decode_entry_state w = EStale"
  by (metis decode_stale_word)

lemma expire_state:
  "current_state (expire a now e) =
     (if is_expired_at e (current_word e) now then EStale else current_state e)"
  using stale_word_fix [of "current_word e"] by (simp add: expire_def current_at_quiet)

lemma expire_deadline [simp]: "word_deadline (current_word (expire a now e)) = word_deadline (current_word e)"
  by (simp add: expire_def current_at_quiet)

section \<open>Time and expiry\<close>

lemma unat_min: "unat (min a b) = min (unat a) (unat (b :: u64))"
  by (simp add: min_def word_le_nat_alt)

lemma unat_entry_tick [u64_simps]:
  "unat (entry_tick e now) = min (nat (now - epoch e)) (2 ^ 62 - 2)"
proof (cases "u64_try_from (nat (now - epoch e))")
  case None
  then have "2 ^ 64 \<le> nat (now - epoch e)"
    by (simp add: u64_try_from_None_iff)
  then have "2 ^ 62 - 2 \<le> nat (now - epoch e)"
    by simp
  with None show ?thesis
    by (simp add: entry_tick_def saturating_duration_since_def unat_MAX_FINITE_DEADLINE)
next
  case (Some n)
  then show ?thesis
    using u64_try_from_Some [OF Some]
    by (simp add: entry_tick_def saturating_duration_since_def unat_min unat_MAX_FINITE_DEADLINE)
qed

lemma entry_tick_mono: "now \<le> now' \<Longrightarrow> entry_tick e now \<le> entry_tick e now'"
  unfolding word_le_nat_alt unat_entry_tick by (intro min.mono nat_mono) simp_all

lemma entry_tick_lt_NO_EXPIRY: "entry_tick e now < NO_EXPIRY"
  unfolding word_less_nat_alt unat_entry_tick unat_NO_EXPIRY by simp

lemma is_expired_at_mono: "is_expired_at e w now \<Longrightarrow> now \<le> now' \<Longrightarrow> is_expired_at e w now'"
  using entry_tick_mono [of now now' e] by (auto simp: is_expired_at_def Let_def)

lemma is_expired_at_deadline:
  "word_deadline w = word_deadline w' \<Longrightarrow> is_expired_at e w now = is_expired_at e w' now"
  by (simp add: is_expired_at_def)

lemma is_expired_at_frame:
  "epoch e = epoch e' \<Longrightarrow> is_expired_at e w now = is_expired_at e' w now"
  by (simp add: is_expired_at_def entry_tick_def)

lemma unat_deadline_after [u64_simps]:
  "unat (deadline_after e now ttl) =
     (if ttl = DURATION_MAX then 2 ^ 62 - 1
      else if unat (entry_tick e now) + ttl < 2 ^ 62 - 1 then unat (entry_tick e now) + ttl
      else unat (entry_tick e now))"
proof (cases "ttl = DURATION_MAX")
  case True
  then show ?thesis
    by (simp add: deadline_after_def unat_NO_EXPIRY)
next
  case finite: False
  show ?thesis
  proof (cases "u64_try_from ttl")
    case None
    then have "2 ^ 64 \<le> ttl"
      by (simp add: u64_try_from_None_iff)
    with finite None show ?thesis
      by (simp add: deadline_after_def)
  next
    case (Some n)
    from u64_try_from_Some [OF Some] have n: "unat n = ttl" .
    show ?thesis
    proof (cases "u64_checked_add (entry_tick e now) n")
      case None
      then have "2 ^ 64 \<le> unat (entry_tick e now) + ttl"
        using n by (simp add: u64_checked_add_def split: if_splits)
      with finite Some None show ?thesis
        by (simp add: deadline_after_def)
    next
      case sum: (Some d)
      from u64_checked_add_Some [OF sum] n have "unat d = unat (entry_tick e now) + ttl"
        by simp
      with finite Some sum show ?thesis
        by (simp add: deadline_after_def word_less_nat_alt unat_NO_EXPIRY)
    qed
  qed
qed

text \<open>
  C28: \<open>deadline_after\<close> adds the time to live to the entry's tick exactly; the sentinel
  \<open>Duration::MAX\<close> gives the never-expiring deadline, and a finite deadline that does not
  fit below it is the current tick, which is already expired.
\<close>

theorem deadline_after_spec:
  "unat (deadline_after e now ttl) =
     (if ttl = DURATION_MAX then 2 ^ 62 - 1
      else if unat (entry_tick e now) + ttl < 2 ^ 62 - 1 then unat (entry_tick e now) + ttl
      else unat (entry_tick e now))"
  by (rule unat_deadline_after)

lemma deadline_after_le_NO_EXPIRY: "deadline_after e now ttl \<le> NO_EXPIRY"
  unfolding word_le_nat_alt unat_deadline_after unat_NO_EXPIRY unat_entry_tick
  by (auto simp: min_le_iff_disj)

lemma never_expires: "word_deadline w = NO_EXPIRY \<Longrightarrow> \<not> is_expired_at e w now"
  by (simp add: is_expired_at_def)


section \<open>Well-formed entries\<close>

text \<open>
  What holds of the entry at heap address \<open>a\<close> when \<open>n\<close> bounds the addresses handed out:
  an entry without a verdict never expires and has a lookup that admissions can join; a
  lookup without a refresh source never belongs to an entry with a verdict; the snapshot a refresh
  started from carries a verdict, and its address still identifies it.
\<close>

definition pending_ok :: "nat \<Rightarrow> nat \<Rightarrow> ('k, 'p) entry \<Rightarrow> ('k, 'p) pending_fetch arc \<Rightarrow> bool" where
  "pending_ok n a e p \<longleftrightarrow>
     addr p < n \<and> generation (deref p) < n \<and> fetch_entry (deref p) = a \<and>
     (case fetch_refresh_from (deref p) of
        None \<Rightarrow> current_state e \<in> {EPending, EStale}
      | Some r \<Rightarrow> current_state e \<noteq> EPending \<and> addr r < n \<and> (addr r = addr (current e) \<longrightarrow> r = current e)
          \<and> decode_entry_state (snap_word (deref r)) \<in> {EAllowed, EDenied})"

definition entry_ok :: "nat \<Rightarrow> nat \<Rightarrow> ('k, 'p) entry \<Rightarrow> bool" where
  "entry_ok n a e \<longleftrightarrow>
     addr (current e) < n \<and>
     (current_state e = EPending \<longrightarrow>
        word_deadline (current_word e) = NO_EXPIRY \<and> pending e \<noteq> None) \<and>
     (\<forall>p. pending e = Some p \<longrightarrow> pending_ok n a e p)"

text \<open>An entry that no map slot refers to any more: stale for ever, with nothing in flight.\<close>

definition retired :: "('k, 'p) entry \<Rightarrow> bool" where
  "retired e \<longleftrightarrow> current_state e = EStale \<and> pending e = None"

text \<open>What no operation undoes: the clock base, and having had a verdict.\<close>

definition entry_evolves :: "('k, 'p) entry \<Rightarrow> ('k, 'p) entry \<Rightarrow> bool" where
  "entry_evolves e e' \<longleftrightarrow>
     epoch e' = epoch e \<and> refresh_before e' = refresh_before e \<and>
     (current_state e \<noteq> EPending \<longrightarrow> current_state e' \<noteq> EPending)"

lemma entry_evolves_refl [simp]: "entry_evolves e e"
  by (simp add: entry_evolves_def)

lemma entry_evolves_trans: "entry_evolves e e' \<Longrightarrow> entry_evolves e' e'' \<Longrightarrow> entry_evolves e e''"
  by (simp add: entry_evolves_def)

lemma entry_ok_mono:
  assumes "entry_ok n a e" and "n \<le> n'"
  shows "entry_ok n' a e"
  using assms by (auto simp: entry_ok_def pending_ok_def split: option.splits)

lemma entry_ok_pending_not_expired:
  "entry_ok n a e \<Longrightarrow> current_state e = EPending \<Longrightarrow> \<not> is_expired_at e (current_word e) now"
  by (simp add: entry_ok_def never_expires)

lemma entry_ok_expire:
  assumes ok: "entry_ok n a e"
  shows "entry_ok (Suc n) a (expire n now e)"
proof (cases "is_expired_at e (current_word e) now \<and> current_word e \<noteq> stale_word (current_word e)")
  case True
  with ok have "current_state e \<noteq> EPending"
    using entry_ok_pending_not_expired by blast
  with ok True show ?thesis
    by (auto simp: expire_def current_at_quiet entry_ok_def pending_ok_def split: option.splits)
next
  case False
  then have "expire n now e = e"
    by (simp add: expire_def current_at_quiet)
  with entry_ok_mono [OF ok, of "Suc n"] show ?thesis by simp
qed

lemma expire_evolves: "entry_ok n a e \<Longrightarrow> entry_evolves e (expire b now e)"
  by (simp add: entry_evolves_def expire_state)

lemma expire_retired: "retired e \<Longrightarrow> retired (expire a now e)"
  by (simp add: retired_def expire_state)

lemma invalidate_retired: "retired (snd (invalidate [] a e))"
  by (simp add: invalidate_quiet retired_def)

lemma entry_ok_invalidate: "entry_ok n a e \<Longrightarrow> entry_ok (Suc n) a (snd (invalidate [] n e))"
  by (simp add: invalidate_quiet entry_ok_def)

lemma invalidate_evolves: "entry_evolves e (snd (invalidate [] a e))"
  by (simp add: invalidate_quiet entry_evolves_def)

end
