(* ===== verification/Lru.thy ===== *)
theory Lru
  imports Prelude
begin

text \<open>
  The bounded map behind the subject cache is \<open>LruCache\<close> of the \<open>lru\<close> crate, which is not
  part of the repository. The model takes its operations as a parameter, a record of
  functions, and the locale \<open>lru_cache\<close> states what the crate documents of them, read
  through \<open>iter\<close>, which visits the entries in most-recently-used order. A list
  implementation of that documentation shows that the laws can hold and lets the
  development be executed.
\<close>

section \<open>Operations\<close>

text \<open>
  \<open>get_mut\<close> returns the value and a write-back, which stands for the mutable borrow; the
  key is promoted in either case.
\<close>

record ('c, 'k, 'v) lru_ops =
  lru_new :: "nat \<Rightarrow> 'c"
  lru_cap :: "'c \<Rightarrow> nat"
  lru_iter :: "'c \<Rightarrow> ('k \<times> 'v) list"
  lru_peek :: "'k \<Rightarrow> 'c \<Rightarrow> 'v option"
  lru_get_mut :: "'k \<Rightarrow> 'c \<Rightarrow> ('v \<times> ('v \<Rightarrow> 'c)) option"
  lru_push :: "'k \<Rightarrow> 'v \<Rightarrow> 'c \<Rightarrow> ('k \<times> 'v) option \<times> 'c"
  lru_pop :: "'k \<Rightarrow> 'c \<Rightarrow> 'v option \<times> 'c"
  lru_peek_lru :: "'c \<Rightarrow> ('k \<times> 'v) option"
  lru_pop_lru :: "'c \<Rightarrow> ('k \<times> 'v) option \<times> 'c"
  lru_clear :: "'c \<Rightarrow> 'c"

section \<open>Documented behaviour\<close>

text \<open>The \<open>valid\<close> caches are those a program can build with the operations.\<close>

locale lru_cache =
  fixes L :: "('c, 'k, 'v) lru_ops" and valid :: "'c \<Rightarrow> bool"
  assumes keys_distinct: "valid c \<Longrightarrow> distinct (map fst (lru_iter L c))"
    and bounded: "valid c \<Longrightarrow> length (lru_iter L c) \<le> lru_cap L c"
    and cap_pos: "valid c \<Longrightarrow> 0 < lru_cap L c"
    and new: "0 < n \<Longrightarrow> valid (lru_new L n)" "lru_cap L (lru_new L n) = n" "lru_iter L (lru_new L n) = []"
    and peek: "valid c \<Longrightarrow> lru_peek L k c = map_of (lru_iter L c) k"
    and get_mut_None: "valid c \<Longrightarrow> map_of (lru_iter L c) k = None \<Longrightarrow> lru_get_mut L k c = None"
    and get_mut_Some: "valid c \<Longrightarrow> map_of (lru_iter L c) k = Some v \<Longrightarrow>
      \<exists>put. lru_get_mut L k c = Some (v, put) \<and>
        (\<forall>w. valid (put w) \<and> lru_cap L (put w) = lru_cap L c \<and>
          lru_iter L (put w) = (k, w) # [p \<leftarrow> lru_iter L c. fst p \<noteq> k])"
    and push_new: "valid c \<Longrightarrow> map_of (lru_iter L c) k = None \<Longrightarrow>
      length (lru_iter L c) < lru_cap L c \<Longrightarrow>
      \<exists>c'. lru_push L k v c = (None, c') \<and> valid c' \<and> lru_cap L c' = lru_cap L c \<and>
        lru_iter L c' = (k, v) # lru_iter L c"
    and push_full: "valid c \<Longrightarrow> map_of (lru_iter L c) k = None \<Longrightarrow>
      length (lru_iter L c) = lru_cap L c \<Longrightarrow>
      \<exists>c'. lru_push L k v c = (Some (last (lru_iter L c)), c') \<and> valid c' \<and>
        lru_cap L c' = lru_cap L c \<and> lru_iter L c' = (k, v) # butlast (lru_iter L c)"
    and push_present: "valid c \<Longrightarrow> map_of (lru_iter L c) k = Some old \<Longrightarrow>
      \<exists>c'. lru_push L k v c = (Some (k, old), c') \<and> valid c' \<and> lru_cap L c' = lru_cap L c \<and>
        lru_iter L c' = (k, v) # [p \<leftarrow> lru_iter L c. fst p \<noteq> k]"
    and pop: "valid c \<Longrightarrow> \<exists>c'. lru_pop L k c = (map_of (lru_iter L c) k, c') \<and> valid c' \<and>
        lru_cap L c' = lru_cap L c \<and> lru_iter L c' = [p \<leftarrow> lru_iter L c. fst p \<noteq> k]"
    and peek_lru: "valid c \<Longrightarrow>
      lru_peek_lru L c = (if lru_iter L c = [] then None else Some (last (lru_iter L c)))"
    and pop_lru: "valid c \<Longrightarrow>
      \<exists>c'. lru_pop_lru L c = (if lru_iter L c = [] then None else Some (last (lru_iter L c)), c') \<and>
        valid c' \<and> lru_cap L c' = lru_cap L c \<and> lru_iter L c' = butlast (lru_iter L c)"
    and clear: "valid c \<Longrightarrow> valid (lru_clear L c) \<and> lru_cap L (lru_clear L c) = lru_cap L c \<and>
        lru_iter L (lru_clear L c) = []"

section \<open>A list implementation\<close>

type_synonym ('k, 'v) lru_list = "nat \<times> ('k \<times> 'v) list"

definition lru_list :: "(('k, 'v) lru_list, 'k, 'v) lru_ops" where
  "lru_list = \<lparr>
     lru_new = (\<lambda>n. (n, [])),
     lru_cap = fst,
     lru_iter = snd,
     lru_peek = (\<lambda>k (n, ps). map_of ps k),
     lru_get_mut = (\<lambda>k (n, ps).
       case map_of ps k of None \<Rightarrow> None
       | Some v \<Rightarrow> Some (v, \<lambda>w. (n, (k, w) # [p \<leftarrow> ps. fst p \<noteq> k]))),
     lru_push = (\<lambda>k v (n, ps).
       case map_of ps k of
         Some old \<Rightarrow> (Some (k, old), (n, (k, v) # [p \<leftarrow> ps. fst p \<noteq> k]))
       | None \<Rightarrow> if length ps < n then (None, (n, (k, v) # ps))
                else (Some (last ps), (n, (k, v) # butlast ps))),
     lru_pop = (\<lambda>k (n, ps). (map_of ps k, (n, [p \<leftarrow> ps. fst p \<noteq> k]))),
     lru_peek_lru = (\<lambda>(n, ps). if ps = [] then None else Some (last ps)),
     lru_pop_lru = (\<lambda>(n, ps). (if ps = [] then None else Some (last ps), (n, butlast ps))),
     lru_clear = (\<lambda>(n, ps). (n, [])) \<rparr>"

definition lru_list_valid :: "('k, 'v) lru_list \<Rightarrow> bool" where
  "lru_list_valid c \<longleftrightarrow> 0 < fst c \<and> distinct (map fst (snd c)) \<and> length (snd c) \<le> fst c"

lemma filter_neq_absent: "map_of ps k = None \<Longrightarrow> [p \<leftarrow> ps. fst p \<noteq> k] = ps"
  by (induction ps) (auto split: if_splits)

lemma not_in_filter_neq: "k \<notin> fst ` set [p \<leftarrow> ps. fst p \<noteq> k]"
  by auto

lemma length_filter_neq_present:
  "map_of ps k = Some v \<Longrightarrow> Suc (length [p \<leftarrow> ps. fst p \<noteq> k]) \<le> length ps"
  using length_filter_neq_in [of k v ps] by (auto dest: map_of_SomeD)

interpretation lru_list_lru: lru_cache lru_list lru_list_valid
proof unfold_locales
  fix c :: "('k, 'v) lru_list" and k v
  obtain n ps where c: "c = (n, ps)" by (cases c)
  assume valid: "lru_list_valid c"
  show "distinct (map fst (lru_iter lru_list c))" "length (lru_iter lru_list c) \<le> lru_cap lru_list c"
    "0 < lru_cap lru_list c"
    using valid by (simp_all add: lru_list_def lru_list_valid_def)
  show "lru_peek lru_list k c = map_of (lru_iter lru_list c) k"
    by (simp add: lru_list_def c)
  show "lru_get_mut lru_list k c = None" if "map_of (lru_iter lru_list c) k = None"
    using that by (simp add: lru_list_def c)
  show "\<exists>put. lru_get_mut lru_list k c = Some (v, put) \<and>
      (\<forall>w. lru_list_valid (put w) \<and> lru_cap lru_list (put w) = lru_cap lru_list c \<and>
        lru_iter lru_list (put w) = (k, w) # [p \<leftarrow> lru_iter lru_list c. fst p \<noteq> k])"
    if "map_of (lru_iter lru_list c) k = Some v"
    using that valid length_filter_neq_present [of ps k v]
    by (auto simp: lru_list_def lru_list_valid_def c distinct_fst_filter)
  show "\<exists>c'. lru_push lru_list k v c = (None, c') \<and> lru_list_valid c' \<and>
      lru_cap lru_list c' = lru_cap lru_list c \<and> lru_iter lru_list c' = (k, v) # lru_iter lru_list c"
    if "map_of (lru_iter lru_list c) k = None" "length (lru_iter lru_list c) < lru_cap lru_list c"
    using that valid map_of_eq_None_iff [of ps k] by (auto simp: lru_list_def lru_list_valid_def c)
  show "\<exists>c'. lru_push lru_list k v c = (Some (last (lru_iter lru_list c)), c') \<and> lru_list_valid c' \<and>
      lru_cap lru_list c' = lru_cap lru_list c \<and>
      lru_iter lru_list c' = (k, v) # butlast (lru_iter lru_list c)"
    if "map_of (lru_iter lru_list c) k = None" "length (lru_iter lru_list c) = lru_cap lru_list c"
    using that valid map_of_eq_None_iff [of ps k]
    by (auto simp: lru_list_def lru_list_valid_def c distinct_fst_butlast dest: in_set_butlastD)
  show "\<exists>c'. lru_push lru_list k w c = (Some (k, v), c') \<and> lru_list_valid c' \<and>
      lru_cap lru_list c' = lru_cap lru_list c \<and>
      lru_iter lru_list c' = (k, w) # [p \<leftarrow> lru_iter lru_list c. fst p \<noteq> k]"
    if "map_of (lru_iter lru_list c) k = Some v" for w
    using that valid length_filter_neq_present [of ps k v]
    by (auto simp: lru_list_def lru_list_valid_def c distinct_fst_filter)
  show "\<exists>c'. lru_pop lru_list k c = (map_of (lru_iter lru_list c) k, c') \<and> lru_list_valid c' \<and>
      lru_cap lru_list c' = lru_cap lru_list c \<and>
      lru_iter lru_list c' = [p \<leftarrow> lru_iter lru_list c. fst p \<noteq> k]"
    using valid le_trans [OF length_filter_le]
    by (auto simp: lru_list_def lru_list_valid_def c distinct_fst_filter)
  show "lru_peek_lru lru_list c =
      (if lru_iter lru_list c = [] then None else Some (last (lru_iter lru_list c)))"
    by (simp add: lru_list_def c)
  show "\<exists>c'. lru_pop_lru lru_list c =
      (if lru_iter lru_list c = [] then None else Some (last (lru_iter lru_list c)), c') \<and>
      lru_list_valid c' \<and> lru_cap lru_list c' = lru_cap lru_list c \<and>
      lru_iter lru_list c' = butlast (lru_iter lru_list c)"
    using valid by (auto simp: lru_list_def lru_list_valid_def c distinct_fst_butlast)
  show "lru_list_valid (lru_clear lru_list c) \<and> lru_cap lru_list (lru_clear lru_list c) = lru_cap lru_list c \<and>
      lru_iter lru_list (lru_clear lru_list c) = []"
    using valid by (simp add: lru_list_def lru_list_valid_def c)
qed (simp_all add: lru_list_def lru_list_valid_def)

end
