(* ===== verification/Subjects.thy ===== *)
theory Subjects
  imports Entry Lru
begin

text \<open>
  The subject cache (\<open>SubjectSlot\<close> and \<open>SubjectMap\<close> in \<open>src/src/gate.rs\<close>) over an
  explicit heap of entries. Admission handles, map slots and the published snapshot all
  hold addresses of that heap, so what one of them observes after an operation of another
  is visible in the model. The map lock makes each operation atomic.
\<close>

section \<open>The heap of entries\<close>

text \<open>
  \<open>aborted\<close> lists the generations whose abort handle has fired. Addresses are handed out in
  increasing order and are not reused.
\<close>

record ('k, 'p) heap =
  next_addr :: nat
  cells :: "nat \<rightharpoonup> ('k, 'p) entry"
  aborted :: "nat list"

definition empty_heap :: "('k, 'p) heap" where
  "empty_heap = \<lparr> next_addr = 0, cells = Map.empty, aborted = [] \<rparr>"

text \<open>Run an entry operation, which may allocate one snapshot, on the entry at \<open>ea\<close>.\<close>

definition with_entry ::
  "nat \<Rightarrow> (nat \<Rightarrow> ('k, 'p) entry \<Rightarrow> 'r \<times> ('k, 'p) entry) \<Rightarrow> 'r \<Rightarrow> ('k, 'p) heap
    \<Rightarrow> 'r \<times> ('k, 'p) heap" where
  "with_entry ea f dangling h =
     (case cells h ea of
        None \<Rightarrow> (dangling, h)
      | Some e \<Rightarrow> let (r, e') = f (next_addr h) e in
          (r, h\<lparr>cells := (cells h)(ea \<mapsto> e'), next_addr := Suc (next_addr h)\<rparr>))"

definition record_abort :: "nat option \<Rightarrow> ('k, 'p) heap \<Rightarrow> ('k, 'p) heap" where
  "record_abort g h = (case g of None \<Rightarrow> h | Some g \<Rightarrow> h\<lparr>aborted := g # aborted h\<rparr>)"

text \<open>\<open>slot.entry.invalidate()\<close>: no other thread's writes intervene on the snapshot cell.\<close>

definition heap_invalidate :: "nat \<Rightarrow> ('k, 'p) heap \<Rightarrow> ('k, 'p) heap" where
  "heap_invalidate ea h = (let (g, h') = with_entry ea (invalidate []) None h in record_abort g h')"

section \<open>The map\<close>

record subject_slot =
  slot_entry :: nat
  last_touched :: u64

definition slot_touch :: "u64 \<Rightarrow> subject_slot \<Rightarrow> subject_slot" where
  "slot_touch tick s = s\<lparr>last_touched := max (last_touched s) tick\<rparr>"

record ('c, 'k, 'p) subject_map =
  sm_entries :: 'c
  sm_subject_ttl :: duration
  sm_activity_epoch :: instant
  sm_shape_dirty :: bool
  sm_heap :: "('k, 'p) heap"

type_synonym ('c, 'k) slot_lru = "('c, 'k, subject_slot) lru_ops"

text \<open>
  \<open>SubjectMap::new\<close>; \<open>shape_dirty\<close> is the flag shared with the gate. A zero capacity makes
  the source's \<open>expect\<close> panic.
\<close>

definition subject_map_new ::
  "('c, 'k) slot_lru \<Rightarrow> nat \<Rightarrow> duration \<Rightarrow> bool \<Rightarrow> instant \<Rightarrow> ('c, 'k, 'p) subject_map option" where
  "subject_map_new L cap ttl dirty now =
     (if cap = 0 then None
      else Some \<lparr> sm_entries = lru_new L cap, sm_subject_ttl = ttl, sm_activity_epoch = now,
                  sm_shape_dirty = dirty, sm_heap = empty_heap \<rparr>)"

definition map_tick :: "('c, 'k, 'p) subject_map \<Rightarrow> instant \<Rightarrow> u64" where
  "map_tick m now =
     (case u64_try_from (saturating_duration_since now (sm_activity_epoch m)) of
        Some t \<Rightarrow> t | None \<Rightarrow> U64_MAX)"

definition retire_slot :: "subject_slot \<Rightarrow> ('c, 'k, 'p) subject_map \<Rightarrow> ('c, 'k, 'p) subject_map" where
  "retire_slot s m = m\<lparr>sm_heap := heap_invalidate (slot_entry s) (sm_heap m), sm_shape_dirty := True\<rparr>"

text \<open>
  \<open>SubjectMap::evict\<close>. Every turn of the loop removes one slot, so as many turns as there
  are slots are enough; \<open>evict_done\<close> shows that the loop's exit condition holds at the end.
\<close>

definition slot_idle :: "u64 \<Rightarrow> u64 \<Rightarrow> subject_slot \<Rightarrow> bool" where
  "slot_idle ttl now s \<longleftrightarrow> u64_saturating_sub now (last_touched s) > ttl"

fun evict_loop ::
  "('c, 'k) slot_lru \<Rightarrow> nat \<Rightarrow> u64 \<Rightarrow> u64 \<Rightarrow> ('c, 'k, 'p) subject_map \<Rightarrow> ('c, 'k, 'p) subject_map" where
  "evict_loop L 0 ttl now m = m"
| "evict_loop L (Suc n) ttl now m =
     (case lru_peek_lru L (sm_entries m) of
        None \<Rightarrow> m
      | Some (_, s) \<Rightarrow>
        if \<not> slot_idle ttl now s then m
        else case lru_pop_lru L (sm_entries m) of
            (None, c) \<Rightarrow> m\<lparr>sm_entries := c\<rparr>
          | (Some (_, s), c) \<Rightarrow> evict_loop L n ttl now (retire_slot s (m\<lparr>sm_entries := c\<rparr>)))"

definition ttl_ticks :: "('c, 'k, 'p) subject_map \<Rightarrow> u64" where
  "ttl_ticks m = (case u64_try_from (sm_subject_ttl m) of Some n \<Rightarrow> n | None \<Rightarrow> U64_MAX)"

definition evict ::
  "('c, 'k) slot_lru \<Rightarrow> u64 \<Rightarrow> ('c, 'k, 'p) subject_map \<Rightarrow> ('c, 'k, 'p) subject_map" where
  "evict L now m = evict_loop L (length (lru_iter L (sm_entries m))) (ttl_ticks m) now m"

text \<open>
  \<open>SubjectMap::get_or_insert_with\<close>: the entry's address and whether \<open>create\<close> ran.
\<close>

definition get_or_insert_with ::
  "('c, 'k) slot_lru \<Rightarrow> 'k \<Rightarrow> instant \<Rightarrow> (('k, 'p) heap \<Rightarrow> nat \<times> ('k, 'p) heap)
    \<Rightarrow> ('c, 'k, 'p) subject_map \<Rightarrow> (nat \<times> bool) \<times> ('c, 'k, 'p) subject_map" where
  "get_or_insert_with L k now create m =
     (let tick = map_tick m now in
      case lru_get_mut L k (sm_entries m) of
        Some (s, put) \<Rightarrow>
          ((slot_entry s, False), evict L tick (m\<lparr>sm_entries := put (slot_touch tick s)\<rparr>))
      | None \<Rightarrow>
        (let m = evict L tick m;
             (ea, h) = create (sm_heap m);
             (evicted, c) = lru_push L k \<lparr> slot_entry = ea, last_touched = tick \<rparr> (sm_entries m);
             m = m\<lparr>sm_heap := h, sm_entries := c\<rparr>;
             m = (case evicted of Some (_, s) \<Rightarrow> retire_slot s m | None \<Rightarrow> m)
         in ((ea, True), evict L tick m)))"

definition map_touch ::
  "('c, 'k) slot_lru \<Rightarrow> 'k \<Rightarrow> nat \<Rightarrow> instant \<Rightarrow> ('c, 'k, 'p) subject_map
    \<Rightarrow> bool \<times> ('c, 'k, 'p) subject_map" where
  "map_touch L k ea now m =
     (let tick = map_tick m now;
          matched = (case lru_peek L k (sm_entries m) of Some s \<Rightarrow> slot_entry s = ea | None \<Rightarrow> False);
          m = (if matched
               then (case lru_get_mut L k (sm_entries m) of
                       Some (s, put) \<Rightarrow> m\<lparr>sm_entries := put (slot_touch tick s)\<rparr>
                     | None \<Rightarrow> m)
               else m)
      in (matched, evict L tick m))"

definition map_update ::
  "('c, 'k) slot_lru \<Rightarrow> 'k \<Rightarrow> instant \<Rightarrow> (nat \<Rightarrow> ('k, 'p) heap \<Rightarrow> ('k, 'p) heap)
    \<Rightarrow> ('c, 'k, 'p) subject_map \<Rightarrow> ('c, 'k, 'p) subject_map" where
  "map_update L k now f m =
     (let m = evict L (map_tick m now) m in
      case lru_peek L k (sm_entries m) of
        Some s \<Rightarrow> m\<lparr>sm_heap := f (slot_entry s) (sm_heap m)\<rparr>
      | None \<Rightarrow> m)"

text \<open>The shared tail of \<open>remove\<close> and \<open>remove_if\<close>: pop the slot and invalidate its entry.\<close>

definition pop_slot ::
  "('c, 'k) slot_lru \<Rightarrow> 'k \<Rightarrow> ('c, 'k, 'p) subject_map \<Rightarrow> bool \<times> ('c, 'k, 'p) subject_map" where
  "pop_slot L k m =
     (case lru_pop L k (sm_entries m) of
        (Some s, c) \<Rightarrow>
          (True, m\<lparr>sm_entries := c, sm_heap := heap_invalidate (slot_entry s) (sm_heap m)\<rparr>)
      | (None, c) \<Rightarrow> (False, m\<lparr>sm_entries := c\<rparr>))"

definition map_remove ::
  "('c, 'k) slot_lru \<Rightarrow> 'k \<Rightarrow> instant \<Rightarrow> ('c, 'k, 'p) subject_map
    \<Rightarrow> bool \<times> ('c, 'k, 'p) subject_map" where
  "map_remove L k now m = pop_slot L k (evict L (map_tick m now) m)"

text \<open>
  \<open>SubjectMap::remove_if\<close>: the predicate runs under the map lock and may itself change the
  entry.
\<close>

definition map_remove_if ::
  "('c, 'k) slot_lru \<Rightarrow> 'k \<Rightarrow> instant \<Rightarrow> (nat \<Rightarrow> ('k, 'p) heap \<Rightarrow> bool \<times> ('k, 'p) heap)
    \<Rightarrow> ('c, 'k, 'p) subject_map \<Rightarrow> bool \<times> ('c, 'k, 'p) subject_map" where
  "map_remove_if L k now pred m =
     (let m = evict L (map_tick m now) m in
      case lru_peek L k (sm_entries m) of
        None \<Rightarrow> (False, m)
      | Some s \<Rightarrow>
        (let (holds, h) = pred (slot_entry s) (sm_heap m); m = m\<lparr>sm_heap := h\<rparr>
         in if holds then pop_slot L k m else (False, m)))"

text \<open>\<open>SubjectMap::for_each\<close> with the visitor that collects the map, as the gate uses it.\<close>

definition map_collect :: "('c, 'k) slot_lru \<Rightarrow> ('c, 'k, 'p) subject_map \<Rightarrow> ('k \<rightharpoonup> nat)" where
  "map_collect L m = fold (\<lambda>(k, s) snap. snap(k \<mapsto> slot_entry s)) (lru_iter L (sm_entries m)) Map.empty"

definition map_clear ::
  "('c, 'k) slot_lru \<Rightarrow> ('c, 'k, 'p) subject_map \<Rightarrow> ('c, 'k, 'p) subject_map" where
  "map_clear L m =
     (let h = fold (\<lambda>(k, s). heap_invalidate (slot_entry s)) (lru_iter L (sm_entries m)) (sm_heap m)
      in m\<lparr>sm_heap := h, sm_entries := lru_clear L (sm_entries m)\<rparr>)"

section \<open>Well-formed heaps\<close>

definition heap_ok :: "('k, 'p) heap \<Rightarrow> bool" where
  "heap_ok h \<longleftrightarrow>
     (\<forall>a e. cells h a = Some e \<longrightarrow> a < next_addr h \<and> entry_ok (next_addr h) a e \<and>
        (\<forall>p. pending e = Some p \<longrightarrow> generation (deref p) \<notin> set (aborted h))) \<and>
     (\<forall>a e b f p q. cells h a = Some e \<longrightarrow> cells h b = Some f \<longrightarrow> pending e = Some p \<longrightarrow>
        pending f = Some q \<longrightarrow> generation (deref p) = generation (deref q) \<longrightarrow> a = b) \<and>
     (\<forall>g \<in> set (aborted h). g < next_addr h)"

text \<open>
  What no operation undoes: entries stay, keep what \<open>entry_evolves\<close> says, abort handles
  stay fired, and a lookup that is no longer an entry's pending one never is again.
\<close>

definition heap_evolves :: "('k, 'p) heap \<Rightarrow> ('k, 'p) heap \<Rightarrow> bool" where
  "heap_evolves h h' \<longleftrightarrow>
     next_addr h \<le> next_addr h' \<and> set (aborted h) \<subseteq> set (aborted h') \<and>
     (\<forall>a e. cells h a = Some e \<longrightarrow> (\<exists>e'. cells h' a = Some e' \<and> entry_evolves e e')) \<and>
     (\<forall>a e' p. cells h' a = Some e' \<longrightarrow> pending e' = Some p \<longrightarrow>
        (\<exists>e. cells h a = Some e \<and> pending e = Some p) \<or> next_addr h \<le> generation (deref p))"

lemma heap_evolves_refl [simp]: "heap_evolves h h"
  by (simp add: heap_evolves_def)

lemma heap_evolves_pending:
  "heap_evolves h h' \<Longrightarrow> cells h' a = Some e' \<Longrightarrow> pending e' = Some p \<Longrightarrow>
    (\<exists>e. cells h a = Some e \<and> pending e = Some p) \<or> next_addr h \<le> generation (deref p)"
  unfolding heap_evolves_def by blast

lemma heap_evolves_entry:
  "heap_evolves h h' \<Longrightarrow> cells h a = Some e \<Longrightarrow> \<exists>e'. cells h' a = Some e' \<and> entry_evolves e e'"
  unfolding heap_evolves_def by blast

lemma heap_evolves_trans:
  assumes "heap_evolves h h'" "heap_evolves h' h''"
  shows "heap_evolves h h''"
proof -
  have base: "next_addr h \<le> next_addr h'" "next_addr h' \<le> next_addr h''"
    "set (aborted h) \<subseteq> set (aborted h'')"
    using assms unfolding heap_evolves_def by auto
  moreover have "\<exists>e''. cells h'' a = Some e'' \<and> entry_evolves e e''" if "cells h a = Some e" for a e
    using heap_evolves_entry [OF assms(1) that] heap_evolves_entry [OF assms(2)]
      entry_evolves_trans by blast
  moreover have "(\<exists>e. cells h a = Some e \<and> pending e = Some p) \<or> next_addr h \<le> generation (deref p)"
    if "cells h'' a = Some e''" "pending e'' = Some p" for a e'' p
    using heap_evolves_pending [OF assms(2) that] heap_evolves_pending [OF assms(1)]
      order_trans [OF base(1)] by blast
  ultimately show ?thesis
    unfolding heap_evolves_def by (meson order_trans)
qed

lemma heap_okD:
  assumes "heap_ok h" and "cells h a = Some e"
  shows "a < next_addr h" and "entry_ok (next_addr h) a e"
    and "pending e = Some p \<Longrightarrow> generation (deref p) \<notin> set (aborted h)"
  using assms unfolding heap_ok_def by blast+

lemma heap_ok_entry_lt: "heap_ok h \<Longrightarrow> cells h a = Some e \<Longrightarrow> pending e = Some p \<Longrightarrow>
    generation (deref p) < next_addr h"
  using heap_okD(2) unfolding entry_ok_def pending_ok_def by blast

lemma empty_heap_ok [simp]: "heap_ok empty_heap"
  by (simp add: heap_ok_def empty_heap_def)

text \<open>The one way entries change: a well-formed replacement that keeps, drops or freshly
  allocates its lookup.\<close>

lemma heap_ok_replace:
  assumes ok: "heap_ok h" and le: "next_addr h \<le> n'"
    and e': "entry_ok n' a e'" "a < n'"
    and pend: "\<And>p. pending e' = Some p \<Longrightarrow>
      (\<exists>e. cells h a = Some e \<and> pending e = Some p) \<or> next_addr h \<le> generation (deref p)"
  shows "heap_ok (h\<lparr>cells := (cells h)(a \<mapsto> e'), next_addr := n'\<rparr>)"
proof -
  have live: "generation (deref p) \<notin> set (aborted h)" if "pending e' = Some p" for p
    using pend [OF that] ok heap_okD(3) [OF ok] unfolding heap_ok_def by (metis not_less)
  have unique: "b = a" if "cells h b = Some f" "b \<noteq> a" "pending f = Some q" "pending e' = Some p"
    "generation (deref p) = generation (deref q)" for b f p q
    using pend [OF that(4)] ok heap_ok_entry_lt [OF ok that(1,3)] that
    unfolding heap_ok_def by (metis not_less)
  show ?thesis
    unfolding heap_ok_def
  proof (intro conjI allI impI ballI)
    fix b f p q
    assume "cells (h\<lparr>cells := (cells h)(a \<mapsto> e'), next_addr := n'\<rparr>) b = Some f"
    then show "b < next_addr (h\<lparr>cells := (cells h)(a \<mapsto> e'), next_addr := n'\<rparr>)"
      and "entry_ok (next_addr (h\<lparr>cells := (cells h)(a \<mapsto> e'), next_addr := n'\<rparr>)) b f"
      and "pending f = Some p \<Longrightarrow>
        generation (deref p) \<notin> set (aborted (h\<lparr>cells := (cells h)(a \<mapsto> e'), next_addr := n'\<rparr>))"
      using e' le live heap_okD [OF ok, of b f] entry_ok_mono [of "next_addr h" b f n']
      by (auto split: if_splits)
  next
    fix b f c g p q
    assume "cells (h\<lparr>cells := (cells h)(a \<mapsto> e'), next_addr := n'\<rparr>) b = Some f"
      "cells (h\<lparr>cells := (cells h)(a \<mapsto> e'), next_addr := n'\<rparr>) c = Some g"
      "pending f = Some p" "pending g = Some q" "generation (deref p) = generation (deref q)"
    then show "b = c"
      using unique ok unfolding heap_ok_def by (auto split: if_splits) metis+
  next
    fix g
    assume "g \<in> set (aborted (h\<lparr>cells := (cells h)(a \<mapsto> e'), next_addr := n'\<rparr>))"
    then show "g < next_addr (h\<lparr>cells := (cells h)(a \<mapsto> e'), next_addr := n'\<rparr>)"
      using ok le unfolding heap_ok_def by fastforce
  qed
qed

lemma heap_ok_abort:
  assumes ok: "heap_ok h" and lt: "g < next_addr h"
    and free: "\<And>a e p. cells h a = Some e \<Longrightarrow> pending e = Some p \<Longrightarrow> generation (deref p) \<noteq> g"
  shows "heap_ok (record_abort (Some g) h)"
  using assms unfolding heap_ok_def record_abort_def by auto

lemma heap_evolves_replace:
  assumes "cells h a = Some e" "entry_evolves e e'" "next_addr h \<le> n'"
    and "\<And>p. pending e' = Some p \<Longrightarrow> pending e = Some p \<or> next_addr h \<le> generation (deref p)"
  shows "heap_evolves h (h\<lparr>cells := (cells h)(a \<mapsto> e'), next_addr := n'\<rparr>)"
  using assms by (auto simp: heap_evolves_def)

lemma heap_evolves_abort: "heap_evolves h (record_abort g h)"
  by (auto simp: heap_evolves_def record_abort_def split: option.split)

lemma record_abort_frame [simp]:
  "cells (record_abort g h) = cells h" "next_addr (record_abort g h) = next_addr h"
  by (simp_all add: record_abort_def split: option.split)

section \<open>Operations on one entry of the heap\<close>

text \<open>
  The contract between the entry operations and their clients, the subject map and the
  gate: an action on the entry at \<open>ea\<close> keeps the heap well-formed, undoes nothing, and
  touches no other entry.
\<close>

locale entry_action =
  fixes act :: "nat \<Rightarrow> ('k, 'p) heap \<Rightarrow> ('k, 'p) heap"
  assumes act_ok: "heap_ok h \<Longrightarrow> heap_ok (act ea h)"
    and act_evolves: "heap_ok h \<Longrightarrow> heap_evolves h (act ea h)"
    and act_frame: "b \<noteq> ea \<Longrightarrow> cells (act ea h) b = cells h b"
    and act_dangling: "cells h ea = None \<Longrightarrow> cells (act ea h) ea = None"
begin

lemma act_dom: "heap_ok h \<Longrightarrow> dom (cells (act ea h)) = dom (cells h)"
proof (rule set_eqI)
  fix b
  assume "heap_ok h"
  from act_evolves [OF this, of ea]
  have "\<exists>e'. cells (act ea h) ea = Some e'" if "cells h ea = Some e" for e
    using that unfolding heap_evolves_def by blast
  then show "b \<in> dom (cells (act ea h)) \<longleftrightarrow> b \<in> dom (cells h)"
    using act_frame [of b ea h] act_dangling [of h ea]
    by (cases "b = ea"; cases "cells h ea") (auto simp: domIff)
qed

lemma act_twice: "heap_ok h \<Longrightarrow> heap_evolves h (act eb (act ea h))"
  using act_ok act_evolves heap_evolves_trans by blast

end

text \<open>An action that may be applied to a retired entry: it leaves it retired.\<close>

locale entry_observation = entry_action +
  assumes act_retired: "cells h ea = Some e \<Longrightarrow> retired e \<Longrightarrow>
    \<exists>e'. cells (act ea h) ea = Some e' \<and> retired e'"
begin

lemma retired_stays:
  assumes "cells h a = Some e" "retired e"
  shows "\<exists>e'. cells (act ea h) a = Some e' \<and> retired e'"
  using assms act_retired act_frame by (cases "a = ea") auto

end

lemma with_entry_cells:
  "cells (snd (with_entry ea f d h)) =
     (case cells h ea of None \<Rightarrow> cells h
      | Some e \<Rightarrow> (cells h)(ea \<mapsto> snd (f (next_addr h) e)))"
  by (simp add: with_entry_def split: option.split prod.split)

lemma with_entry_heap:
  "cells h ea = Some e \<Longrightarrow> with_entry ea f d h =
     (fst (f (next_addr h) e),
      h\<lparr>cells := (cells h)(ea \<mapsto> snd (f (next_addr h) e)), next_addr := Suc (next_addr h)\<rparr>)"
  by (simp add: with_entry_def split: prod.split)

text \<open>Entry operations that at most expire the entry are observations.\<close>

lemma entry_observation_expire:
  assumes "\<And>n e. snd (f n e) = expire n now e"
  shows "entry_observation (\<lambda>ea h. snd (with_entry ea f d h))"
proof
  fix h :: "('a, 'b) heap" and ea b
  assume ok: "heap_ok h"
  show "heap_ok (snd (with_entry ea f d h))"
  proof (cases "cells h ea")
    case (Some e)
    note E = heap_okD [OF ok Some]
    show ?thesis
      unfolding with_entry_heap [OF Some] snd_conv
      by (rule heap_ok_replace [OF ok])
        (use E in \<open>auto simp: assms entry_ok_expire Some\<close>)
  qed (simp add: with_entry_def ok)
  show "heap_evolves h (snd (with_entry ea f d h))"
  proof (cases "cells h ea")
    case (Some e)
    show ?thesis
      unfolding with_entry_heap [OF Some] snd_conv
      by (rule heap_evolves_replace [OF Some])
        (simp_all add: assms expire_evolves [OF heap_okD(2) [OF ok Some]])
  qed (simp add: with_entry_def)
next
  fix h :: "('a, 'b) heap" and ea b
  show "b \<noteq> ea \<Longrightarrow> cells (snd (with_entry ea f d h)) b = cells h b"
    and "cells h ea = None \<Longrightarrow> cells (snd (with_entry ea f d h)) ea = None"
    by (auto simp: with_entry_cells split: option.split)
next
  fix h :: "('a, 'b) heap" and ea e
  assume "cells h ea = Some e" "retired e"
  then show "\<exists>e'. cells (snd (with_entry ea f d h)) ea = Some e' \<and> retired e'"
    by (simp add: with_entry_cells assms expire_retired)
qed

interpretation state_at_action: entry_observation
  "\<lambda>ea h. snd (with_entry ea (\<lambda>a. state_at a now) d h)" for now d
  by (rule entry_observation_expire) (simp add: state_at_eq)

interpretation verdict_at_action: entry_observation
  "\<lambda>ea h. snd (with_entry ea (\<lambda>a. verdict_at a now) d h)" for now d
  by (rule entry_observation_expire) (simp add: verdict_at_eq)

interpretation admission_action: entry_observation
  "\<lambda>ea h. snd (with_entry ea (\<lambda>a. admission a now) d h)" for now d
  by (rule entry_observation_expire) (simp add: admission_eq)

interpretation observed_at_action: entry_observation
  "\<lambda>ea h. snd (with_entry ea (\<lambda>a. observed_at a now) d h)" for now d
  by (rule entry_observation_expire) (simp add: observed_at_eq)

lemma heap_invalidate_cells:
  "cells (heap_invalidate ea h) =
     (case cells h ea of None \<Rightarrow> cells h
      | Some e \<Rightarrow> (cells h)(ea \<mapsto> snd (invalidate [] (next_addr h) e)))"
  by (simp add: heap_invalidate_def split: prod.split)
    (metis snd_conv with_entry_cells)

lemma heap_invalidate_ok:
  assumes ok: "heap_ok h"
  shows "heap_ok (heap_invalidate ea h)"
proof (cases "cells h ea")
  case None
  with ok show ?thesis by (simp add: heap_invalidate_def with_entry_def record_abort_def)
next
  case (Some e)
  let ?e' = "snd (invalidate [] (next_addr h) e)"
  let ?h' = "h\<lparr>cells := (cells h)(ea \<mapsto> ?e'), next_addr := Suc (next_addr h)\<rparr>"
  have h': "heap_ok ?h'"
    by (rule heap_ok_replace [OF ok])
      (use heap_okD [OF ok Some] entry_ok_invalidate [of "next_addr h" ea e] in
        \<open>auto simp: invalidate_quiet\<close>)
  have eq: "heap_invalidate ea h = record_abort (map_option (generation \<circ> deref) (pending e)) ?h'"
    by (simp add: heap_invalidate_def with_entry_heap [OF Some] invalidate_quiet)
  show ?thesis
  proof (cases "pending e")
    case None
    with h' eq show ?thesis by (simp add: record_abort_def)
  next
    case pend: (Some p)
    have "heap_ok (record_abort (Some (generation (deref p))) ?h')"
    proof (rule heap_ok_abort [OF h'])
      show "generation (deref p) < next_addr ?h'"
        using heap_ok_entry_lt [OF ok Some pend] by simp
      fix a f q
      assume "cells ?h' a = Some f" "pending f = Some q"
      then show "generation (deref q) \<noteq> generation (deref p)"
        using ok Some pend unfolding heap_ok_def
        by (auto simp: invalidate_quiet split: if_splits)
    qed
    with eq pend show ?thesis by simp
  qed
qed

interpretation invalidate_action: entry_observation heap_invalidate
proof
  fix h :: "('a, 'b) heap" and ea b e
  show "heap_ok h \<Longrightarrow> heap_ok (heap_invalidate ea h)"
    by (rule heap_invalidate_ok)
  show "heap_evolves h (heap_invalidate ea h)"
  proof (cases "cells h ea")
    case (Some e)
    have "heap_evolves h (h\<lparr>cells := (cells h)(ea \<mapsto> snd (invalidate [] (next_addr h) e)),
        next_addr := Suc (next_addr h)\<rparr>)"
      by (rule heap_evolves_replace [OF Some]) (simp_all add: invalidate_evolves, simp add: invalidate_quiet)
    then show ?thesis
      using heap_evolves_trans [OF _ heap_evolves_abort]
      by (simp add: heap_invalidate_def with_entry_heap [OF Some] split: prod.split)
  qed (simp add: heap_invalidate_def with_entry_def record_abort_def)
  show "b \<noteq> ea \<Longrightarrow> cells (heap_invalidate ea h) b = cells h b"
    and "cells h ea = None \<Longrightarrow> cells (heap_invalidate ea h) ea = None"
    by (auto simp: heap_invalidate_cells split: option.split)
  show "cells h ea = Some e \<Longrightarrow> retired e \<Longrightarrow>
      \<exists>e'. cells (heap_invalidate ea h) ea = Some e' \<and> retired e'"
    by (simp add: heap_invalidate_cells invalidate_retired)
qed

lemma heap_invalidate_retires:
  "cells h ea = Some e \<Longrightarrow> \<exists>e'. cells (heap_invalidate ea h) ea = Some e' \<and> retired e'"
  by (simp add: heap_invalidate_cells invalidate_retired)

section \<open>The map invariant\<close>

definition slot_pairs :: "('c, 'k) slot_lru \<Rightarrow> 'c \<Rightarrow> ('k \<times> nat) set" where
  "slot_pairs L c = (\<lambda>(k, s). (k, slot_entry s)) ` set (lru_iter L c)"

definition slot_refs :: "('c, 'k) slot_lru \<Rightarrow> 'c \<Rightarrow> nat set" where
  "slot_refs L c = (slot_entry \<circ> snd) ` set (lru_iter L c)"

text \<open>
  Slots refer to distinct entries of a well-formed heap, and an entry without a slot is
  retired.
\<close>

definition map_inv :: "('c \<Rightarrow> bool) \<Rightarrow> ('c, 'k) slot_lru \<Rightarrow> 'c \<Rightarrow> ('k, 'p) heap \<Rightarrow> bool" where
  "map_inv valid L c h \<longleftrightarrow>
     valid c \<and> heap_ok h \<and> distinct (map (slot_entry \<circ> snd) (lru_iter L c)) \<and>
     slot_refs L c \<subseteq> dom (cells h) \<and>
     (\<forall>a e. cells h a = Some e \<longrightarrow> a \<notin> slot_refs L c \<longrightarrow> retired e)"

abbreviation subjects_inv ::
  "('c \<Rightarrow> bool) \<Rightarrow> ('c, 'k) slot_lru \<Rightarrow> ('c, 'k, 'p) subject_map \<Rightarrow> bool" where
  "subjects_inv valid L m \<equiv> map_inv valid L (sm_entries m) (sm_heap m)"

definition map_evolves ::
  "('c, 'k) slot_lru \<Rightarrow> ('c, 'k, 'p) subject_map \<Rightarrow> ('c, 'k, 'p) subject_map \<Rightarrow> bool" where
  "map_evolves L m m' \<longleftrightarrow>
     heap_evolves (sm_heap m) (sm_heap m') \<and>
     (\<forall>k a. (k, a) \<in> slot_pairs L (sm_entries m') \<longrightarrow> a \<in> dom (cells (sm_heap m)) \<longrightarrow>
        (k, a) \<in> slot_pairs L (sm_entries m)) \<and>
     lru_cap L (sm_entries m') = lru_cap L (sm_entries m) \<and>
     sm_subject_ttl m' = sm_subject_ttl m \<and> sm_activity_epoch m' = sm_activity_epoch m"

lemma heap_evolves_dom: "heap_evolves h h' \<Longrightarrow> dom (cells h) \<subseteq> dom (cells h')"
  unfolding heap_evolves_def by blast

lemma map_evolves_refl [simp]: "map_evolves L m m"
  by (simp add: map_evolves_def)

lemma slot_refs_pairs: "slot_refs L c = snd ` slot_pairs L c"
  by (force simp: slot_refs_def slot_pairs_def image_comp)

lemma map_evolves_refs:
  "map_evolves L m m' \<Longrightarrow>
    slot_refs L (sm_entries m') \<inter> dom (cells (sm_heap m)) \<subseteq> slot_refs L (sm_entries m)"
  unfolding map_evolves_def slot_refs_pairs by force

lemma map_evolves_trans: "map_evolves L m m' \<Longrightarrow> map_evolves L m' m'' \<Longrightarrow> map_evolves L m m''"
  using heap_evolves_dom heap_evolves_trans unfolding map_evolves_def by fastforce

lemma map_evolves_heap:
  "map_evolves L m m' \<Longrightarrow> heap_evolves (sm_heap m) (sm_heap m')"
  by (simp add: map_evolves_def)

lemma map_invD:
  assumes "map_inv valid L c h"
  shows "valid c" "heap_ok h" "distinct (map (slot_entry \<circ> snd) (lru_iter L c))"
    "slot_refs L c \<subseteq> dom (cells h)"
    "cells h a = Some e \<Longrightarrow> a \<notin> slot_refs L c \<Longrightarrow> retired e"
  using assms unfolding map_inv_def by blast+

text \<open>A handle whose entry has lost its slot is stale in every later state of the map.\<close>

lemma retired_forever:
  assumes "subjects_inv valid L m'" "map_evolves L m m'"
    and "a \<in> dom (cells (sm_heap m))" "a \<notin> slot_refs L (sm_entries m)"
  shows "\<exists>e. cells (sm_heap m') a = Some e \<and> retired e"
proof -
  from assms(3,4) map_evolves_refs [OF assms(2)] have "a \<notin> slot_refs L (sm_entries m')"
    by blast
  moreover from assms(2,3) obtain e where "cells (sm_heap m') a = Some e"
    unfolding map_evolves_def heap_evolves_def by blast
  ultimately show ?thesis
    using map_invD(5) [OF assms(1)] by blast
qed

lemma map_inv_pop:
  assumes inv: "map_inv valid L c h" and "valid c'"
    and "distinct (map (slot_entry \<circ> snd) (lru_iter L c'))"
    and refs: "slot_refs L c' = slot_refs L c - {ea}" and ea: "ea \<in> slot_refs L c"
  shows "map_inv valid L c' (heap_invalidate ea h)"
proof -
  have ok: "heap_ok h" using map_invD(2) [OF inv] .
  have "slot_refs L c' \<subseteq> dom (cells (heap_invalidate ea h))"
    using invalidate_action.act_dom [OF ok] map_invD(4) [OF inv] refs by blast
  moreover have "retired e" if "cells (heap_invalidate ea h) a = Some e" "a \<notin> slot_refs L c'" for a e
  proof (cases "a = ea")
    case True
    with map_invD(4) [OF inv] ea obtain f where "cells h ea = Some f" by blast
    from heap_invalidate_retires [OF this] that(1) True show ?thesis by auto
  next
    case False
    with that refs have "cells h a = Some e" "a \<notin> slot_refs L c"
      using invalidate_action.act_frame [of a ea h] by auto
    then show ?thesis using map_invD(5) [OF inv] by blast
  qed
  ultimately show ?thesis
    using assms(2,3) invalidate_action.act_ok [OF ok] unfolding map_inv_def by blast
qed

text \<open>An action on an entry that has a slot keeps the invariant.\<close>

lemma map_inv_action:
  assumes act: "entry_action act" and inv: "map_inv valid L c h" and ea: "ea \<in> slot_refs L c"
  shows "map_inv valid L c (act ea h)"
proof -
  have ok: "heap_ok h" using map_invD(2) [OF inv] .
  have "retired e" if "cells (act ea h) a = Some e" "a \<notin> slot_refs L c" for a e
  proof -
    from that ea have "a \<noteq> ea" by blast
    then have "cells h a = Some e"
      using that(1) entry_action.act_frame [OF act, of a ea h] by simp
    then show ?thesis using that(2) map_invD(5) [OF inv] by blast
  qed
  then show ?thesis
    using inv entry_action.act_ok [OF act ok] entry_action.act_dom [OF act ok, of ea]
    unfolding map_inv_def by auto
qed

text \<open>An observation keeps it for any entry.\<close>

lemma map_inv_observation:
  assumes act: "entry_observation act" and inv: "map_inv valid L c h"
  shows "map_inv valid L c (act ea h)"
proof -
  have ok: "heap_ok h" using map_invD(2) [OF inv] .
  have base: "entry_action act" using act by (simp add: entry_observation_def)
  have "retired e" if e: "cells (act ea h) a = Some e" "a \<notin> slot_refs L c" for a e
  proof -
    from e(1) entry_action.act_dom [OF base ok, of ea] obtain f where f: "cells h a = Some f"
      by blast
    with map_invD(5) [OF inv] e(2) have "retired f" by blast
    from entry_observation.retired_stays [OF act f this, of ea] e(1) show ?thesis by auto
  qed
  then show ?thesis
    using inv entry_action.act_ok [OF base ok] entry_action.act_dom [OF base ok, of ea]
    unfolding map_inv_def by auto
qed

section \<open>Operations keep the invariant\<close>

text \<open>A constructor of entries: one new well-formed entry at a fresh address.\<close>

definition entry_creation :: "(('k, 'p) heap \<Rightarrow> nat \<times> ('k, 'p) heap) \<Rightarrow> bool" where
  "entry_creation create \<longleftrightarrow>
     (\<forall>h ea h'. heap_ok h \<longrightarrow> create h = (ea, h') \<longrightarrow>
        cells h ea = None \<and>
        (\<exists>e. cells h' = (cells h)(ea \<mapsto> e) \<and>
           (\<forall>p. pending e = Some p \<longrightarrow> next_addr h \<le> generation (deref p))) \<and> heap_ok h' \<and>
        next_addr h \<le> next_addr h' \<and> aborted h' = aborted h)"

lemma entry_creationD:
  assumes "entry_creation create" "heap_ok h" "create h = (ea, h')"
  shows "heap_evolves h h'" "ea \<notin> dom (cells h)" "heap_ok h'"
proof -
  from assms obtain e where C: "cells h ea = None" "cells h' = (cells h)(ea \<mapsto> e)" "heap_ok h'"
    "next_addr h \<le> next_addr h'" "aborted h' = aborted h"
    "\<forall>p. pending e = Some p \<longrightarrow> next_addr h \<le> generation (deref p)"
    unfolding entry_creation_def by blast
  then show "heap_evolves h h'" "ea \<notin> dom (cells h)" "heap_ok h'"
    by (auto simp: heap_evolves_def)
qed

lemma slot_refs_Cons:
  "lru_iter L c' = (k, s) # ps \<Longrightarrow> slot_refs L c' = insert (slot_entry s) ((slot_entry \<circ> snd) ` set ps)"
  by (simp add: slot_refs_def)

lemma image_butlast:
  assumes "xs \<noteq> []" "distinct (map f xs)"
  shows "f ` set (butlast xs) = f ` set xs - {f (last xs)}"
proof -
  from assms(1) have xs: "xs = butlast xs @ [last xs]" by simp
  from assms(2) have "f (last xs) \<notin> f ` set (butlast xs)"
    by (subst (asm) xs) (auto simp del: append_butlast_last_id)
  then show ?thesis
    by (subst (2) xs) auto
qed

lemma image_filter_key:
  assumes "distinct (map fst ps)" "distinct (map (slot_entry \<circ> snd) ps)" "map_of ps k = Some s"
  shows "(slot_entry \<circ> snd) ` set [p \<leftarrow> ps. fst p \<noteq> k] = (slot_entry \<circ> snd) ` set ps - {slot_entry s}"
    (is "?l = ?r")
proof -
  have in_ps: "(k, s) \<in> set ps" using assms(3) by (rule map_of_SomeD)
  have inj: "inj_on (slot_entry \<circ> snd) (set ps)" using assms(2) by (simp add: distinct_map)
  have key: "p = (k, s)" if "p \<in> set ps" "fst p = k" for p
    using that assms(1) in_ps by (metis eq_key_imp_eq_value prod.collapse)
  have "set [p \<leftarrow> ps. fst p \<noteq> k] = set ps - {(k, s)}"
    by (auto dest: key)
  then show ?thesis
    using inj_on_image_set_diff [OF inj, of "set ps" "{(k, s)}"] in_ps by simp
qed

lemma slot_pairs_subset:
  assumes "set (lru_iter L c') \<subseteq> insert (k, s') (set (lru_iter L c))"
    and "(k, slot_entry s') \<in> slot_pairs L c"
  shows "slot_pairs L c' \<subseteq> slot_pairs L c"
proof
  fix x
  assume "x \<in> slot_pairs L c'"
  then obtain p where p: "p \<in> set (lru_iter L c')" "x = (\<lambda>(k, s). (k, slot_entry s)) p"
    unfolding slot_pairs_def by blast
  show "x \<in> slot_pairs L c"
  proof (cases "p = (k, s')")
    case False
    with p(1) assms(1) have "p \<in> set (lru_iter L c)" by blast
    with p(2) show ?thesis unfolding slot_pairs_def by blast
  qed (use p(2) assms(2) in simp)
qed

lemma slot_pairs_mono: "set (lru_iter L c') \<subseteq> set (lru_iter L c) \<Longrightarrow> slot_pairs L c' \<subseteq> slot_pairs L c"
  unfolding slot_pairs_def by (rule image_mono)

locale subject_cache = lru_cache L valid
  for L :: "('c, 'k, subject_slot) lru_ops" and valid :: "'c \<Rightarrow> bool"
begin

lemma inv_touch:
  assumes inv: "map_inv valid L c h" and get: "lru_get_mut L k c = Some (s, put)"
    and s': "slot_entry s' = slot_entry s"
  shows "map_inv valid L (put s') h" "slot_refs L (put s') = slot_refs L c"
    "lru_cap L (put s') = lru_cap L c" "map_of (lru_iter L c) k = Some s"
    "lru_iter L (put s') = (k, s') # [p \<leftarrow> lru_iter L c. fst p \<noteq> k]"
    "slot_pairs L (put s') \<subseteq> slot_pairs L c"
proof -
  note V = map_invD [OF inv]
  obtain v where v: "map_of (lru_iter L c) k = Some v"
    using get get_mut_None [OF V(1), of k] by (cases "map_of (lru_iter L c) k") simp_all
  from get_mut_Some [OF V(1) this] get
  show k: "map_of (lru_iter L c) k = Some s"
    and it: "lru_iter L (put s') = (k, s') # [p \<leftarrow> lru_iter L c. fst p \<noteq> k]"
    and "lru_cap L (put s') = lru_cap L c"
    using v by auto
  show "slot_pairs L (put s') \<subseteq> slot_pairs L c"
    by (rule slot_pairs_subset [of _ _ k s'])
      (use map_of_SomeD [OF k] s' it in \<open>force simp: slot_pairs_def\<close>)+
  from get_mut_Some [OF V(1) k] get have val: "valid (put s')" by auto
  note img = image_filter_key [OF keys_distinct [OF V(1)] V(3) k]
  have "slot_entry s \<in> slot_refs L c"
    using map_of_SomeD [OF k] by (force simp: slot_refs_def)
  with img show refs: "slot_refs L (put s') = slot_refs L c"
    unfolding slot_refs_Cons [OF it] s' by (auto simp: slot_refs_def)
  have "distinct (map (slot_entry \<circ> snd) (lru_iter L (put s')))"
    using img V(3) s' unfolding it by (auto simp: distinct_map intro: inj_on_subset)
  with refs val V show "map_inv valid L (put s') h"
    unfolding map_inv_def by auto
qed

lemma inv_pop_lru:
  assumes inv: "map_inv valid L c h" and pop: "lru_pop_lru L c = (Some (k, s), c')"
  shows "map_inv valid L c' (heap_invalidate (slot_entry s) h)"
    "slot_pairs L c' \<subseteq> slot_pairs L c" "lru_cap L c' = lru_cap L c"
    "lru_iter L c' = butlast (lru_iter L c)" "lru_iter L c \<noteq> []" "last (lru_iter L c) = (k, s)"
proof -
  note V = map_invD [OF inv]
  from pop_lru [OF V(1)] pop show it: "lru_iter L c' = butlast (lru_iter L c)"
    and "lru_cap L c' = lru_cap L c" and ne: "lru_iter L c \<noteq> []"
    and last: "last (lru_iter L c) = (k, s)"
    by (auto split: if_splits)
  from pop_lru [OF V(1)] pop have val: "valid c'" by auto
  have refs: "slot_refs L c' = slot_refs L c - {slot_entry s}"
    using image_butlast [OF ne V(3)] last by (simp add: slot_refs_def it)
  show "slot_pairs L c' \<subseteq> slot_pairs L c"
    by (rule slot_pairs_mono) (auto simp: it dest: in_set_butlastD)
  have "slot_entry s \<in> slot_refs L c"
    using last_in_set [OF ne] last by (force simp: slot_refs_def)
  moreover have "distinct (map (slot_entry \<circ> snd) (lru_iter L c'))"
    using V(3) by (simp add: it map_butlast distinct_butlast)
  ultimately show "map_inv valid L c' (heap_invalidate (slot_entry s) h)"
    using map_inv_pop [OF inv val _ refs] by blast
qed

lemma evict_loop_inv:
  "subjects_inv valid L m \<Longrightarrow>
    subjects_inv valid L (evict_loop L n ttl now m) \<and> map_evolves L m (evict_loop L n ttl now m)"
proof (induction n arbitrary: m)
  case 0
  then show ?case by simp
next
  case (Suc n)
  show ?case
  proof (cases "\<exists>k s c'. lru_pop_lru L (sm_entries m) = (Some (k, s), c') \<and> slot_idle ttl now s")
    case True
    then obtain k s c' where pop: "lru_pop_lru L (sm_entries m) = (Some (k, s), c')"
      and idle: "slot_idle ttl now s" by blast
    note P = inv_pop_lru [OF Suc.prems pop]
    let ?m = "retire_slot s (m\<lparr>sm_entries := c'\<rparr>)"
    have m: "subjects_inv valid L ?m" "map_evolves L m ?m"
      using P invalidate_action.act_evolves [OF map_invD(2) [OF Suc.prems]]
      by (auto simp: retire_slot_def map_evolves_def)
    have "evict_loop L (Suc n) ttl now m = evict_loop L n ttl now ?m"
      using P idle pop peek_lru [OF map_invD(1) [OF Suc.prems]] by simp
    with Suc.IH [OF m(1)] m(2) map_evolves_trans show ?thesis by metis
  next
    case False
    then have "evict_loop L (Suc n) ttl now m = m"
      using peek_lru [OF map_invD(1) [OF Suc.prems]] pop_lru [OF map_invD(1) [OF Suc.prems]]
      by (auto split: if_splits prod.splits)
    with Suc.prems show ?thesis by simp
  qed
qed

lemma evict_inv:
  "subjects_inv valid L m \<Longrightarrow> subjects_inv valid L (evict L now m) \<and> map_evolves L m (evict L now m)"
  unfolding evict_def by (rule evict_loop_inv)

lemma evict_loop_done:
  "subjects_inv valid L m \<Longrightarrow> length (lru_iter L (sm_entries m)) \<le> n \<Longrightarrow>
    \<exists>j. lru_iter L (sm_entries (evict_loop L n ttl now m)) = take j (lru_iter L (sm_entries m)) \<and>
      (take j (lru_iter L (sm_entries m)) = [] \<or>
       \<not> slot_idle ttl now (snd (last (take j (lru_iter L (sm_entries m)))))) \<and>
      (\<forall>p \<in> set (drop j (lru_iter L (sm_entries m))). slot_idle ttl now (snd p))"
proof (induction n arbitrary: m)
  case 0
  then show ?case by (auto intro: exI [of _ 0])
next
  case (Suc n)
  let ?ps = "lru_iter L (sm_entries m)"
  show ?case
  proof (cases "\<exists>k s c'. lru_pop_lru L (sm_entries m) = (Some (k, s), c') \<and> slot_idle ttl now s")
    case True
    then obtain k s c' where pop: "lru_pop_lru L (sm_entries m) = (Some (k, s), c')"
      and idle: "slot_idle ttl now s" by blast
    note P = inv_pop_lru [OF Suc.prems(1) pop]
    let ?m = "retire_slot s (m\<lparr>sm_entries := c'\<rparr>)"
    have "subjects_inv valid L ?m" "length (lru_iter L (sm_entries ?m)) \<le> n"
      and it: "lru_iter L (sm_entries ?m) = butlast ?ps"
      using P Suc.prems(2) by (simp_all add: retire_slot_def)
    from Suc.IH [OF this(1,2)] obtain j where
      j: "lru_iter L (sm_entries (evict_loop L n ttl now ?m)) = take j (butlast ?ps)"
      "take j (butlast ?ps) = [] \<or> \<not> slot_idle ttl now (snd (last (take j (butlast ?ps))))"
      "\<forall>p \<in> set (drop j (butlast ?ps)). slot_idle ttl now (snd p)"
      unfolding it by blast
    let ?j = "min j (length ?ps - 1)"
    have take: "take j (butlast ?ps) = take ?j ?ps"
      by (simp add: butlast_conv_take)
    have "set (drop ?j ?ps) \<subseteq> insert (last ?ps) (set (drop j (butlast ?ps)))"
      by (rule set_drop_butlast [OF P(5)])
    moreover have "evict_loop L (Suc n) ttl now m = evict_loop L n ttl now ?m"
      using P idle pop peek_lru [OF map_invD(1) [OF Suc.prems(1)]] by simp
    ultimately show ?thesis
      using j P(6) idle take by (intro exI [of _ ?j]) auto
  next
    case False
    then have "evict_loop L (Suc n) ttl now m = m" "?ps = [] \<or> \<not> slot_idle ttl now (snd (last ?ps))"
      using peek_lru [OF map_invD(1) [OF Suc.prems(1)]] pop_lru [OF map_invD(1) [OF Suc.prems(1)]]
      by (cases "last (lru_iter L (sm_entries m))"; auto split: if_splits prod.splits)+
    then show ?thesis by (intro exI [of _ "length ?ps"]) simp
  qed
qed

lemma evict_done:
  assumes "subjects_inv valid L m"
  shows "\<exists>j. lru_iter L (sm_entries (evict L now m)) = take j (lru_iter L (sm_entries m)) \<and>
      (take j (lru_iter L (sm_entries m)) = [] \<or>
       \<not> slot_idle (ttl_ticks m) now (snd (last (take j (lru_iter L (sm_entries m)))))) \<and>
      (\<forall>p \<in> set (drop j (lru_iter L (sm_entries m))). slot_idle (ttl_ticks m) now (snd p))"
  unfolding evict_def by (rule evict_loop_done [OF assms order_refl])

lemma map_touch_inv:
  assumes inv: "subjects_inv valid L m"
  shows "subjects_inv valid L (snd (map_touch L k ea now m)) \<and>
    map_evolves L m (snd (map_touch L k ea now m))"
proof -
  define m' where "m' =
    (if case lru_peek L k (sm_entries m) of Some s \<Rightarrow> slot_entry s = ea | None \<Rightarrow> False
     then (case lru_get_mut L k (sm_entries m) of
             Some (s, put) \<Rightarrow> m\<lparr>sm_entries := put (slot_touch (map_tick m now) s)\<rparr> | None \<Rightarrow> m)
     else m)"
  have "subjects_inv valid L (m\<lparr>sm_entries := put (slot_touch (map_tick m now) s)\<rparr>) \<and>
      map_evolves L m (m\<lparr>sm_entries := put (slot_touch (map_tick m now) s)\<rparr>)"
    if "lru_get_mut L k (sm_entries m) = Some (s, put)" for s put
    using inv_touch [OF inv that, of "slot_touch (map_tick m now) s"]
    by (auto simp: slot_touch_def map_evolves_def)
  then have "subjects_inv valid L m' \<and> map_evolves L m m'"
    using inv unfolding m'_def by (auto split: option.split)
  moreover have "snd (map_touch L k ea now m) = evict L (map_tick m now) m'"
    by (simp add: map_touch_def m'_def Let_def)
  ultimately show ?thesis
    using evict_inv [of m'] by (auto intro: map_evolves_trans)
qed

lemma inv_insert:
  assumes inv: "map_inv valid L c h" and "entry_creation create" and "create h = (ea, h')"
    and iter: "lru_iter L c' = (k, s) # lru_iter L c" and "valid c'" and s: "slot_entry s = ea"
  shows "map_inv valid L c' h'"
proof -
  note V = map_invD [OF inv]
  from assms(2,3) V(2) obtain e where C: "cells h ea = None" "cells h' = (cells h)(ea \<mapsto> e)" "heap_ok h'"
    unfolding entry_creation_def by blast
  have "ea \<notin> slot_refs L c" using V(4) C(1) by auto
  then have "distinct (map (slot_entry \<circ> snd) (lru_iter L c'))"
    using V(3) s unfolding iter slot_refs_def by auto
  with C V(4,5) assms(5) s show ?thesis
    unfolding map_inv_def slot_refs_Cons [OF iter] by (auto simp: slot_refs_def split: if_splits)
qed

lemma inv_insert_full:
  assumes inv: "map_inv valid L c h" and "entry_creation create" and "create h = (ea, h')"
    and iter: "lru_iter L c' = (k, s) # butlast (lru_iter L c)" and "valid c'"
    and s: "slot_entry s = ea" and ne: "lru_iter L c \<noteq> []" and last: "last (lru_iter L c) = (k', s')"
  shows "map_inv valid L c' (heap_invalidate (slot_entry s') h')"
    "slot_pairs L c' \<subseteq> insert (k, ea) (slot_pairs L c)"
proof -
  note V = map_invD [OF inv]
  from assms(2,3) V(2) obtain e where C: "cells h ea = None" "cells h' = (cells h)(ea \<mapsto> e)" "heap_ok h'"
    unfolding entry_creation_def by blast
  have s': "slot_entry s' \<in> slot_refs L c"
    using last_in_set [OF ne] last by (force simp: slot_refs_def)
  have fresh: "ea \<notin> slot_refs L c" using V(4) C(1) by auto
  have refs: "slot_refs L c' = insert ea (slot_refs L c - {slot_entry s'})"
    unfolding slot_refs_Cons [OF iter] using image_butlast [OF ne V(3)] last s
    by (simp add: slot_refs_def)
  show "slot_pairs L c' \<subseteq> insert (k, ea) (slot_pairs L c)"
    unfolding slot_pairs_def iter using s by (auto dest!: in_set_butlastD intro!: image_eqI)
  have "distinct (map (slot_entry \<circ> snd) (lru_iter L c'))"
    using V(3) fresh s unfolding iter slot_refs_def
    by (auto simp: map_butlast distinct_butlast dest: in_set_butlastD)
  moreover have dom: "dom (cells (heap_invalidate (slot_entry s') h')) = insert ea (dom (cells h))"
    using invalidate_action.act_dom [OF C(3)] C(2) by auto
  moreover have "retired f" if "cells (heap_invalidate (slot_entry s') h') a = Some f"
    "a \<notin> slot_refs L c'" for a f
  proof (cases "a = slot_entry s'")
    case True
    from s' V(4) C(2) fresh obtain g where "cells h' (slot_entry s') = Some g" by fastforce
    from heap_invalidate_retires [OF this] that(1) True show ?thesis by auto
  next
    case False
    with that refs C(2) have "cells h a = Some f" "a \<notin> slot_refs L c"
      using invalidate_action.act_frame [OF False, of h'] by auto
    then show ?thesis using V(5) by blast
  qed
  ultimately show "map_inv valid L c' (heap_invalidate (slot_entry s') h')"
    using assms(5) invalidate_action.act_ok [OF C(3)] refs V(4) unfolding map_inv_def by auto
qed

text \<open>Inserting an absent subject: the new slot, and the least recently used one retired.\<close>

lemma insert_step:
  assumes inv: "subjects_inv valid L m" and create: "entry_creation create"
    and cr: "create (sm_heap m) = (ea, h')" and absent: "map_of (lru_iter L (sm_entries m)) k = None"
    and push: "lru_push L k s (sm_entries m) = (ev, c)" and s: "slot_entry s = ea"
    and m': "m' = (let m1 = m\<lparr>sm_heap := h', sm_entries := c\<rparr>
                   in case ev of Some (_, s) \<Rightarrow> retire_slot s m1 | None \<Rightarrow> m1)"
  shows "subjects_inv valid L m' \<and> map_evolves L m m'"
proof -
  note V = map_invD [OF inv]
  note H = entry_creationD [OF create V(2) cr]
  show ?thesis
  proof (cases "length (lru_iter L (sm_entries m)) < lru_cap L (sm_entries m)")
    case True
    from push_new [OF V(1) absent True, of s] push
    have P: "ev = None" "valid c" "lru_cap L c = lru_cap L (sm_entries m)"
      "lru_iter L c = (k, s) # lru_iter L (sm_entries m)" by auto
    from inv_insert [OF inv create cr P(4,2) s] P H s m' show ?thesis
      by (auto simp: map_evolves_def slot_pairs_def)
  next
    case False
    then have full: "length (lru_iter L (sm_entries m)) = lru_cap L (sm_entries m)"
      using bounded [OF V(1)] by simp
    with cap_pos [OF V(1)] have ne: "lru_iter L (sm_entries m) \<noteq> []" by auto
    obtain k' s' where last: "last (lru_iter L (sm_entries m)) = (k', s')" by fastforce
    from push_full [OF V(1) absent full, of s] push last
    have P: "ev = Some (k', s')" "valid c" "lru_cap L c = lru_cap L (sm_entries m)"
      "lru_iter L c = (k, s) # butlast (lru_iter L (sm_entries m))" by auto
    from inv_insert_full [OF inv create cr P(4,2) s ne last] P H m'
      heap_evolves_trans [OF H(1) invalidate_action.act_evolves [OF H(3)]]
    show ?thesis
      by (auto simp: map_evolves_def retire_slot_def)
  qed
qed

lemma get_or_insert_with_inv:
  assumes inv: "subjects_inv valid L m" and create: "entry_creation create"
  shows "subjects_inv valid L (snd (get_or_insert_with L k now create m)) \<and>
    map_evolves L m (snd (get_or_insert_with L k now create m))"
proof -
  let ?t = "map_tick m now"
  have "\<exists>m'. snd (get_or_insert_with L k now create m) = evict L ?t m' \<and>
    subjects_inv valid L m' \<and> map_evolves L m m'"
  proof (cases "lru_get_mut L k (sm_entries m)")
    case (Some sp)
    then obtain s put where sp: "lru_get_mut L k (sm_entries m) = Some (s, put)" by (cases sp) auto
    show ?thesis
      using inv_touch [OF inv sp, of "slot_touch ?t s"] sp
      by (intro exI [of _ "m\<lparr>sm_entries := put (slot_touch ?t s)\<rparr>"])
        (auto simp: get_or_insert_with_def slot_touch_def map_evolves_def Let_def)
  next
    case None
    let ?m = "evict L ?t m"
    have M: "subjects_inv valid L ?m" "map_evolves L m ?m" using evict_inv [OF inv] by auto
    obtain ea h' where cr: "create (sm_heap ?m) = (ea, h')" by fastforce
    obtain ev c where push: "lru_push L k \<lparr> slot_entry = ea, last_touched = ?t \<rparr> (sm_entries ?m) = (ev, c)"
      by fastforce
    have "map_of (lru_iter L (sm_entries m)) k = None"
      using None get_mut_Some [OF map_invD(1) [OF inv], of k]
      by (cases "map_of (lru_iter L (sm_entries m)) k") auto
    moreover obtain j where "lru_iter L (sm_entries ?m) = take j (lru_iter L (sm_entries m))"
      using evict_loop_done [OF inv order_refl] unfolding evict_def by blast
    ultimately have absent: "map_of (lru_iter L (sm_entries ?m)) k = None"
      by (auto simp: map_of_eq_None_iff dest: in_set_takeD)
    let ?m1 = "let m1 = ?m\<lparr>sm_heap := h', sm_entries := c\<rparr>
      in case ev of Some (_, s) \<Rightarrow> retire_slot s m1 | None \<Rightarrow> m1"
    have "subjects_inv valid L ?m1 \<and> map_evolves L m ?m1"
      using insert_step [OF M(1) create cr absent push _ refl] M(2) map_evolves_trans by auto
    then show ?thesis
      by (intro exI [of _ ?m1]) (simp add: get_or_insert_with_def None cr push Let_def)
  qed
  then obtain m' where "snd (get_or_insert_with L k now create m) = evict L ?t m'"
    "subjects_inv valid L m'" "map_evolves L m m'" by blast
  then show ?thesis
    using evict_inv [of m'] by (auto intro: map_evolves_trans)
qed

lemma peek_ref:
  assumes "map_inv valid L c h" "lru_peek L k c = Some s"
  shows "slot_entry s \<in> slot_refs L c" "map_of (lru_iter L c) k = Some s"
proof -
  from assms show k: "map_of (lru_iter L c) k = Some s"
    using peek [OF map_invD(1) [OF assms(1)], of k] by simp
  then show "slot_entry s \<in> slot_refs L c"
    by (force simp: slot_refs_def dest: map_of_SomeD)
qed

lemma map_update_inv:
  assumes inv: "subjects_inv valid L m" and act: "entry_action f"
  shows "subjects_inv valid L (map_update L k now f m) \<and> map_evolves L m (map_update L k now f m)"
proof -
  let ?m = "evict L (map_tick m now) m"
  have M: "subjects_inv valid L ?m" "map_evolves L m ?m" using evict_inv [OF inv] by auto
  show ?thesis
  proof (cases "lru_peek L k (sm_entries ?m)")
    case None
    with M show ?thesis by (simp add: map_update_def)
  next
    case (Some s)
    note R = peek_ref [OF M(1) Some]
    have "subjects_inv valid L (?m\<lparr>sm_heap := f (slot_entry s) (sm_heap ?m)\<rparr>)"
      using map_inv_action [OF act M(1) R(1)] by simp
    moreover have "map_evolves L ?m (?m\<lparr>sm_heap := f (slot_entry s) (sm_heap ?m)\<rparr>)"
      using entry_action.act_evolves [OF act map_invD(2) [OF M(1)]] by (simp add: map_evolves_def)
    ultimately show ?thesis
      using Some M(2) by (auto simp: map_update_def Let_def intro: map_evolves_trans)
  qed
qed

lemma pop_slot_inv:
  assumes inv: "subjects_inv valid L m"
  shows "subjects_inv valid L (snd (pop_slot L k m)) \<and> map_evolves L m (snd (pop_slot L k m))"
proof -
  note V = map_invD [OF inv]
  from pop [OF V(1), of k] obtain c where P: "lru_pop L k (sm_entries m) =
      (map_of (lru_iter L (sm_entries m)) k, c)" "valid c" "lru_cap L c = lru_cap L (sm_entries m)"
    "lru_iter L c = [p \<leftarrow> lru_iter L (sm_entries m). fst p \<noteq> k]" by blast
  show ?thesis
  proof (cases "map_of (lru_iter L (sm_entries m)) k")
    case None
    then have "lru_iter L c = lru_iter L (sm_entries m)"
      using P(4) filter_neq_absent [OF None] by simp
    with None P V show ?thesis
      by (simp add: pop_slot_def map_evolves_def map_inv_def slot_refs_def slot_pairs_def)
  next
    case (Some s)
    note img = image_filter_key [OF keys_distinct [OF V(1)] V(3) Some]
    have refs: "slot_refs L c = slot_refs L (sm_entries m) - {slot_entry s}"
      using img by (simp add: slot_refs_def P(4))
    have "slot_entry s \<in> slot_refs L (sm_entries m)"
      using map_of_SomeD [OF Some] by (force simp: slot_refs_def)
    moreover have "distinct (map (slot_entry \<circ> snd) (lru_iter L c))"
      using V(3) by (auto simp: P(4) distinct_map intro: inj_on_subset)
    ultimately have "map_inv valid L c (heap_invalidate (slot_entry s) (sm_heap m))"
      using map_inv_pop [OF inv P(2) _ refs] by blast
    moreover have "slot_pairs L c \<subseteq> slot_pairs L (sm_entries m)"
      by (rule slot_pairs_mono) (simp add: P(4))
    ultimately show ?thesis
      using Some P invalidate_action.act_evolves [OF V(2)]
      by (auto simp: pop_slot_def map_evolves_def)
  qed
qed

lemma map_remove_inv:
  "subjects_inv valid L m \<Longrightarrow> subjects_inv valid L (snd (map_remove L k now m)) \<and>
    map_evolves L m (snd (map_remove L k now m))"
  using evict_inv [of m "map_tick m now"] pop_slot_inv [of "evict L (map_tick m now) m" k]
  by (auto simp: map_remove_def intro: map_evolves_trans)

lemma map_remove_if_inv:
  assumes inv: "subjects_inv valid L m" and act: "entry_action (\<lambda>ea h. snd (pred ea h))"
  shows "subjects_inv valid L (snd (map_remove_if L k now pred m)) \<and>
    map_evolves L m (snd (map_remove_if L k now pred m))"
proof -
  let ?m = "evict L (map_tick m now) m"
  have M: "subjects_inv valid L ?m" "map_evolves L m ?m" using evict_inv [OF inv] by auto
  show ?thesis
  proof (cases "lru_peek L k (sm_entries ?m)")
    case None
    with M show ?thesis by (simp add: map_remove_if_def)
  next
    case (Some s)
    let ?m1 = "?m\<lparr>sm_heap := snd (pred (slot_entry s) (sm_heap ?m))\<rparr>"
    have M1: "subjects_inv valid L ?m1"
      using map_inv_action [OF act M(1) peek_ref(1) [OF M(1) Some]] by simp
    moreover have E: "map_evolves L ?m ?m1"
      using entry_action.act_evolves [OF act map_invD(2) [OF M(1)]] by (simp add: map_evolves_def)
    ultimately have "map_evolves L m ?m1" using M(2) map_evolves_trans by blast
    then show ?thesis
      using Some M1 pop_slot_inv [OF M1, of k]
      by (auto simp: map_remove_if_def Let_def split: prod.split intro: map_evolves_trans)
  qed
qed

lemma fold_invalidate:
  assumes "heap_ok h"
  shows "heap_ok (fold heap_invalidate as h) \<and> heap_evolves h (fold heap_invalidate as h) \<and>
    dom (cells (fold heap_invalidate as h)) = dom (cells h) \<and>
    (\<forall>a e. cells (fold heap_invalidate as h) a = Some e \<longrightarrow>
      a \<in> set as \<or> (\<exists>f. cells h a = Some f \<and> retired f) \<longrightarrow> retired e)"
  using assms
proof (induction as arbitrary: h)
  case Nil
  then show ?case by auto
next
  case (Cons b as)
  have ok: "heap_ok (heap_invalidate b h)" by (rule invalidate_action.act_ok [OF Cons.prems])
  note IH = Cons.IH [OF ok]
  have "\<exists>f. cells (heap_invalidate b h) a = Some f \<and> retired f"
    if "cells h a = Some g" "a = b \<or> retired g" for a g
    using that heap_invalidate_retires [of h b] invalidate_action.retired_stays by metis
  moreover have "\<exists>g. cells h a = Some g" if "cells (fold heap_invalidate (b # as) h) a = Some e" for a e
    using that IH invalidate_action.act_dom [OF Cons.prems, of b] by auto
  ultimately show ?case
    using IH invalidate_action.act_dom [OF Cons.prems, of b]
      heap_evolves_trans [OF invalidate_action.act_evolves [OF Cons.prems, of b]]
    by simp metis
qed

lemma map_clear_inv:
  assumes inv: "subjects_inv valid L m"
  shows "subjects_inv valid L (map_clear L m) \<and> map_evolves L m (map_clear L m)"
    and "slot_refs L (sm_entries (map_clear L m)) = {}"
proof -
  note V = map_invD [OF inv]
  let ?as = "map (slot_entry \<circ> snd) (lru_iter L (sm_entries m))"
  have h: "sm_heap (map_clear L m) = fold heap_invalidate ?as (sm_heap m)"
    by (simp add: map_clear_def fold_map comp_def case_prod_beta')
  have c: "valid (sm_entries (map_clear L m))" "lru_iter L (sm_entries (map_clear L m)) = []"
    "lru_cap L (sm_entries (map_clear L m)) = lru_cap L (sm_entries m)"
    using clear [OF V(1)] by (simp_all add: map_clear_def Let_def)
  then show "slot_refs L (sm_entries (map_clear L m)) = {}" by (simp add: slot_refs_def)
  have refs: "set ?as = slot_refs L (sm_entries m)" by (simp add: slot_refs_def)
  note F = fold_invalidate [OF V(2), of ?as]
  have "retired e" if "cells (fold heap_invalidate ?as (sm_heap m)) a = Some e" for a e
  proof (cases "a \<in> set ?as")
    case False
    from that F obtain f where "cells (sm_heap m) a = Some f" by blast
    with False refs V(5) F that show ?thesis by blast
  qed (use F that in blast)
  with F c show "subjects_inv valid L (map_clear L m) \<and> map_evolves L m (map_clear L m)"
    by (simp add: map_inv_def map_evolves_def h slot_refs_def slot_pairs_def)
      (simp add: map_clear_def Let_def)
qed

subsection \<open>Functional behaviour\<close>

lemma evict_keeps_active:
  assumes "subjects_inv valid L m" "(k, s) \<in> set (lru_iter L (sm_entries m))"
    and "\<not> slot_idle (ttl_ticks m) now s"
  shows "(k, s) \<in> set (lru_iter L (sm_entries (evict L now m)))"
proof -
  from evict_done [OF assms(1)] obtain j where
    j: "lru_iter L (sm_entries (evict L now m)) = take j (lru_iter L (sm_entries m))"
    "\<forall>p \<in> set (drop j (lru_iter L (sm_entries m))). slot_idle (ttl_ticks m) now (snd p)" by blast
  then show ?thesis
    using assms(2,3) append_take_drop_id [of j "lru_iter L (sm_entries m)"]
    by (metis Un_iff set_append snd_conv)
qed

text \<open>When the recency order is also the order of last touches, eviction is exact.\<close>

lemma evict_exact:
  assumes inv: "subjects_inv valid L m"
    and recency: "sorted_wrt (\<lambda>p q. last_touched (snd q) \<le> last_touched (snd p)) (lru_iter L (sm_entries m))"
  shows "lru_iter L (sm_entries (evict L now m)) =
    [p \<leftarrow> lru_iter L (sm_entries m). \<not> slot_idle (ttl_ticks m) now (snd p)]"
proof -
  let ?ps = "lru_iter L (sm_entries m)" and ?idle = "\<lambda>p. slot_idle (ttl_ticks m) now (snd p)"
  from evict_done [OF inv] obtain j where
    j: "lru_iter L (sm_entries (evict L now m)) = take j ?ps"
    "take j ?ps = [] \<or> \<not> ?idle (last (take j ?ps))" "\<forall>p \<in> set (drop j ?ps). ?idle p" by blast
  have "\<not> ?idle p" if p: "p \<in> set (take j ?ps)" for p
  proof -
    let ?xs = "take j ?ps"
    have ne: "?xs \<noteq> []" using p by (metis empty_iff empty_set)
    have "last_touched (snd (last ?xs)) \<le> last_touched (snd p)"
      using sorted_wrt_last [OF sorted_wrt_take [OF recency] _ p] by simp
    then show ?thesis
      using j(2) ne by (auto simp: slot_idle_def word_less_nat_alt word_le_nat_alt unat_saturating_sub)
  qed
  then have "[p \<leftarrow> take j ?ps. \<not> ?idle p] = take j ?ps" "[p \<leftarrow> drop j ?ps. \<not> ?idle p] = []"
    using j(3) by (simp_all add: filter_empty_conv)
  then show ?thesis
    using j(1) filter_append [of "\<lambda>p. \<not> ?idle p" "take j ?ps" "drop j ?ps"] by simp
qed

lemma ttl_ticks_evolves: "map_evolves L m m' \<Longrightarrow> ttl_ticks m' = ttl_ticks m"
  by (simp add: map_evolves_def ttl_ticks_def)

lemma touched_not_idle: "tick \<le> last_touched s \<Longrightarrow> \<not> slot_idle ttl tick s"
proof -
  assume "tick \<le> last_touched s"
  then have "unat (u64_saturating_sub tick (last_touched s)) = 0"
    by (simp add: unat_saturating_sub word_le_nat_alt)
  then show ?thesis
    by (simp add: slot_idle_def unat_eq_0)
qed

lemma evict_lookup_front:
  assumes inv: "subjects_inv valid L m" and front: "lru_iter L (sm_entries m) = (k, s) # ps"
    and t: "tick \<le> last_touched s"
  shows "lru_peek L k (sm_entries (evict L tick m)) = Some s"
proof -
  have "(k, s) \<in> set (lru_iter L (sm_entries (evict L tick m)))"
    by (rule evict_keeps_active [OF inv]) (simp_all add: front touched_not_idle [OF t])
  moreover have v: "valid (sm_entries (evict L tick m))"
    using evict_inv [OF inv] by (simp add: map_inv_def)
  ultimately show ?thesis
    using peek [OF v, of k] keys_distinct [OF v] by simp
qed

lemma get_or_insert_with_lookup:
  assumes inv: "subjects_inv valid L m" and create: "entry_creation create"
    and res: "get_or_insert_with L k now create m = ((ea, inserted), m')"
  shows "\<exists>s. lru_peek L k (sm_entries m') = Some s \<and> slot_entry s = ea \<and> map_tick m now \<le> last_touched s"
    and "inserted \<longleftrightarrow> lru_peek L k (sm_entries m) = None"
    and "\<not> inserted \<Longrightarrow> map_option slot_entry (lru_peek L k (sm_entries m)) = Some ea"
proof -
  let ?t = "map_tick m now"
  have "(\<exists>s. lru_peek L k (sm_entries m') = Some s \<and> slot_entry s = ea \<and> ?t \<le> last_touched s) \<and>
    (inserted \<longleftrightarrow> lru_peek L k (sm_entries m) = None) \<and>
    (\<not> inserted \<longrightarrow> map_option slot_entry (lru_peek L k (sm_entries m)) = Some ea)"
  proof (cases "lru_get_mut L k (sm_entries m)")
    case (Some sp)
    then obtain s put where sp: "lru_get_mut L k (sm_entries m) = Some (s, put)" by (cases sp) auto
    let ?m = "m\<lparr>sm_entries := put (slot_touch ?t s)\<rparr>"
    note T = inv_touch [OF inv sp, of "slot_touch ?t s"]
    have "lru_peek L k (sm_entries (evict L ?t ?m)) = Some (slot_touch ?t s)"
      by (rule evict_lookup_front) (use T in \<open>auto simp: slot_touch_def\<close>)
    moreover have "lru_peek L k (sm_entries m) = Some s"
      using T(4) peek [OF map_invD(1) [OF inv]] by (simp add: slot_touch_def)
    ultimately show ?thesis
      using res sp by (auto simp: get_or_insert_with_def Let_def slot_touch_def)
  next
    case None
    let ?m = "evict L ?t m"
    have M: "subjects_inv valid L ?m" using evict_inv [OF inv] by auto
    obtain a h' where cr: "create (sm_heap ?m) = (a, h')" by fastforce
    let ?s = "\<lparr> slot_entry = a, last_touched = ?t \<rparr>"
    obtain ev c where push: "lru_push L k ?s (sm_entries ?m) = (ev, c)" by fastforce
    have none: "map_of (lru_iter L (sm_entries m)) k = None"
      using None get_mut_Some [OF map_invD(1) [OF inv], of k]
      by (cases "map_of (lru_iter L (sm_entries m)) k") auto
    moreover obtain j where "lru_iter L (sm_entries ?m) = take j (lru_iter L (sm_entries m))"
      using evict_done [OF inv] by blast
    ultimately have absent: "map_of (lru_iter L (sm_entries ?m)) k = None"
      by (auto simp: map_of_eq_None_iff dest: in_set_takeD)
    let ?m1 = "let m1 = ?m\<lparr>sm_heap := h', sm_entries := c\<rparr>
      in case ev of Some (_, s) \<Rightarrow> retire_slot s m1 | None \<Rightarrow> m1"
    have inv1: "subjects_inv valid L ?m1"
      using insert_step [OF M create cr absent push _ refl] by simp
    have front: "\<exists>ps. lru_iter L c = (k, ?s) # ps"
      using push_new [OF map_invD(1) [OF M] absent, of ?s] push_full [OF map_invD(1) [OF M] absent, of ?s]
        bounded [OF map_invD(1) [OF M]] push by (cases "length (lru_iter L (sm_entries ?m)) <
          lru_cap L (sm_entries ?m)") auto
    have ents: "sm_entries ?m1 = c"
      by (simp add: Let_def retire_slot_def split: option.split)
    from front obtain ps where "lru_iter L (sm_entries ?m1) = (k, ?s) # ps"
      unfolding ents by blast
    from evict_lookup_front [OF inv1 this, of ?t]
    have "lru_peek L k (sm_entries (evict L ?t ?m1)) = Some ?s" by simp
    moreover have "lru_peek L k (sm_entries m) = None"
      using none peek [OF map_invD(1) [OF inv]] by simp
    moreover have "get_or_insert_with L k now create m = ((a, True), evict L ?t ?m1)"
      by (simp add: get_or_insert_with_def None cr push Let_def)
    ultimately show ?thesis
      using res by auto
  qed
  then show "\<exists>s. lru_peek L k (sm_entries m') = Some s \<and> slot_entry s = ea \<and> ?t \<le> last_touched s"
    "inserted \<longleftrightarrow> lru_peek L k (sm_entries m) = None"
    "\<not> inserted \<Longrightarrow> map_option slot_entry (lru_peek L k (sm_entries m)) = Some ea"
    by blast+
qed

end

interpretation list_cache: subject_cache lru_list lru_list_valid
  by unfold_locales

end
