(* ===== verification/Gate.thy ===== *)
theory Gate
  imports Subjects "HOL-Library.Monad_Syntax"
begin

text \<open>
  The gate's shared state and its synchronous operations (\<open>GateState\<close> in
  \<open>src/src/gate.rs\<close>): creating entries and lookups, preparing decision snapshots,
  applying watch changes and lookup results, the read snapshot and its rate-limited
  rebuild, the connect and disconnect transitions, and the refresh claim made on access.

  An operation reads the clock several times; it takes a function \<open>clk\<close> from the number
  of the reading, in program order, to the instant read. An operation that can panic
  (adding the republish interval to an instant overflows) returns an option, and \<open>None\<close>
  is the panic.
\<close>

section \<open>State\<close>

text \<open>The calls made on the caller's \<open>PolicyGateMetrics\<close>, most recent first.\<close>

datatype metric =
    Denial | UnavailableRejection | SnapshotMiss | MapHit | StreamCutoff | SnapshotRepublish
  | UnaryCall | UnaryFailure | AdmissionRetry | AdmissionTimeout | SetWatchConnected bool
  | WatchDisconnect | WatchOpenFailure | WatchEvent | WireFailure | MissingSubjectRejection

type_synonym clock = "nat \<Rightarrow> instant"

record ('c, 'k, 'p) gate =
  subjects :: "('c, 'k, 'p) subject_map"
  config :: policy_gate_config
  connected :: bool
  disconnected_since :: "instant option"
  snapshot :: "'k \<rightharpoonup> nat"
  publish_generation :: nat
  next_allowed :: instant
  refresh_queue :: "('k, 'p) pending_fetch arc list"
  metrics :: "metric list"

abbreviation gate_heap :: "('c, 'k, 'p) gate \<Rightarrow> ('k, 'p) heap" where
  "gate_heap g \<equiv> sm_heap (subjects g)"

definition set_heap :: "('k, 'p) heap \<Rightarrow> ('c, 'k, 'p) gate \<Rightarrow> ('c, 'k, 'p) gate" where
  "set_heap h g = g\<lparr>subjects := (subjects g)\<lparr>sm_heap := h\<rparr>\<rparr>"

definition mark_dirty :: "('c, 'k, 'p) gate \<Rightarrow> ('c, 'k, 'p) gate" where
  "mark_dirty g = g\<lparr>subjects := (subjects g)\<lparr>sm_shape_dirty := True\<rparr>\<rparr>"

definition log :: "metric \<Rightarrow> ('c, 'k, 'p) gate \<Rightarrow> ('c, 'k, 'p) gate" where
  "log x g = g\<lparr>metrics := x # metrics g\<rparr>"

definition gate_new ::
  "('c, 'k) slot_lru \<Rightarrow> policy_gate_config \<Rightarrow> instant \<Rightarrow> ('c, 'k, 'p) gate option" where
  "gate_new L cfg now =
     do {
       m \<leftarrow> subject_map_new L (max_subjects cfg) (subject_ttl cfg) False now;
       Some \<lparr> subjects = m, config = cfg, connected = False, disconnected_since = Some now,
              snapshot = Map.empty, publish_generation = 0, next_allowed = now,
              refresh_queue = [], metrics = [] \<rparr>
     }"

section \<open>Lookups and entries\<close>

text \<open>
  \<open>GateState::new_fetch_after\<close> allocates the generation and the \<open>PendingFetch\<close>; its future
  runs later, see \<open>run_fetch\<close>.
\<close>

definition new_fetch_after ::
  "nat \<Rightarrow> 'k \<Rightarrow> duration option \<Rightarrow> 'p snapshot_arc option \<Rightarrow> ('k, 'p) heap
    \<Rightarrow> ('k, 'p) pending_fetch arc \<times> ('k, 'p) heap" where
  "new_fetch_after ea k delay refresh_from h =
     (let g = next_addr h in
      (Arc (Suc g) \<lparr> generation = g, fetch_entry = ea, fetch_subject = k, fetch_delay = delay,
                     fetch_refresh_from = refresh_from \<rparr>,
       h\<lparr>next_addr := Suc (Suc g)\<rparr>))"

text \<open>The closure of \<open>admit\<close> that builds a pending entry with its first lookup.\<close>

definition create_entry ::
  "policy_gate_config \<Rightarrow> 'k \<Rightarrow> instant \<Rightarrow> ('k, 'p) heap \<Rightarrow> nat \<times> ('k, 'p) heap" where
  "create_entry cfg k now h =
     (let ea = next_addr h;
          (fetch, h) = new_fetch_after ea k None None (h\<lparr>next_addr := Suc ea\<rparr>);
          e = entry_pending (next_addr h) now fetch (refresh_before_expiry cfg)
      in (ea, h\<lparr>cells := (cells h)(ea \<mapsto> e), next_addr := Suc (next_addr h)\<rparr>))"

definition decision_snapshot ::
  "policy_gate_config \<Rightarrow> instant \<Rightarrow> ('k, 'p) entry \<Rightarrow> 'p decision_result \<Rightarrow> 'p entry_snapshot" where
  "decision_snapshot cfg now e r =
     (let configured = deadline_after e now (decision_freshness_ttl cfg);
          deadline = (case valid_until r of
                        None \<Rightarrow> configured
                      | Some cap \<Rightarrow> min configured (entry_tick e cap));
          remaining = u64_saturating_sub deadline (entry_tick e now);
          refresh_after = (if remaining \<le> refresh_before e
                           then entry_tick e now + u64_div_ceil remaining 2 else 0)
      in \<lparr> snap_word = entry_word (entry_state_of (decision r)) deadline,
           snap_payload = (if decision r = DAllowed then payload r else None),
           snap_refresh_after = refresh_after \<rparr>)"

section \<open>Publishing the read snapshot\<close>

text \<open>
  \<open>republish_if_due\<close> in its four atomic parts: the claim under the publish lock, clearing
  the dirty flag, copying the map under the map lock, and the store under the publish lock.
\<close>

definition republish_claim ::
  "instant \<Rightarrow> ('c, 'k, 'p) gate \<Rightarrow> (nat option \<times> ('c, 'k, 'p) gate) option" where
  "republish_claim now g =
     (if now < next_allowed g then Some (None, g)
      else do {
        t \<leftarrow> instant_checked_add now (snapshot_republish_interval (config g));
        Some (Some (publish_generation g), g\<lparr>next_allowed := t\<rparr>)
      })"

definition republish_clear_dirty :: "('c, 'k, 'p) gate \<Rightarrow> ('c, 'k, 'p) gate" where
  "republish_clear_dirty g = g\<lparr>subjects := (subjects g)\<lparr>sm_shape_dirty := False\<rparr>\<rparr>"

definition republish_store ::
  "nat \<Rightarrow> ('k \<rightharpoonup> nat) \<Rightarrow> ('c, 'k, 'p) gate \<Rightarrow> ('c, 'k, 'p) gate" where
  "republish_store gen entries g =
     (if publish_generation g = gen \<and> connected g
      then log SnapshotRepublish (g\<lparr>snapshot := entries\<rparr>) else g)"

definition republish_if_due ::
  "('c, 'k) slot_lru \<Rightarrow> instant \<Rightarrow> ('c, 'k, 'p) gate \<Rightarrow> ('c, 'k, 'p) gate option" where
  "republish_if_due L now g =
     (if \<not> sm_shape_dirty (subjects g) then Some g
      else do {
        (claim, g) \<leftarrow> republish_claim now g;
        (case claim of
           None \<Rightarrow> Some g
         | Some gen \<Rightarrow>
           (let g = republish_clear_dirty g;
                entries = map_collect L (subjects g)
            in Some (republish_store gen entries g)))
      })"

definition publish_empty ::
  "(('c, 'k, 'p) gate \<Rightarrow> ('c, 'k, 'p) gate) \<Rightarrow> ('c, 'k, 'p) gate \<Rightarrow> ('c, 'k, 'p) gate" where
  "publish_empty after_publish g =
     after_publish (g\<lparr>publish_generation := publish_generation g + 1, snapshot := Map.empty\<rparr>)"

definition clear_subjects :: "('c, 'k) slot_lru \<Rightarrow> ('c, 'k, 'p) gate \<Rightarrow> ('c, 'k, 'p) gate" where
  "clear_subjects L g = g\<lparr>subjects := map_clear L (subjects g)\<rparr>"

definition mark_disconnected :: "instant \<Rightarrow> ('c, 'k, 'p) gate \<Rightarrow> ('c, 'k, 'p) gate" where
  "mark_disconnected now g =
     (case disconnected_since g of None \<Rightarrow> g\<lparr>disconnected_since := Some now\<rparr> | Some _ \<Rightarrow> g)"

definition watch_connected :: "('c, 'k) slot_lru \<Rightarrow> ('c, 'k, 'p) gate \<Rightarrow> ('c, 'k, 'p) gate" where
  "watch_connected L g =
     (let g = publish_empty (\<lambda>g. g) g;
          g = clear_subjects L g;
          g = g\<lparr>connected := True\<rparr>
      in log (SetWatchConnected True) g)"

definition watch_stable :: "('c, 'k, 'p) gate \<Rightarrow> ('c, 'k, 'p) gate" where
  "watch_stable g = g\<lparr>disconnected_since := None\<rparr>"

definition watch_disconnected ::
  "('c, 'k) slot_lru \<Rightarrow> instant \<Rightarrow> ('c, 'k, 'p) gate \<Rightarrow> ('c, 'k, 'p) gate" where
  "watch_disconnected L now g =
     (let g = publish_empty
                (\<lambda>g. mark_disconnected now (log (SetWatchConnected False) (g\<lparr>connected := False\<rparr>))) g
      in clear_subjects L g)"

section \<open>Watch changes\<close>

text \<open>
  The update closure of \<open>apply_change\<close>: read the state, exchange it for the decision, and
  retry when another thread changed the state in between. One list of interferences per
  attempt; \<open>mk i\<close> is the snapshot prepared for attempt \<open>i\<close>.
\<close>

fun publish_change ::
  "'p entry_snapshot interference list list \<Rightarrow> (nat \<Rightarrow> 'p snapshot_arc) \<Rightarrow> ('k, 'p) entry
    \<Rightarrow> nat option \<times> ('k, 'p) entry" where
  "publish_change [] mk e =
     (case compare_exchange [] (current_state e) (mk 0) e of
        (Inr _, e) \<Rightarrow> abort_pending e
      | (Inl _, e) \<Rightarrow> (None, e))"
| "publish_change (env # envs) mk e =
     (case compare_exchange env (current_state e) (mk (Suc (length envs))) e of
        (Inr _, e) \<Rightarrow> abort_pending e
      | (Inl _, e) \<Rightarrow> publish_change envs mk e)"

definition change_entry ::
  "policy_gate_config \<Rightarrow> instant \<Rightarrow> decision \<Rightarrow> nat \<Rightarrow> ('k, 'p) heap \<Rightarrow> ('k, 'p) heap" where
  "change_entry cfg now d ea h =
     (let (g, h) = with_entry ea (\<lambda>a e.
            publish_change []
              (\<lambda>_. Arc a (decision_snapshot cfg now e
                 \<lparr> decision = d, payload = None, valid_until = None \<rparr>)) e) None h
      in record_abort g h)"

definition apply_change ::
  "('c, 'k) slot_lru \<Rightarrow> clock \<Rightarrow> 'k decision_change \<Rightarrow> ('c, 'k, 'p) gate \<Rightarrow> ('c, 'k, 'p) gate option" where
  "apply_change L clk change g =
     (case change_decision change of
        Some d \<Rightarrow>
          republish_if_due L (clk 2)
            (g\<lparr>subjects := map_update L (change_subject change) (clk 0)
                 (change_entry (config g) (clk 1) d) (subjects g)\<rparr>)
      | None \<Rightarrow>
          (let (removed, m) = map_remove L (change_subject change) (clk 0) (subjects g);
               g = g\<lparr>subjects := m\<rparr>;
               g = (if removed then mark_dirty g else g)
           in republish_if_due L (clk 1) g))"

section \<open>Lookup results\<close>

definition transient :: "string \<Rightarrow> source_error" where
  "transient msg = \<lparr> kind = Transient, message = msg \<rparr>"

text \<open>How the call to the decision source ended: it timed out, panicked, or returned.\<close>

datatype 'p lookup_outcome =
    LookupTimedOut
  | LookupPanicked
  | LookupReturned "source_error + 'p decision_result option"

text \<open>The inner async block of \<open>new_fetch_after\<close>, which normalises the outcome.\<close>

definition lookup_result ::
  "instant \<Rightarrow> 'p lookup_outcome \<Rightarrow> source_error + 'p decision_result" where
  "lookup_result now outcome =
     (case outcome of
        LookupTimedOut \<Rightarrow> Inl (transient ''subject state lookup timed out'')
      | LookupPanicked \<Rightarrow> Inl (transient ''decision source panicked'')
      | LookupReturned (Inl err) \<Rightarrow> Inl err
      | LookupReturned (Inr None) \<Rightarrow>
          Inl (transient ''decision source holds no decision for the subject'')
      | LookupReturned (Inr (Some r)) \<Rightarrow>
          (case valid_until r of
             Some deadline \<Rightarrow>
               if deadline \<le> now
               then Inl (transient ''decision source returned an expired decision'') else Inr r
           | None \<Rightarrow> Inr r))"

text \<open>
  The predicate \<open>apply_fetch_result\<close> passes to \<open>remove_if\<close>: still this entry and this
  generation, and the exchange of \<open>Pending\<close> for \<open>Stale\<close> succeeds.
\<close>

definition fail_pending ::
  "nat \<Rightarrow> nat \<Rightarrow> nat \<Rightarrow> ('k, 'p) heap \<Rightarrow> bool \<times> ('k, 'p) heap" where
  "fail_pending ea gen cur h =
     with_entry cur (\<lambda>a e.
       if cur \<noteq> ea \<or> pending_generation e gen = None then (False, e)
       else case compare_exchange [] EPending
              (Arc a \<lparr> snap_word = entry_word EStale NO_EXPIRY, snap_payload = None,
                       snap_refresh_after = 0 \<rparr>) e of
           (Inr _, e) \<Rightarrow> (True, e)
         | (Inl _, e) \<Rightarrow> (False, e)) False h"

text \<open>The refresh branch: publish over the snapshot the refresh started from, or back off.\<close>

definition apply_refresh ::
  "policy_gate_config \<Rightarrow> instant \<Rightarrow> instant \<Rightarrow> nat \<Rightarrow> 'p snapshot_arc \<Rightarrow> source_error + 'p snapshot_arc
    \<Rightarrow> ('k, 'p) entry \<Rightarrow> ('k, 'p) entry" where
  "apply_refresh cfg now t2 gen cur result e =
     (let e = (case result of
                 Inr snap \<Rightarrow>
                   if \<not> is_expired_at e (snap_word (deref cur)) now
                   then e\<lparr>current := snd (compare_and_swap (current e) cur snap)\<rparr> else e
               | Inl _ \<Rightarrow>
                   (let cooldown = (case u64_try_from (permanent_failure_cooldown cfg) of
                                      Some n \<Rightarrow> n | None \<Rightarrow> U64_MAX)
                    in e\<lparr>refresh_not_before := u64_saturating_add (entry_tick e t2) cooldown\<rparr>))
      in snd (replace_pending gen None e))"

text \<open>The first-lookup branch on success: a watch event that wins the exchange stands.\<close>

definition apply_verdict :: "nat \<Rightarrow> 'p snapshot_arc \<Rightarrow> ('k, 'p) entry \<Rightarrow> ('k, 'p) entry" where
  "apply_verdict gen snap e =
     (case compare_exchange [] EPending snap e of
        (Inr _, e) \<Rightarrow> snd (replace_pending gen None e)
      | (Inl _, e) \<Rightarrow> e)"

text \<open>The permanent-failure branch: a delayed retry takes the place of the lookup.\<close>

definition apply_permanent_failure ::
  "policy_gate_config \<Rightarrow> instant \<Rightarrow> 'k \<Rightarrow> nat \<Rightarrow> nat \<Rightarrow> ('k, 'p) heap \<Rightarrow> ('k, 'p) heap" where
  "apply_permanent_failure cfg t2 k ea gen h =
     (let (st, h) = with_entry ea (\<lambda>a. state_at a t2) EStale h in
      if st = EPending
      then (let (retry, h) =
                  new_fetch_after ea k (Some (permanent_failure_cooldown cfg)) None h
            in snd (with_entry ea (\<lambda>a. replace_pending gen (Some retry)) False h))
      else h)"

text \<open>Preparing the result for publication; the prepared deadline is what is validated.\<close>

definition prepare_result ::
  "policy_gate_config \<Rightarrow> clock \<Rightarrow> ('k, 'p) entry \<Rightarrow> source_error + 'p decision_result
    \<Rightarrow> source_error + 'p entry_snapshot" where
  "prepare_result cfg clk e result =
     (case result of
        Inl err \<Rightarrow> Inl err
      | Inr r \<Rightarrow>
        (let snap = decision_snapshot cfg (clk 0) e r in
         if is_expired_at e (snap_word snap) (clk 1)
         then Inl (transient ''decision expired before publication'')
         else Inr snap))"

text \<open>
  \<open>GateState::apply_fetch_result\<close> for the entry at \<open>ea\<close>. Clock readings: the prepared
  snapshot, its validation, the failure handling, the republish.
\<close>

definition apply_fetch_result ::
  "('c, 'k) slot_lru \<Rightarrow> clock \<Rightarrow> 'k \<Rightarrow> nat \<Rightarrow> nat \<Rightarrow> 'p snapshot_arc option
    \<Rightarrow> source_error + 'p decision_result \<Rightarrow> ('c, 'k, 'p) gate
    \<Rightarrow> ((source_error + unit) \<times> ('c, 'k, 'p) gate) option" where
  "apply_fetch_result L clk k ea gen refresh_from result g =
     (case cells (gate_heap g) ea of
        None \<Rightarrow> Some (map_sum id (\<lambda>_. ()) result, g)
      | Some e \<Rightarrow>
        if pending_generation e gen = None then Some (map_sum id (\<lambda>_. ()) result, g)
        else
          (let result = prepare_result (config g) clk e result;
               answer = map_sum id (\<lambda>_. ()) result
           in case refresh_from of
                Some cur \<Rightarrow>
                  Some (answer, set_heap (snd (with_entry ea (\<lambda>a e.
                    ((), apply_refresh (config g) (clk 1) (clk 2) gen cur (map_sum id (Arc a) result) e))
                    () (gate_heap g))) g)
              | None \<Rightarrow>
                (case result of
                   Inr snap \<Rightarrow>
                     Some (answer, set_heap (snd (with_entry ea (\<lambda>a e.
                       ((), apply_verdict gen (Arc a snap) e)) () (gate_heap g))) g)
                 | Inl err \<Rightarrow>
                   if is_permanent_status err
                   then Some (answer, set_heap
                          (apply_permanent_failure (config g) (clk 2) k ea gen (gate_heap g)) g)
                   else
                     (let (removed, m) = map_remove_if L k (clk 2) (fail_pending ea gen) (subjects g);
                          g = g\<lparr>subjects := m\<rparr>;
                          g = (if removed then mark_dirty g else g)
                      in do { g \<leftarrow> republish_if_due L (clk 3) g; Some (answer, g) }))))"

text \<open>
  A lookup future run to completion: what its \<open>Shared\<close> future yields. \<open>None\<close> inside is
  \<open>Aborted\<close>: the abort handle fired first. The cooldown sleep and the call precede
  \<open>outcome\<close>; the gate and the entry are still referenced.
\<close>

definition run_fetch ::
  "('c, 'k) slot_lru \<Rightarrow> clock \<Rightarrow> ('k, 'p) pending_fetch arc \<Rightarrow> 'p lookup_outcome
    \<Rightarrow> ('c, 'k, 'p) gate \<Rightarrow> ((source_error + unit) option \<times> ('c, 'k, 'p) gate) option" where
  "run_fetch L clk fetch outcome g =
     (let f = deref fetch in
      if generation f \<in> set (aborted (gate_heap g)) then Some (None, g)
      else do {
        (result, g) \<leftarrow> apply_fetch_result L (\<lambda>i. clk (Suc i)) (fetch_subject f) (fetch_entry f)
             (generation f) (fetch_refresh_from f) (lookup_result (clk 0) outcome) (log UnaryCall g);
        (case result of
           Inr _ \<Rightarrow> Some (Some result, g)
         | Inl err \<Rightarrow>
           (let g = (if kind err = Wire then log WireFailure g else g)
            in Some (Some result, log UnaryFailure g)))
      })"

section \<open>Reads\<close>

text \<open>
  \<open>admission_on_access\<close> in its atomic parts. The claim: give out a handle and, inside the
  refresh window, take the entry's pending slot for a refresh. The result is either the
  answer or the claimed refresh, the snapshot it starts from and the queue deadline.
\<close>

definition queue_deadline ::
  "policy_gate_config \<Rightarrow> instant \<Rightarrow> instant option \<Rightarrow> instant option" where
  "queue_deadline cfg access_time admission_deadline =
     (case instant_checked_add access_time (refresh_enqueue_timeout cfg) of
        Some d \<Rightarrow> Some (case admission_deadline of Some outer \<Rightarrow> min d outer | None \<Rightarrow> d)
      | None \<Rightarrow> admission_deadline)"

definition access_claim ::
  "policy_gate_config \<Rightarrow> clock \<Rightarrow> 'k \<Rightarrow> nat \<Rightarrow> instant option \<Rightarrow> ('k, 'p) heap
    \<Rightarrow> (bool + (('k, 'p) pending_fetch arc \<times> 'p snapshot_arc \<times> instant)) \<times> ('k, 'p) heap" where
  "access_claim cfg clk k ea admission_deadline h =
     (let (admitted, h) = with_entry ea (\<lambda>a. admission a (clk 0)) False h in
      if \<not> admitted then (Inl False, h)
      else if refresh_before_expiry cfg = 0 then (Inl True, h)
      else case cells h ea of
          None \<Rightarrow> (Inl True, h)
        | Some e \<Rightarrow>
          (let cur = current e in
           if \<not> refresh_due_at e (deref cur) (clk 1) then (Inl True, h)
           else case queue_deadline cfg (clk 1) admission_deadline of
               None \<Rightarrow> (Inl True, h)
             | Some qd \<Rightarrow>
               (let (refresh, h) = new_fetch_after ea k None (Some cur) h in
                if pending e \<noteq> None then (Inl True, h)
                else (Inr (refresh, cur, qd),
                      h\<lparr>cells := (cells h)(ea \<mapsto> e\<lparr>pending := Some refresh\<rparr>)\<rparr>))))"

text \<open>\<open>PendingEnqueueGuard::drop\<close> without \<open>mark_queued\<close>: release the claim.\<close>

definition release_claim :: "nat \<Rightarrow> nat \<Rightarrow> ('k, 'p) heap \<Rightarrow> ('k, 'p) heap" where
  "release_claim gen ea h = snd (with_entry ea (\<lambda>a. replace_pending gen None) False h)"

text \<open>Revalidation of the claim: \<open>Some\<close> of the answer when it no longer holds.\<close>

definition access_revalidate ::
  "clock \<Rightarrow> nat \<Rightarrow> ('k, 'p) pending_fetch arc \<Rightarrow> 'p snapshot_arc \<Rightarrow> ('k, 'p) heap
    \<Rightarrow> bool option \<times> ('k, 'p) heap" where
  "access_revalidate clk ea refresh cur h =
     (case cells h ea of
        None \<Rightarrow> (Some False, h)
      | Some e \<Rightarrow>
        if \<not> ptr_eq (current e) cur \<or> \<not> refresh_eligible_at e (deref cur) (clk 0)
        then (let (admitted, h) = with_entry ea (\<lambda>a. admission a (clk 1)) False h
              in (Some admitted, release_claim (generation (deref refresh)) ea h))
        else (None, h))"

text \<open>
  After the timed \<open>send\<close>: \<open>sent\<close> says whether the send completed before the queue deadline,
  which needs room in the bounded queue.
\<close>

definition access_finish ::
  "clock \<Rightarrow> nat \<Rightarrow> ('k, 'p) pending_fetch arc \<Rightarrow> bool \<Rightarrow> ('c, 'k, 'p) gate
    \<Rightarrow> bool \<times> ('c, 'k, 'p) gate" where
  "access_finish clk ea refresh sent g =
     (let queued = (sent \<and> length (refresh_queue g) < refresh_queue_capacity (config g));
          g = (if queued then g\<lparr>refresh_queue := refresh_queue g @ [refresh]\<rparr> else g);
          (admitted, h) = with_entry ea (\<lambda>a. admission a (clk 0)) False (gate_heap g);
          h = (if queued then h else release_claim (generation (deref refresh)) ea h)
      in (admitted, set_heap h g))"

definition admission_on_access ::
  "clock \<Rightarrow> 'k \<Rightarrow> nat \<Rightarrow> instant option \<Rightarrow> bool \<Rightarrow> ('c, 'k, 'p) gate
    \<Rightarrow> bool \<times> ('c, 'k, 'p) gate" where
  "admission_on_access clk k ea admission_deadline sent g =
     (let (claim, h) = access_claim (config g) clk k ea admission_deadline (gate_heap g) in
      case claim of
        Inl admitted \<Rightarrow> (admitted, set_heap h g)
      | Inr (refresh, cur, qd) \<Rightarrow>
        (let (answer, h) = access_revalidate (\<lambda>i. clk (i + 2)) ea refresh cur h;
             g = set_heap h g
         in case answer of
              Some admitted \<Rightarrow> (admitted, g)
            | None \<Rightarrow> access_finish (\<lambda>i. clk (i + 3)) ea refresh sent g))"

text \<open>\<open>GateState::check\<close>, behind \<open>PolicyGate::try_cached\<close>: the admitted entry, if any.\<close>

definition gate_check ::
  "('c, 'k) slot_lru \<Rightarrow> clock \<Rightarrow> 'k \<Rightarrow> bool \<Rightarrow> ('c, 'k, 'p) gate
    \<Rightarrow> nat option \<times> ('c, 'k, 'p) gate" where
  "gate_check L clk k sent g =
     (case snapshot g k of
        None \<Rightarrow> (None, g)
      | Some ea \<Rightarrow>
        (let (v, h) = with_entry ea (\<lambda>a. verdict_at a (clk 0)) None (gate_heap g);
             g = set_heap h g
         in case v of
              None \<Rightarrow> (None, g)
            | Some _ \<Rightarrow>
              (let (_, m) = map_touch L k ea (clk 1) (subjects g);
                   (admitted, g) = admission_on_access (\<lambda>i. clk (i + 2)) k ea None sent (g\<lparr>subjects := m\<rparr>)
               in (if admitted then Some ea else None, g))))"

definition check_without_refresh ::
  "('c, 'k) slot_lru \<Rightarrow> clock \<Rightarrow> 'k \<Rightarrow> ('c, 'k, 'p) gate \<Rightarrow> nat option \<times> ('c, 'k, 'p) gate" where
  "check_without_refresh L clk k g =
     (case snapshot g k of
        None \<Rightarrow> (None, g)
      | Some ea \<Rightarrow>
        (let (v, h) = with_entry ea (\<lambda>a. verdict_at a (clk 0)) None (gate_heap g);
             g = set_heap h g
         in case v of
              None \<Rightarrow> (None, g)
            | Some _ \<Rightarrow>
              (let (_, m) = map_touch L k ea (clk 1) (subjects g);
                   (admitted, h) = with_entry ea (\<lambda>a. admission a (clk 2)) False (sm_heap m)
               in (if admitted then Some ea else None, set_heap h (g\<lparr>subjects := m\<rparr>)))))"

definition refresh_entry ::
  "('c, 'k) slot_lru \<Rightarrow> clock \<Rightarrow> 'k \<Rightarrow> nat \<Rightarrow> bool \<Rightarrow> ('c, 'k, 'p) gate \<Rightarrow> ('c, 'k, 'p) gate" where
  "refresh_entry L clk k ea sent g =
     (let (matched, m) = map_touch L k ea (clk 0) (subjects g); g = g\<lparr>subjects := m\<rparr>
      in if matched then snd (admission_on_access (\<lambda>i. clk (i + 1)) k ea None sent g) else g)"

end
