(* ===== verification/Gate_Invariant.thy ===== *)
theory Gate_Invariant
  imports Gate
begin

text \<open>
  The invariant of the gate's shared state and the proof that every synchronous operation
  keeps it. The invariant says that the subject map is well-formed, that the read snapshot
  only holds entries of the heap and never files an entry under another subject than the
  map does, that it is empty while the watch is down, and that the refresh queue is
  bounded and holds lookups the gate issued. \<open>gate_evolves\<close> says what no operation undoes.
\<close>

section \<open>Replacing one entry\<close>

lemma map_inv_replace:
  assumes inv: "map_inv valid L c h" and ea: "ea \<in> slot_refs L c" and e: "cells h ea = Some e"
    and n': "next_addr h \<le> n'" and e': "entry_ok n' ea e'" "entry_evolves e e'"
    and pend: "\<And>p. pending e' = Some p \<Longrightarrow> pending e = Some p \<or> next_addr h \<le> generation (deref p)"
  shows "map_inv valid L c (h\<lparr>cells := (cells h)(ea \<mapsto> e'), next_addr := n'\<rparr>)
    \<and> heap_evolves h (h\<lparr>cells := (cells h)(ea \<mapsto> e'), next_addr := n'\<rparr>)"
proof -
  note V = map_invD [OF inv]
  have "heap_ok (h\<lparr>cells := (cells h)(ea \<mapsto> e'), next_addr := n'\<rparr>)"
    by (rule heap_ok_replace [OF V(2) n' e'(1)]) (use heap_okD(1) [OF V(2) e] n' e pend in auto)
  then have "map_inv valid L c (h\<lparr>cells := (cells h)(ea \<mapsto> e'), next_addr := n'\<rparr>)"
    using V ea unfolding map_inv_def by auto
  with heap_evolves_replace [OF e e'(2) n' pend] show ?thesis by blast
qed

lemma heap_bump:
  assumes "heap_ok h" "next_addr h \<le> n'"
  shows "heap_ok (h\<lparr>next_addr := n'\<rparr>)" "heap_evolves h (h\<lparr>next_addr := n'\<rparr>)"
proof -
  have "a < n' \<and> entry_ok n' a e" if "cells h a = Some e" for a e
    using heap_okD(1,2) [OF assms(1) that] assms(2) entry_ok_mono [OF _ assms(2)] by auto
  then show "heap_ok (h\<lparr>next_addr := n'\<rparr>)"
    using assms unfolding heap_ok_def by (auto dest: order_less_le_trans)
  show "heap_evolves h (h\<lparr>next_addr := n'\<rparr>)"
    using assms(2) unfolding heap_evolves_def by simp
qed

lemma map_inv_bump:
  "map_inv valid L c h \<Longrightarrow> next_addr h \<le> n' \<Longrightarrow>
    map_inv valid L c (h\<lparr>next_addr := n'\<rparr>) \<and> heap_evolves h (h\<lparr>next_addr := n'\<rparr>)"
  using heap_bump [of h n'] unfolding map_inv_def by auto

text \<open>An entry with a lookup in flight has a slot.\<close>

lemma pending_has_slot:
  assumes "map_inv valid L c h" "cells h ea = Some e" "pending e \<noteq> None"
  shows "ea \<in> slot_refs L c"
proof (rule ccontr)
  assume "ea \<notin> slot_refs L c"
  from map_invD(5) [OF assms(1,2) this] assms(3) show False by (simp add: retired_def)
qed

section \<open>New entries and decisions\<close>

lemma entry_state_of_verdict [simp]:
  "entry_state_of d \<noteq> EPending" "entry_state_of d \<noteq> EStale" "entry_state_of d \<in> {EAllowed, EDenied}"
  by (cases d; simp)+

lemma decision_snapshot_state [simp]:
  "decode_entry_state (snap_word (decision_snapshot cfg now e r)) = entry_state_of (decision r)"
  by (simp add: decision_snapshot_def Let_def)

lemma prepare_result_verdict:
  assumes "prepare_result cfg clk e result = Inr snap"
  shows "decode_entry_state (snap_word snap) \<in> {EAllowed, EDenied}"
proof -
  from assms obtain r where "snap = decision_snapshot cfg (clk 0) e r"
    by (auto simp: prepare_result_def Let_def split: sum.splits if_splits)
  then show ?thesis using entry_state_of_verdict(3) by simp
qed

lemma create_entry_creation: "entry_creation (create_entry cfg k now)"
  unfolding entry_creation_def
proof (intro allI impI)
  fix h :: "('a, 'b) heap" and ea h'
  assume ok: "heap_ok h" and cr: "create_entry cfg k now h = (ea, h')"
  let ?n = "next_addr h"
  let ?f = "Arc (Suc (Suc ?n)) \<lparr> generation = Suc ?n, fetch_entry = ?n, fetch_subject = k,
    fetch_delay = None, fetch_refresh_from = None \<rparr>"
  let ?e = "entry_pending (Suc (Suc (Suc ?n))) now ?f (refresh_before_expiry cfg)"
  have eq: "ea = ?n" "h' = h\<lparr>cells := (cells h)(?n \<mapsto> ?e), next_addr := Suc (Suc (Suc (Suc ?n)))\<rparr>"
    using cr by (auto simp: create_entry_def new_fetch_after_def Let_def)
  have fresh: "cells h ?n = None"
    using heap_okD(1) [OF ok, of ?n] by (cases "cells h ?n") auto
  have "heap_ok h'"
    unfolding eq(2)
    by (rule heap_ok_replace [OF ok])
      (auto simp: entry_pending_def entry_ok_def pending_ok_def word_deadline_entry_word)
  then show "cells h ea = None \<and>
      (\<exists>e. cells h' = (cells h)(ea \<mapsto> e) \<and>
        (\<forall>p. pending e = Some p \<longrightarrow> next_addr h \<le> generation (deref p))) \<and>
      heap_ok h' \<and> next_addr h \<le> next_addr h' \<and> aborted h' = aborted h"
    using fresh by (intro conjI exI [of _ ?e]) (simp_all add: eq, simp add: entry_pending_def)
qed

lemma publish_change_quiet:
  "publish_change [] mk e =
     (map_option (generation \<circ> deref) (pending e), e\<lparr>current := mk 0, pending := None\<rparr>)"
  by (simp add: compare_exchange_quiet abort_pending_def)

lemma change_entry_eq:
  assumes "cells h ea = Some e"
  shows "change_entry cfg now d ea h =
    record_abort (map_option (generation \<circ> deref) (pending e))
      (h\<lparr>cells := (cells h)(ea \<mapsto> e\<lparr>current := Arc (next_addr h) (decision_snapshot cfg now e
           \<lparr> decision = d, payload = None, valid_until = None \<rparr>), pending := None\<rparr>),
         next_addr := Suc (next_addr h)\<rparr>)"
  by (simp add: change_entry_def with_entry_heap [OF assms] publish_change_quiet
      del: publish_change.simps)

lemma record_abort_ok:
  assumes ok: "heap_ok h" and e: "cells h ea = Some e" and e': "entry_ok n' ea e'" "pending e' = None"
    and n': "next_addr h \<le> n'" "ea < n'"
  shows "heap_ok (record_abort (map_option (generation \<circ> deref) (pending e))
    (h\<lparr>cells := (cells h)(ea \<mapsto> e'), next_addr := n'\<rparr>))"
proof -
  let ?h' = "h\<lparr>cells := (cells h)(ea \<mapsto> e'), next_addr := n'\<rparr>"
  have h': "heap_ok ?h'" by (rule heap_ok_replace [OF ok n'(1) e'(1) n'(2)]) (simp add: e'(2))
  show ?thesis
  proof (cases "pending e")
    case None
    with h' show ?thesis by (simp add: record_abort_def)
  next
    case (Some p)
    have "heap_ok (record_abort (Some (generation (deref p))) ?h')"
    proof (rule heap_ok_abort [OF h'])
      show "generation (deref p) < next_addr ?h'"
        using heap_ok_entry_lt [OF ok e Some] n'(1) by simp
      show "generation (deref q) \<noteq> generation (deref p)"
        if "cells ?h' a = Some f" "pending f = Some q" for a f q
        using ok e Some that e'(2) unfolding heap_ok_def by (auto split: if_splits)
    qed
    with Some show ?thesis by simp
  qed
qed

interpretation change_action: entry_action "change_entry cfg now d" for cfg now d
proof
  fix h :: "('k, 'p) heap" and ea b
  show "b \<noteq> ea \<Longrightarrow> cells (change_entry cfg now d ea h) b = cells h b"
    and "cells h ea = None \<Longrightarrow> cells (change_entry cfg now d ea h) ea = None"
    by (cases "cells h ea"; simp add: change_entry_def with_entry_def split: prod.splits)+
  assume ok: "heap_ok h"
  show "heap_ok (change_entry cfg now d ea h)"
  proof (cases "cells h ea")
    case (Some e)
    show ?thesis
      unfolding change_entry_eq [OF Some]
      by (rule record_abort_ok [OF ok Some]) (use heap_okD(1) [OF ok Some] in \<open>auto simp: entry_ok_def\<close>)
  qed (simp add: change_entry_def with_entry_def record_abort_def ok)
  show "heap_evolves h (change_entry cfg now d ea h)"
  proof (cases "cells h ea")
    case (Some e)
    show ?thesis
      unfolding change_entry_eq [OF Some]
      by (rule heap_evolves_trans [OF heap_evolves_replace [OF Some] heap_evolves_abort])
        (auto simp: entry_evolves_def)
  qed (simp add: change_entry_def with_entry_def record_abort_def)
qed

text \<open>Failing a lookup under the map lock.\<close>

interpretation fail_action: entry_action "\<lambda>ea h. snd (fail_pending fa gen ea h)" for fa gen
proof
  fix h :: "('k, 'p) heap" and ea b
  show "b \<noteq> ea \<Longrightarrow> cells (snd (fail_pending fa gen ea h)) b = cells h b"
    and "cells h ea = None \<Longrightarrow> cells (snd (fail_pending fa gen ea h)) ea = None"
    by (auto simp: fail_pending_def with_entry_cells split: option.split)
  assume ok: "heap_ok h"
  have "heap_ok (snd (fail_pending fa gen ea h)) \<and> heap_evolves h (snd (fail_pending fa gen ea h))"
  proof (cases "cells h ea")
    case (Some e)
    let ?stale = "Arc (next_addr h) \<lparr> snap_word = entry_word EStale NO_EXPIRY, snap_payload = None,
      snap_refresh_after = 0 \<rparr>"
    define e' where "e' = (if ea \<noteq> fa \<or> pending_generation e gen = None \<or> current_state e \<noteq> EPending
      then e else e\<lparr>current := ?stale\<rparr>)"
    have eq: "snd (fail_pending fa gen ea h) =
        h\<lparr>cells := (cells h)(ea \<mapsto> e'), next_addr := Suc (next_addr h)\<rparr>"
      by (simp add: fail_pending_def with_entry_heap [OF Some] compare_exchange_quiet e'_def) auto
    have E: "entry_ok (next_addr h) ea e" "ea < next_addr h" using heap_okD(1,2) [OF ok Some] by auto
    then have "entry_ok (Suc (next_addr h)) ea e'"
      using entry_ok_mono [OF E(1), of "Suc (next_addr h)"]
      by (auto simp: e'_def entry_ok_def pending_ok_def split: option.splits)
    moreover have "entry_evolves e e'" "pending e' = pending e"
      by (simp_all add: e'_def entry_evolves_def)
    ultimately show ?thesis
      unfolding eq using E(2) Some heap_ok_replace [OF ok, of "Suc (next_addr h)" ea e']
        heap_evolves_replace [OF Some, of e' "Suc (next_addr h)"] by auto
  qed (simp add: fail_pending_def with_entry_def ok)
  then show "heap_ok (snd (fail_pending fa gen ea h))" "heap_evolves h (snd (fail_pending fa gen ea h))"
    by auto
qed

section \<open>The invariant\<close>

text \<open>
  A lookup the gate issued: its generation is not fresh, and the entry whose pending
  lookup has this generation, if any, holds this very lookup.
\<close>

definition fetch_issued :: "('k, 'p) heap \<Rightarrow> ('k, 'p) pending_fetch arc \<Rightarrow> bool" where
  "fetch_issued h f \<longleftrightarrow>
     generation (deref f) < next_addr h \<and>
     (\<forall>a e p. cells h a = Some e \<longrightarrow> pending e = Some p \<longrightarrow>
        generation (deref p) = generation (deref f) \<longrightarrow> p = f)"

lemma fetch_issued_evolves:
  assumes "heap_evolves h h'" "fetch_issued h f"
  shows "fetch_issued h' f"
  unfolding fetch_issued_def
proof (intro conjI allI impI)
  have f: "generation (deref f) < next_addr h" using assms(2) by (simp add: fetch_issued_def)
  with assms(1) show "generation (deref f) < next_addr h'" by (simp add: heap_evolves_def)
  fix a e p
  assume P: "cells h' a = Some e" "pending e = Some p" "generation (deref p) = generation (deref f)"
  from heap_evolves_pending [OF assms(1) P(1,2)] f P(3)
  obtain e0 where "cells h a = Some e0" "pending e0 = Some p" by auto
  with assms(2) P(3) show "p = f" unfolding fetch_issued_def by blast
qed

definition gate_inv :: "('c \<Rightarrow> bool) \<Rightarrow> ('c, 'k) slot_lru \<Rightarrow> ('c, 'k, 'p) gate \<Rightarrow> bool" where
  "gate_inv valid L g \<longleftrightarrow>
     subjects_inv valid L (subjects g) \<and>
     lru_cap L (sm_entries (subjects g)) = max_subjects (config g) \<and>
     (\<forall>k a. snapshot g k = Some a \<longrightarrow> a \<in> dom (cells (gate_heap g)) \<and>
        (\<forall>k'. (k', a) \<in> slot_pairs L (sm_entries (subjects g)) \<longrightarrow> k' = k)) \<and>
     (\<not> connected g \<longrightarrow> snapshot g = Map.empty) \<and>
     length (refresh_queue g) \<le> refresh_queue_capacity (config g) \<and>
     (\<forall>f \<in> set (refresh_queue g). fetch_issued (gate_heap g) f)"

definition gate_evolves ::
  "('c, 'k) slot_lru \<Rightarrow> ('c, 'k, 'p) gate \<Rightarrow> ('c, 'k, 'p) gate \<Rightarrow> bool" where
  "gate_evolves L g g' \<longleftrightarrow> map_evolves L (subjects g) (subjects g') \<and> config g' = config g"

text \<open>What is proved of every operation: the invariant is kept and nothing is undone.\<close>

abbreviation gate_keeps ::
  "('c \<Rightarrow> bool) \<Rightarrow> ('c, 'k) slot_lru \<Rightarrow> ('c, 'k, 'p) gate \<Rightarrow> ('c, 'k, 'p) gate \<Rightarrow> bool" where
  "gate_keeps valid L g g' \<equiv> gate_inv valid L g' \<and> gate_evolves L g g'"

lemma gate_evolves_refl [simp]: "gate_evolves L g g"
  by (simp add: gate_evolves_def)

lemma gate_evolves_trans: "gate_evolves L g g' \<Longrightarrow> gate_evolves L g' g'' \<Longrightarrow> gate_evolves L g g''"
  unfolding gate_evolves_def using map_evolves_trans by metis

lemma gate_keeps_trans:
  "gate_keeps valid L g g' \<Longrightarrow> (gate_inv valid L g' \<Longrightarrow> gate_keeps valid L g' g'') \<Longrightarrow> gate_keeps valid L g g''"
  using gate_evolves_trans by blast

lemma gate_invD:
  assumes "gate_inv valid L g"
  shows "subjects_inv valid L (subjects g)" "heap_ok (gate_heap g)"
    "snapshot g k = Some a \<Longrightarrow> \<exists>e. cells (gate_heap g) a = Some e"
  using assms unfolding gate_inv_def map_inv_def by blast+

lemma gate_subjects:
  assumes inv: "gate_inv valid L g" and m': "subjects_inv valid L m'" "map_evolves L (subjects g) m'"
  shows "gate_keeps valid L g (g\<lparr>subjects := m'\<rparr>)"
proof -
  have h: "heap_evolves (gate_heap g) (sm_heap m')" using m'(2) by (rule map_evolves_heap)
  have "a \<in> dom (cells (sm_heap m')) \<and> (\<forall>k'. (k', a) \<in> slot_pairs L (sm_entries m') \<longrightarrow> k' = k)"
    if "snapshot g k = Some a" for k a
  proof -
    from inv that have a: "a \<in> dom (cells (gate_heap g))"
      "\<forall>k'. (k', a) \<in> slot_pairs L (sm_entries (subjects g)) \<longrightarrow> k' = k"
      unfolding gate_inv_def by blast+
    with m'(2) heap_evolves_dom [OF h] show ?thesis unfolding map_evolves_def by blast
  qed
  then show ?thesis
    using inv m' fetch_issued_evolves [OF h]
    by (simp add: gate_inv_def gate_evolves_def map_evolves_def)
qed

lemma gate_set_heap:
  assumes inv: "gate_inv valid L g" and h': "map_inv valid L (sm_entries (subjects g)) h'"
    "heap_evolves (gate_heap g) h'"
  shows "gate_keeps valid L g (set_heap h' g)"
  unfolding set_heap_def
  by (rule gate_subjects [OF inv]) (use h' in \<open>simp_all add: map_evolves_def\<close>)

text \<open>Fields the invariant does not read.\<close>

lemma gate_frame_keeps [gate_frame]:
  "gate_inv valid L (log x g) = gate_inv valid L g" "gate_evolves L g' (log x g) = gate_evolves L g' g"
  "gate_inv valid L (mark_dirty g) = gate_inv valid L g"
  "gate_evolves L g' (mark_dirty g) = gate_evolves L g' g"
  "gate_inv valid L (republish_clear_dirty g) = gate_inv valid L g"
  "gate_evolves L g' (republish_clear_dirty g) = gate_evolves L g' g"
  "gate_inv valid L (mark_disconnected t g) = gate_inv valid L g"
  "gate_evolves L g' (mark_disconnected t g) = gate_evolves L g' g"
  "gate_inv valid L (watch_stable g) = gate_inv valid L g"
  "gate_evolves L g' (watch_stable g) = gate_evolves L g' g"
  "gate_inv valid L (g\<lparr>next_allowed := t\<rparr>) = gate_inv valid L g"
  "gate_evolves L g' (g\<lparr>next_allowed := t\<rparr>) = gate_evolves L g' g"
  by (simp_all add: log_def mark_dirty_def republish_clear_dirty_def mark_disconnected_def
      watch_stable_def gate_inv_def gate_evolves_def map_evolves_def split: option.split)

lemma map_collect_pairs:
  assumes "map_collect L m k = Some a"
  shows "(k, a) \<in> slot_pairs L (sm_entries m)"
proof -
  have "fold (\<lambda>(k, s) snap. snap(k \<mapsto> slot_entry s)) ps n k = Some a \<Longrightarrow>
      n k = Some a \<or> (k, a) \<in> (\<lambda>(k, s). (k, slot_entry s)) ` set ps" for ps n
    by (induction ps arbitrary: n) (force split: if_splits)+
  from this [of "lru_iter L (sm_entries m)" Map.empty] assms show ?thesis
    by (simp add: map_collect_def slot_pairs_def)
qed

lemma slot_pairs_unique:
  assumes "map_inv valid L c h" "(k, a) \<in> slot_pairs L c" "(k', a) \<in> slot_pairs L c"
  shows "k = k'"
proof -
  from assms(2,3) obtain s s' where "(k, s) \<in> set (lru_iter L c)" "(k', s') \<in> set (lru_iter L c)"
    "slot_entry s = a" "slot_entry s' = a"
    unfolding slot_pairs_def by auto
  with map_invD(3) [OF assms(1)] show ?thesis
    using inj_onD [of "slot_entry \<circ> snd" "set (lru_iter L c)" "(k, s)" "(k', s')"]
    unfolding distinct_map by simp
qed

lemma store_keeps:
  assumes inv: "gate_inv valid L g" and entries: "\<And>k a. entries k = Some a \<Longrightarrow>
      a \<in> dom (cells (gate_heap g)) \<and> (\<forall>k'. (k', a) \<in> slot_pairs L (sm_entries (subjects g)) \<longrightarrow> k' = k)"
  shows "gate_keeps valid L g (republish_store gen entries g)"
  using assms by (auto simp: republish_store_def log_def gate_inv_def gate_evolves_def)

lemma collect_ok:
  assumes inv: "gate_inv valid L g" and "map_collect L (subjects g) k = Some a"
  shows "a \<in> dom (cells (gate_heap g)) \<and>
    (\<forall>k'. (k', a) \<in> slot_pairs L (sm_entries (subjects g)) \<longrightarrow> k' = k)"
proof -
  note S = gate_invD(1) [OF inv] and P = map_collect_pairs [OF assms(2)]
  from P have "a \<in> slot_refs L (sm_entries (subjects g))" unfolding slot_refs_pairs by force
  with map_invD(4) [OF S] slot_pairs_unique [OF S _ P] show ?thesis by blast
qed

lemma republish_keeps:
  assumes inv: "gate_inv valid L g" and r: "republish_if_due L now g = Some g'"
  shows "gate_keeps valid L g g'"
proof (cases "sm_shape_dirty (subjects g) \<and> \<not> now < next_allowed g")
  case False
  with r inv show ?thesis by (auto simp: republish_if_due_def republish_claim_def split: if_splits)
next
  case True
  with r obtain t where g': "g' = republish_store (publish_generation g)
      (map_collect L (subjects (republish_clear_dirty (g\<lparr>next_allowed := t\<rparr>))))
      (republish_clear_dirty (g\<lparr>next_allowed := t\<rparr>))"
    by (auto simp: republish_if_due_def republish_claim_def Let_def split: Option.bind_splits)
  let ?g = "republish_clear_dirty (g\<lparr>next_allowed := t\<rparr>)"
  have inv': "gate_inv valid L ?g" using inv by (simp add: gate_frame)
  have "gate_keeps valid L ?g g'"
    unfolding g' by (rule store_keeps [OF inv']) (rule collect_ok [OF inv'])
  then show ?thesis
    by (simp add: republish_clear_dirty_def gate_evolves_def map_evolves_def)
qed

section \<open>Lookups keep the invariant\<close>

abbreviation heap_keeps ::
  "('c \<Rightarrow> bool) \<Rightarrow> ('c, 'k) slot_lru \<Rightarrow> 'c \<Rightarrow> ('k, 'p) heap \<Rightarrow> ('k, 'p) heap \<Rightarrow> bool" where
  "heap_keeps valid L c h h' \<equiv> map_inv valid L c h' \<and> heap_evolves h h'"

lemma heap_keeps_trans:
  "heap_keeps valid L c h h' \<Longrightarrow> (map_inv valid L c h' \<Longrightarrow> heap_keeps valid L c h' h'') \<Longrightarrow>
    heap_keeps valid L c h h''"
  using heap_evolves_trans by blast

lemma with_entry_keeps:
  assumes inv: "map_inv valid L c h" and e: "cells h ea = Some e" and slot: "ea \<in> slot_refs L c"
    and e': "entry_ok (Suc (next_addr h)) ea (snd (f (next_addr h) e))"
      "entry_evolves e (snd (f (next_addr h) e))"
    and pend: "\<And>p. pending (snd (f (next_addr h) e)) = Some p \<Longrightarrow>
      pending e = Some p \<or> next_addr h \<le> generation (deref p)"
  shows "heap_keeps valid L c h (snd (with_entry ea f d h))"
  unfolding with_entry_heap [OF e] snd_conv
  by (rule map_inv_replace [OF inv slot e _ e' pend]) simp

lemma observation_keeps:
  assumes "entry_observation act" "map_inv valid L c h"
  shows "heap_keeps valid L c h (act ea h)"
  using map_inv_observation [OF assms] entry_action.act_evolves [of act h ea] map_invD(2) [OF assms(2)]
    assms(1) by (auto simp: entry_observation_def)

lemma pending_generation_Some:
  "pending_generation e gen \<noteq> None \<longleftrightarrow> (\<exists>p. pending e = Some p \<and> generation (deref p) = gen)"
  by (auto simp: pending_generation_def split: option.splits)

lemma apply_refresh_eq:
  assumes "pending_generation e gen \<noteq> None"
  shows "pending (apply_refresh cfg now t2 gen cur result e) = None"
    and "epoch (apply_refresh cfg now t2 gen cur result e) = epoch e"
    and "refresh_before (apply_refresh cfg now t2 gen cur result e) = refresh_before e"
    and "current (apply_refresh cfg now t2 gen cur result e) =
      (case result of Inr snap \<Rightarrow>
         if \<not> is_expired_at e (snap_word (deref cur)) now \<and> ptr_eq (current e) cur then snap else current e
       | Inl _ \<Rightarrow> current e)"
    and "refresh_not_before (apply_refresh cfg now t2 gen cur result e) =
      (case result of Inr _ \<Rightarrow> refresh_not_before e
       | Inl _ \<Rightarrow> u64_saturating_add (entry_tick e t2)
           (case u64_try_from (permanent_failure_cooldown cfg) of Some n \<Rightarrow> n | None \<Rightarrow> U64_MAX))"
  using assms
  by (auto simp: apply_refresh_def replace_pending_eq pending_generation_def compare_and_swap_def Let_def
      split: option.splits sum.splits if_splits)

lemma apply_refresh_ok:
  assumes ok: "entry_ok n ea e" and gen: "pending_generation e gen \<noteq> None"
    and cur: "\<And>p. pending e = Some p \<Longrightarrow> fetch_refresh_from (deref p) \<noteq> None"
    and snap: "\<And>s. result = Inr s \<Longrightarrow> addr s = n \<and> decode_entry_state (snap_word (deref s)) \<in> {EAllowed, EDenied}"
  shows "entry_ok (Suc n) ea (apply_refresh cfg now t2 gen cur result e)"
    and "entry_evolves e (apply_refresh cfg now t2 gen cur result e)"
proof -
  have "current_state e \<noteq> EPending"
    using ok gen cur by (fastforce simp: entry_ok_def pending_ok_def pending_generation_Some split: option.splits)
  moreover have "addr (current e) < n" using ok by (simp add: entry_ok_def)
  ultimately show "entry_ok (Suc n) ea (apply_refresh cfg now t2 gen cur result e)"
    and "entry_evolves e (apply_refresh cfg now t2 gen cur result e)"
    using snap by (auto simp: entry_ok_def entry_evolves_def apply_refresh_eq [OF gen] split: sum.splits)
qed

lemma apply_verdict_eq:
  assumes "pending_generation e gen \<noteq> None"
  shows "apply_verdict gen snap e =
    (if current_state e = EPending then e\<lparr>current := snap, pending := None\<rparr> else e)"
  using assms
  by (auto simp: apply_verdict_def compare_exchange_quiet replace_pending_eq pending_generation_def
      split: option.splits)

lemma apply_verdict_ok:
  assumes ok: "entry_ok n ea e" and gen: "pending_generation e gen \<noteq> None"
    and snap: "addr snap = n" "decode_entry_state (snap_word (deref snap)) \<in> {EAllowed, EDenied}"
  shows "entry_ok (Suc n) ea (apply_verdict gen snap e)" "entry_evolves e (apply_verdict gen snap e)"
  using assms entry_ok_mono [OF ok, of "Suc n"]
  by (auto simp: apply_verdict_eq [OF gen] entry_ok_def entry_evolves_def)

lemma new_fetch_after_heap:
  "snd (new_fetch_after ea k d r h) = h\<lparr>next_addr := Suc (Suc (next_addr h))\<rparr>"
  "fst (new_fetch_after ea k d r h) = Arc (Suc (next_addr h)) \<lparr> generation = next_addr h, fetch_entry = ea,
     fetch_subject = k, fetch_delay = d, fetch_refresh_from = r \<rparr>"
  by (simp_all add: new_fetch_after_def Let_def)

text \<open>A permanent failure leaves the entry pending, with the delayed retry to join.\<close>

lemma apply_permanent_failure_eq:
  assumes e: "cells h ea = Some e" and gen: "pending_generation e gen \<noteq> None"
  shows "apply_permanent_failure cfg t2 k ea gen h =
    (if \<not> is_expired_at e (current_word e) t2 \<and> current_state e = EPending
     then h\<lparr>cells := (cells h)(ea \<mapsto> e\<lparr>pending := Some (Arc (next_addr h + 2)
                \<lparr> generation = next_addr h + 1, fetch_entry = ea, fetch_subject = k,
                  fetch_delay = Some (permanent_failure_cooldown cfg), fetch_refresh_from = None \<rparr>)\<rparr>),
            next_addr := next_addr h + 4\<rparr>
     else snd (with_entry ea (\<lambda>a. state_at a t2) EStale h))"
proof (cases "\<not> is_expired_at e (current_word e) t2 \<and> current_state e = EPending")
  case True
  then have "expire (next_addr h) t2 e = e" by (simp add: expire_def current_at_quiet)
  with True gen show ?thesis
    by (auto simp: apply_permanent_failure_def with_entry_def e state_at_eq new_fetch_after_def
        replace_pending_eq Let_def)
next
  case False
  then show ?thesis
    by (auto simp: apply_permanent_failure_def with_entry_heap [OF e] state_at_eq Let_def)
qed

lemma apply_permanent_failure_keeps:
  assumes inv: "map_inv valid L c h" and e: "cells h ea = Some e"
    and gen: "pending_generation e gen \<noteq> None"
  shows "heap_keeps valid L c h (apply_permanent_failure cfg t2 k ea gen h)"
proof (cases "\<not> is_expired_at e (current_word e) t2 \<and> current_state e = EPending")
  case True
  have slot: "ea \<in> slot_refs L c"
    using pending_has_slot [OF inv e] gen by (auto simp: pending_generation_def split: option.splits)
  have "entry_ok (next_addr h) ea e" by (rule heap_okD(2) [OF map_invD(2) [OF inv] e])
  then have addr: "addr (current e) < next_addr h" "word_deadline (current_word e) = NO_EXPIRY"
    using True by (simp_all add: entry_ok_def)
  show ?thesis
    unfolding apply_permanent_failure_eq [OF e gen] if_P [OF True]
    by (rule map_inv_replace [OF inv slot e])
      (use True addr in \<open>simp_all add: entry_ok_def pending_ok_def entry_evolves_def\<close>)
next
  case False
  show ?thesis
    unfolding apply_permanent_failure_eq [OF e gen] if_not_P [OF False]
    by (rule observation_keeps [OF state_at_action.entry_observation_axioms inv])
qed

section \<open>Access keeps the invariant\<close>

lemma admission_keeps:
  "map_inv valid L c h \<Longrightarrow> heap_keeps valid L c h (snd (with_entry ea (\<lambda>a. admission a now) d h))"
  by (rule observation_keeps [OF admission_action.entry_observation_axioms])

lemma refresh_eligible_verdict:
  "refresh_eligible_at e cur now \<Longrightarrow> decode_entry_state (snap_word cur) \<in> {EAllowed, EDenied}"
  by (auto simp: refresh_eligible_at_def Let_def split: if_splits)

text \<open>The claim of a refresh: the entry's free pending slot holds the new lookup.\<close>

lemma claim_keeps:
  assumes inv: "map_inv valid L c h" and e: "cells h ea = Some e" "pending e = None"
    and due: "refresh_eligible_at e (deref (current e)) now"
    and f: "f = Arc (Suc (next_addr h)) \<lparr> generation = next_addr h, fetch_entry = ea, fetch_subject = k,
      fetch_delay = None, fetch_refresh_from = Some (current e) \<rparr>"
    and h': "h' = h\<lparr>cells := (cells h)(ea \<mapsto> e\<lparr>pending := Some f\<rparr>), next_addr := Suc (Suc (next_addr h))\<rparr>"
  shows "heap_keeps valid L c h h'" "fetch_issued h' f"
proof -
  have st: "current_state e \<in> {EAllowed, EDenied}" using refresh_eligible_verdict [OF due] .
  then have slot: "ea \<in> slot_refs L c"
    using map_invD(5) [OF inv e(1)] by (cases "ea \<in> slot_refs L c") (auto simp: retired_def)
  have "entry_ok (next_addr h) ea e" by (rule heap_okD(2) [OF map_invD(2) [OF inv] e(1)])
  then have "entry_ok (Suc (Suc (next_addr h))) ea (e\<lparr>pending := Some f\<rparr>)"
    using st by (auto simp: entry_ok_def pending_ok_def f)
  then show "heap_keeps valid L c h h'"
    unfolding h' by (intro map_inv_replace [OF inv slot e(1)]) (auto simp: entry_evolves_def f)
  have "generation (deref p) < next_addr h" if "cells h a = Some e'" "pending e' = Some p" for a e' p
    using heap_ok_entry_lt [OF map_invD(2) [OF inv] that] .
  then show "fetch_issued h' f"
    unfolding fetch_issued_def h' by (fastforce simp: f split: if_splits)
qed

lemma access_claim_keeps:
  assumes inv: "map_inv valid L c h" and r: "access_claim cfg clk k ea ad h = (claim, h')"
  shows "heap_keeps valid L c h h'"
    and "claim = Inr (refresh, cur, qd) \<Longrightarrow> fetch_issued h' refresh"
proof -
  let ?h1 = "snd (with_entry ea (\<lambda>a. admission a (clk 0)) False h)"
  have h1: "heap_keeps valid L c h ?h1" by (rule admission_keeps [OF inv])
  have "heap_keeps valid L c ?h1 h' \<and> (claim = Inr (refresh, cur, qd) \<longrightarrow> fetch_issued h' refresh)"
  proof (cases "\<exists>x. claim = Inr x")
    case True
    then obtain e where e: "cells ?h1 ea = Some e" "pending e = None"
      and due: "refresh_eligible_at e (deref (current e)) (clk 1)"
      and c: "claim = Inr (fst (new_fetch_after ea k None (Some (current e)) ?h1), current e,
          the (queue_deadline cfg (clk 1) ad))"
      and h': "h' = ?h1\<lparr>cells := (cells ?h1)(ea \<mapsto> e\<lparr>pending := Some (fst (new_fetch_after ea k None
          (Some (current e)) ?h1))\<rparr>), next_addr := Suc (Suc (next_addr ?h1))\<rparr>"
      using r by (auto simp: access_claim_def refresh_due_at_def new_fetch_after_def Let_def case_prod_beta
          split: if_splits option.splits)
    from claim_keeps [OF conjunct1 [OF h1] e due new_fetch_after_heap(2) h'] c show ?thesis by auto
  next
    case False
    then have "h' = ?h1 \<or> h' = ?h1\<lparr>next_addr := Suc (Suc (next_addr ?h1))\<rparr>"
      using r by (auto simp: access_claim_def new_fetch_after_def Let_def case_prod_beta
          split: if_splits option.splits)
    with h1 False map_inv_bump [of valid L c ?h1 "Suc (Suc (next_addr ?h1))"] show ?thesis by auto
  qed
  then show "heap_keeps valid L c h h'" "claim = Inr (refresh, cur, qd) \<Longrightarrow> fetch_issued h' refresh"
    using h1 heap_evolves_trans by blast+
qed

text \<open>Releasing a refresh claim leaves the snapshot in force.\<close>

lemma release_claim_keeps:
  assumes inv: "map_inv valid L c h" and f: "fetch_issued h f" "fetch_refresh_from (deref f) \<noteq> None"
  shows "heap_keeps valid L c h (release_claim (generation (deref f)) ea h)"
proof (cases "cells h ea")
  case None
  with inv show ?thesis by (simp add: release_claim_def with_entry_def)
next
  case (Some e)
  have ok: "entry_ok (next_addr h) ea e" by (rule heap_okD(2) [OF map_invD(2) [OF inv] Some])
  show ?thesis
  proof (cases "pending_generation e (generation (deref f)) = None")
    case True
    then have "release_claim (generation (deref f)) ea h = h\<lparr>next_addr := Suc (next_addr h)\<rparr>"
      using Some by (simp add: release_claim_def with_entry_heap [OF Some] replace_pending_eq fun_upd_idem)
    with map_inv_bump [OF inv] show ?thesis by simp
  next
    case False
    with f(1) Some have p: "pending e = Some f"
      unfolding pending_generation_Some fetch_issued_def by blast
    have slot: "ea \<in> slot_refs L c" using pending_has_slot [OF inv Some] p by simp
    have eq: "replace_pending (generation (deref f)) None e = (True, e\<lparr>pending := None\<rparr>)"
      using False by (auto simp: replace_pending_eq)
    have "current_state e \<noteq> EPending" "addr (current e) < next_addr h"
      using ok p f(2) by (auto simp: entry_ok_def pending_ok_def split: option.splits)
    then show ?thesis
      unfolding release_claim_def
      by (intro with_entry_keeps [OF inv Some slot]) (simp_all add: eq entry_ok_def entry_evolves_def)
  qed
qed

context subject_cache
begin

lemma apply_fetch_result_keeps:
  assumes inv: "gate_inv valid L g" and f: "fetch_issued (gate_heap g) f"
    and r: "apply_fetch_result L clk k ea (generation (deref f)) (fetch_refresh_from (deref f)) result g =
      Some (answer, g')"
  shows "gate_keeps valid L g g'"
proof (cases "\<exists>e. cells (gate_heap g) ea = Some e \<and> pending_generation e (generation (deref f)) \<noteq> None")
  case False
  with r inv show ?thesis by (auto simp: apply_fetch_result_def split: option.splits)
next
  case True
  then obtain e where e: "cells (gate_heap g) ea = Some e"
    and gen: "pending_generation e (generation (deref f)) \<noteq> None" by blast
  from gen f e have pend: "pending e = Some f"
    unfolding pending_generation_Some fetch_issued_def by blast
  note S = gate_invD(1) [OF inv] and ok = heap_okD(2) [OF gate_invD(2) [OF inv] e]
  have slot: "ea \<in> slot_refs L (sm_entries (subjects g))" using pending_has_slot [OF S e] pend by simp
  define res where "res = prepare_result (config g) clk e result"
  have verdict: "decode_entry_state (snap_word snap) \<in> {EAllowed, EDenied}" if "res = Inr snap" for snap
    using prepare_result_verdict that unfolding res_def .
  show ?thesis
  proof (cases "fetch_refresh_from (deref f)")
    case (Some cur)
    let ?act = "\<lambda>a e. ((), apply_refresh (config g) (clk 1) (clk 2) (generation (deref f)) cur
      (map_sum id (Arc a) res) e)"
    have "g' = set_heap (snd (with_entry ea ?act () (gate_heap g))) g"
      using r e gen Some by (simp add: apply_fetch_result_def res_def Let_def)
    moreover have "heap_keeps valid L (sm_entries (subjects g)) (gate_heap g)
        (snd (with_entry ea ?act () (gate_heap g)))"
    proof (rule with_entry_keeps [OF S e slot])
      show "entry_ok (Suc (next_addr (gate_heap g))) ea (snd (?act (next_addr (gate_heap g)) e))"
        "entry_evolves e (snd (?act (next_addr (gate_heap g)) e))"
        unfolding snd_conv
        by (rule apply_refresh_ok [OF ok gen]; use pend Some verdict in \<open>cases res; auto\<close>)+
    qed (simp add: apply_refresh_eq [OF gen])
    ultimately show ?thesis using gate_set_heap [OF inv] by blast
  next
    case None
    show ?thesis
    proof (cases res)
      case (Inr snap)
      let ?act = "\<lambda>a e. ((), apply_verdict (generation (deref f)) (Arc a snap) e)"
      have "g' = set_heap (snd (with_entry ea ?act () (gate_heap g))) g"
        using r e gen None Inr by (simp add: apply_fetch_result_def res_def Let_def)
      moreover have "heap_keeps valid L (sm_entries (subjects g)) (gate_heap g)
          (snd (with_entry ea ?act () (gate_heap g)))"
        by (rule with_entry_keeps [OF S e slot])
          (use apply_verdict_ok [OF ok gen] verdict [OF Inr] in
            \<open>auto simp: apply_verdict_eq [OF gen] split: if_splits\<close>)
      ultimately show ?thesis using gate_set_heap [OF inv] by blast
    next
      case (Inl err)
      show ?thesis
      proof (cases "is_permanent_status err")
        case True
        then have "g' = set_heap (apply_permanent_failure (config g) (clk 2) k ea
            (generation (deref f)) (gate_heap g)) g"
          using r e gen None Inl by (simp add: apply_fetch_result_def res_def Let_def)
        with apply_permanent_failure_keeps [OF S e gen] gate_set_heap [OF inv] show ?thesis by blast
      next
        case False
        let ?rm = "map_remove_if L k (clk 2) (fail_pending ea (generation (deref f))) (subjects g)"
        let ?g1 = "g\<lparr>subjects := snd ?rm\<rparr>"
        let ?g2 = "if fst ?rm then mark_dirty ?g1 else ?g1"
        have "republish_if_due L (clk 3) ?g2 = Some g'"
          using r e gen None Inl False
          by (auto simp: apply_fetch_result_def res_def Let_def split: prod.splits Option.bind_splits)
        moreover have g1: "gate_keeps valid L g ?g1"
          using gate_subjects [OF inv] map_remove_if_inv [OF S fail_action.entry_action_axioms] by blast
        then have "gate_keeps valid L g ?g2" by (simp add: gate_frame)
        ultimately show ?thesis
          using republish_keeps gate_keeps_trans by blast
      qed
    qed
  qed
qed

lemma run_fetch_keeps:
  assumes inv: "gate_inv valid L g" and f: "fetch_issued (gate_heap g) f"
    and r: "run_fetch L clk f outcome g = Some (answer, g')"
  shows "gate_keeps valid L g g'"
proof (cases "generation (deref f) \<in> set (aborted (gate_heap g))")
  case True
  with r inv show ?thesis by (simp add: run_fetch_def Let_def)
next
  case False
  then obtain a g1 where a: "apply_fetch_result L (\<lambda>i. clk (Suc i)) (fetch_subject (deref f))
      (fetch_entry (deref f)) (generation (deref f)) (fetch_refresh_from (deref f))
      (lookup_result (clk 0) outcome) (log UnaryCall g) = Some (a, g1)"
    and g': "g' = g1 \<or> g' = log UnaryFailure g1 \<or> g' = log UnaryFailure (log WireFailure g1)"
    using r by (auto simp: run_fetch_def Let_def split: Option.bind_splits sum.splits if_splits)
  have "gate_keeps valid L (log UnaryCall g) g1"
    by (rule apply_fetch_result_keeps [OF _ _ a]) (use inv f in \<open>simp_all add: gate_frame, simp add: log_def\<close>)
  then show ?thesis
    using g' by (auto simp: gate_frame) (simp_all add: log_def gate_evolves_def)
qed

section \<open>Watch transitions and changes keep the invariant\<close>

lemma clear_subjects_keeps: "gate_inv valid L g \<Longrightarrow> gate_keeps valid L g (clear_subjects L g)"
  unfolding clear_subjects_def
  using gate_subjects map_clear_inv(1) [OF gate_invD(1)] by blast

lemma publish_empty_keeps:
  "gate_inv valid L g \<Longrightarrow> gate_keeps valid L g
     (g\<lparr>publish_generation := publish_generation g + 1, snapshot := Map.empty\<rparr>)"
  by (simp add: gate_inv_def gate_evolves_def)

lemma connected_keeps:
  "gate_inv valid L g \<Longrightarrow> b \<or> snapshot g = Map.empty \<Longrightarrow> gate_keeps valid L g (g\<lparr>connected := b\<rparr>)"
  by (auto simp: gate_inv_def gate_evolves_def)

lemma watch_connected_keeps:
  assumes "gate_inv valid L g"
  shows "gate_keeps valid L g (watch_connected L g)"
proof -
  let ?g1 = "g\<lparr>publish_generation := publish_generation g + 1, snapshot := Map.empty\<rparr>"
  have "gate_keeps valid L g (clear_subjects L ?g1)"
    by (rule gate_keeps_trans [OF publish_empty_keeps [OF assms] clear_subjects_keeps])
  then have "gate_keeps valid L g ((clear_subjects L ?g1)\<lparr>connected := True\<rparr>)"
    using gate_keeps_trans connected_keeps by blast
  then show ?thesis by (simp add: watch_connected_def publish_empty_def Let_def gate_frame)
qed

lemma watch_disconnected_keeps:
  assumes "gate_inv valid L g"
  shows "gate_keeps valid L g (watch_disconnected L now g)"
proof -
  let ?g1 = "g\<lparr>publish_generation := publish_generation g + 1, snapshot := Map.empty\<rparr>"
  have "gate_keeps valid L g (?g1\<lparr>connected := False\<rparr>)"
    by (rule gate_keeps_trans [OF publish_empty_keeps [OF assms] connected_keeps]) simp_all
  then have "gate_keeps valid L g
      (mark_disconnected now (log (SetWatchConnected False) (?g1\<lparr>connected := False\<rparr>)))"
    by (simp add: gate_frame)
  from gate_keeps_trans [OF this clear_subjects_keeps] show ?thesis
    by (simp add: watch_disconnected_def publish_empty_def Let_def)
qed

lemma apply_change_keeps:
  assumes inv: "gate_inv valid L g" and r: "apply_change L clk change g = Some g'"
  shows "gate_keeps valid L g g'"
proof -
  note S = gate_invD(1) [OF inv]
  obtain g1 t where g1: "gate_keeps valid L g g1" "republish_if_due L t g1 = Some g'"
  proof (cases "change_decision change")
    case (Some d)
    from gate_subjects [OF inv] map_update_inv [OF S change_action.entry_action_axioms]
    have "gate_keeps valid L g (g\<lparr>subjects := map_update L (change_subject change) (clk 0)
        (change_entry (config g) (clk 1) d) (subjects g)\<rparr>)" by blast
    with that r Some show ?thesis by (simp add: apply_change_def)
  next
    case None
    let ?rm = "map_remove L (change_subject change) (clk 0) (subjects g)"
    let ?g1 = "g\<lparr>subjects := snd ?rm\<rparr>"
    have "gate_keeps valid L g ?g1" using gate_subjects [OF inv] map_remove_inv [OF S] by blast
    then have "gate_keeps valid L g (if fst ?rm then mark_dirty ?g1 else ?g1)" by (simp add: gate_frame)
    moreover have "republish_if_due L (clk 1) (if fst ?rm then mark_dirty ?g1 else ?g1) = Some g'"
      using r None by (simp add: apply_change_def Let_def case_prod_beta)
    ultimately show ?thesis by (rule that)
  qed
  then show ?thesis using gate_keeps_trans republish_keeps by blast
qed

lemma access_revalidate_keeps:
  assumes inv: "map_inv valid L c h" and f: "fetch_issued h f" "fetch_refresh_from (deref f) \<noteq> None"
    and r: "access_revalidate clk ea f cur h = (answer, h')"
  shows "heap_keeps valid L c h h'"
proof (cases "h' = h")
  case False
  let ?h1 = "snd (with_entry ea (\<lambda>a. admission a (clk 1)) False h)"
  have h1: "heap_keeps valid L c h ?h1" by (rule admission_keeps [OF inv])
  from False r have "h' = release_claim (generation (deref f)) ea ?h1"
    by (auto simp: access_revalidate_def Let_def case_prod_beta split: option.splits if_splits)
  with heap_keeps_trans [OF h1 release_claim_keeps [OF _ _ f(2)]] h1 fetch_issued_evolves [OF _ f(1)]
  show ?thesis by blast
qed (simp add: inv)

lemma access_finish_keeps:
  assumes inv: "gate_inv valid L g" and f: "fetch_issued (gate_heap g) f" "fetch_refresh_from (deref f) \<noteq> None"
  shows "gate_keeps valid L g (snd (access_finish clk ea f sent g))"
proof -
  define queued where "queued \<longleftrightarrow> sent \<and> length (refresh_queue g) < refresh_queue_capacity (config g)"
  define g1 where "g1 = (if queued then g\<lparr>refresh_queue := refresh_queue g @ [f]\<rparr> else g)"
  have g1: "gate_keeps valid L g g1" "gate_heap g1 = gate_heap g"
    using inv f(1) by (auto simp: g1_def queued_def gate_inv_def gate_evolves_def)
  let ?h1 = "snd (with_entry ea (\<lambda>a. admission a (clk 0)) False (gate_heap g1))"
  have h1: "heap_keeps valid L (sm_entries (subjects g1)) (gate_heap g1) ?h1"
    by (rule admission_keeps [OF gate_invD(1)]) (use g1(1) in blast)
  have f1: "fetch_issued ?h1 f"
    by (rule fetch_issued_evolves [OF conjunct2 [OF h1]]) (simp add: g1(2) f(1))
  define h2 where "h2 = (if queued then ?h1 else release_claim (generation (deref f)) ea ?h1)"
  have h2: "heap_keeps valid L (sm_entries (subjects g1)) (gate_heap g1) h2"
    using heap_keeps_trans [OF h1 release_claim_keeps [OF _ f1 f(2)]] h1 by (simp add: h2_def)
  have "snd (access_finish clk ea f sent g) = set_heap h2 g1"
    by (simp add: access_finish_def g1_def h2_def queued_def Let_def case_prod_beta)
  with gate_keeps_trans [OF g1(1) gate_set_heap] h2 show ?thesis by simp
qed

lemma admission_on_access_keeps:
  assumes inv: "gate_inv valid L g"
  shows "gate_keeps valid L g (snd (admission_on_access clk k ea ad sent g))"
proof -
  obtain claim h where cl: "access_claim (config g) clk k ea ad (gate_heap g) = (claim, h)" by fastforce
  note K = access_claim_keeps [OF gate_invD(1) [OF inv] cl]
  show ?thesis
  proof (cases claim)
    case (Inl admitted)
    with K(1) gate_set_heap [OF inv] show ?thesis by (simp add: admission_on_access_def cl)
  next
    case (Inr x)
    obtain f cur qd where x: "claim = Inr (f, cur, qd)" using Inr by (cases x) auto
    have f: "fetch_issued h f" by (rule K(2) [OF x])
    have refresh: "fetch_refresh_from (deref f) \<noteq> None"
      using cl x by (auto simp: access_claim_def new_fetch_after_def Let_def case_prod_beta
          split: if_splits option.splits)
    obtain answer h2 where rv: "access_revalidate (\<lambda>i. clk (i + 2)) ea f cur h = (answer, h2)" by fastforce
    have h2: "heap_keeps valid L (sm_entries (subjects g)) (gate_heap g) h2"
      using heap_keeps_trans [OF K(1) access_revalidate_keeps [OF _ f refresh rv]] .
    have g2: "gate_keeps valid L g (set_heap h2 g)" by (rule gate_set_heap [OF inv]) (use h2 in auto)
    have f2: "fetch_issued (gate_heap (set_heap h2 g)) f"
      using access_revalidate_keeps [OF conjunct1 [OF K(1)] f refresh rv] fetch_issued_evolves [OF _ f]
      by (simp add: set_heap_def)
    show ?thesis
      using g2 gate_keeps_trans [OF g2 access_finish_keeps [OF _ f2 refresh]]
      by (cases answer) (simp_all add: admission_on_access_def cl x rv [simplified])
  qed
qed

lemma verdict_keeps:
  assumes "gate_inv valid L g"
  shows "gate_keeps valid L g (set_heap (snd (with_entry ea (\<lambda>a. verdict_at a now) d (gate_heap g))) g)"
  by (rule gate_set_heap [OF assms])
    (use observation_keeps [OF verdict_at_action.entry_observation_axioms gate_invD(1) [OF assms]] in auto)

lemma touch_keeps:
  "gate_inv valid L g \<Longrightarrow> gate_keeps valid L g (g\<lparr>subjects := snd (map_touch L k ea now (subjects g))\<rparr>)"
  using gate_subjects map_touch_inv [OF gate_invD(1)] by blast

lemma gate_check_keeps:
  assumes inv: "gate_inv valid L g"
  shows "gate_keeps valid L g (snd (gate_check L clk k sent g))"
proof (cases "snapshot g k")
  case None
  with inv show ?thesis by (simp add: gate_check_def)
next
  case (Some ea)
  let ?v = "with_entry ea (\<lambda>a. verdict_at a (clk 0)) None (gate_heap g)"
  let ?g1 = "set_heap (snd ?v) g"
  let ?g2 = "?g1\<lparr>subjects := snd (map_touch L k ea (clk 1) (subjects ?g1))\<rparr>"
  have "gate_keeps valid L g (snd (admission_on_access (\<lambda>i. clk (i + 2)) k ea None sent ?g2))"
    by (rule gate_keeps_trans [OF gate_keeps_trans [OF verdict_keeps [OF inv] touch_keeps]
          admission_on_access_keeps])
  with verdict_keeps [OF inv] show ?thesis
    by (simp add: gate_check_def Some Let_def case_prod_beta split: option.split)
qed

lemma check_without_refresh_keeps:
  assumes inv: "gate_inv valid L g"
  shows "gate_keeps valid L g (snd (check_without_refresh L clk k g))"
proof (cases "snapshot g k")
  case None
  with inv show ?thesis by (simp add: check_without_refresh_def)
next
  case (Some ea)
  let ?v = "with_entry ea (\<lambda>a. verdict_at a (clk 0)) None (gate_heap g)"
  let ?g1 = "set_heap (snd ?v) g"
  let ?g2 = "?g1\<lparr>subjects := snd (map_touch L k ea (clk 1) (subjects ?g1))\<rparr>"
  let ?h3 = "snd (with_entry ea (\<lambda>a. admission a (clk 2)) False (gate_heap ?g2))"
  have g2: "gate_keeps valid L g ?g2"
    by (rule gate_keeps_trans [OF verdict_keeps [OF inv] touch_keeps])
  have "gate_keeps valid L g (set_heap ?h3 ?g2)"
    by (rule gate_keeps_trans [OF g2], rule gate_set_heap)
      (use admission_keeps [OF gate_invD(1) [of valid L ?g2]] in auto)
  with verdict_keeps [OF inv] show ?thesis
    by (simp add: check_without_refresh_def Some Let_def case_prod_beta split: option.split)
qed

lemma refresh_entry_keeps:
  assumes inv: "gate_inv valid L g"
  shows "gate_keeps valid L g (refresh_entry L clk k ea sent g)"
  using gate_keeps_trans [OF touch_keeps [OF inv] admission_on_access_keeps] touch_keeps [OF inv]
  by (simp add: refresh_entry_def Let_def case_prod_beta)

lemma gate_new_inv:
  assumes "gate_new L cfg now = Some g"
  shows "gate_inv valid L g"
  using assms new
  by (auto simp: gate_new_def subject_map_new_def gate_inv_def map_inv_def slot_refs_def slot_pairs_def
      empty_heap_def split: if_splits) (simp add: empty_heap_ok [unfolded empty_heap_def])

end

end
