(* ===== verification/Admit.thy ===== *)
theory Admit
  imports Gate_Invariant
begin

text \<open>
  The asynchronous admission loop (\<open>GateState::admit\<close> in \<open>src/src/gate.rs\<close>) as a task that
  is polled. A task is suspended at one of the loop's awaits, or, so that the connection
  may change in between, between seeing the connection and publishing its entry
  (\<open>AInsert\<close>), and between publishing it and reading the connection again (\<open>AEntry\<close>).
  Each poll runs the code up to the next such point. What a poll sees of its
  surroundings is its input: the clock, whether the connectivity channel is closed, what
  the joined lookup did, and whether a refresh could be enqueued in time.
\<close>

section \<open>Tasks\<close>

datatype ('k, 'p) admit_pc =
    AConnect
  | AInsert
  | AEntry nat
  | AJoin nat "('k, 'p) pending_fetch arc"
  | ABackoff "instant option"
  | ADone "nat option"

record ('k, 'p) admit_task =
  at_subject :: 'k
  at_deadline :: instant
  at_retry_delay :: duration
  at_pc :: "('k, 'p) admit_pc"

text \<open>
  What the joined \<open>select!\<close> yields: nothing yet, the shared lookup's result (\<open>None\<close> when it
  was aborted), or a change of the connectivity channel.
\<close>

datatype join_event = JPending | JFetched "(source_error + unit) option" | JConnection

record admit_input =
  in_clock :: clock
  in_closed :: bool
  in_event :: join_event
  in_sent :: bool

abbreviation goto :: "('k, 'p) admit_pc \<Rightarrow> ('k, 'p) admit_task \<Rightarrow> ('k, 'p) admit_task" where
  "goto pc t \<equiv> t\<lparr>at_pc := pc\<rparr>"

definition admit_start ::
  "'k \<Rightarrow> instant \<Rightarrow> ('c, 'k, 'p) gate \<Rightarrow> ('k, 'p) admit_task option \<times> ('c, 'k, 'p) gate" where
  "admit_start k now g =
     (case instant_checked_add now (admission_timeout (config g)) of
        None \<Rightarrow> (None, log AdmissionTimeout g)
      | Some deadline \<Rightarrow>
          (Some \<lparr> at_subject = k, at_deadline = deadline,
                  at_retry_delay = initial_admission_retry_delay (config g), at_pc = AConnect \<rparr>, g))"

section \<open>The loop body\<close>

text \<open>Publish or find the subject's entry, and heal snapshot drift.\<close>

definition admit_lookup ::
  "('c, 'k) slot_lru \<Rightarrow> 'k \<Rightarrow> instant \<Rightarrow> ('c, 'k, 'p) gate \<Rightarrow> nat \<times> ('c, 'k, 'p) gate" where
  "admit_lookup L k now g =
     (let ((ea, inserted), m) =
            get_or_insert_with L k now (create_entry (config g) k now) (subjects g);
          g = g\<lparr>subjects := m\<rparr>;
          g = (if inserted then mark_dirty g
               else if snapshot g k = None then mark_dirty g else g)
      in (ea, g))"

text \<open>The two removals: the entry itself, and the entry when it is still stale.\<close>

definition same_entry :: "nat \<Rightarrow> nat \<Rightarrow> ('k, 'p) heap \<Rightarrow> bool \<times> ('k, 'p) heap" where
  "same_entry ea cur h = (cur = ea, h)"

definition same_stale_entry :: "instant \<Rightarrow> nat \<Rightarrow> nat \<Rightarrow> ('k, 'p) heap \<Rightarrow> bool \<times> ('k, 'p) heap" where
  "same_stale_entry now ea cur h =
     (if cur \<noteq> ea then (False, h)
      else let (st, h) = with_entry cur (\<lambda>a. state_at a now) EStale h in (st = EStale, h))"

definition admit_remove ::
  "('c, 'k) slot_lru \<Rightarrow> 'k \<Rightarrow> instant \<Rightarrow> (nat \<Rightarrow> ('k, 'p) heap \<Rightarrow> bool \<times> ('k, 'p) heap)
    \<Rightarrow> ('c, 'k, 'p) gate \<Rightarrow> ('c, 'k, 'p) gate" where
  "admit_remove L k now pred g =
     (let (removed, m) = map_remove_if L k now pred (subjects g); g = g\<lparr>subjects := m\<rparr>
      in if removed then mark_dirty g else g)"

definition observe_state ::
  "instant \<Rightarrow> nat \<Rightarrow> ('c, 'k, 'p) gate \<Rightarrow> entry_state \<times> ('c, 'k, 'p) gate" where
  "observe_state now ea g =
     (let (st, h) = with_entry ea (\<lambda>a. state_at a now) EStale (gate_heap g) in (st, set_heap h g))"

text \<open>\<open>admission_on_access\<close> with the outcome of its caller: return the handle, or \<open>otherwise\<close>.\<close>

definition admit_access ::
  "clock \<Rightarrow> bool \<Rightarrow> nat \<Rightarrow> ('k, 'p) admit_pc \<Rightarrow> ('k, 'p) admit_task \<times> ('c, 'k, 'p) gate
    \<Rightarrow> ('k, 'p) admit_task \<times> ('c, 'k, 'p) gate" where
  "admit_access clk sent ea otherwise = (\<lambda>(t, g).
     (let (admitted, g) = admission_on_access clk (at_subject t) ea (Some (at_deadline t)) sent g
      in if admitted then (goto (ADone (Some ea)) t, g) else (goto otherwise t, g)))"

text \<open>The entry has a lookup in flight: join it, unless it changed while being read.\<close>

definition admit_join ::
  "instant \<Rightarrow> nat \<Rightarrow> ('k, 'p) admit_task \<times> ('c, 'k, 'p) gate
    \<Rightarrow> ('k, 'p) admit_task \<times> ('c, 'k, 'p) gate" where
  "admit_join now ea = (\<lambda>(t, g).
     (case Option.bind (cells (gate_heap g) ea) pending of
        None \<Rightarrow> (goto AConnect t, g)
      | Some fetch \<Rightarrow>
        (let (st, g) = observe_state now ea g;
             same = (case cells (gate_heap g) ea of Some e \<Rightarrow> pending_is e fetch | None \<Rightarrow> False)
         in if st \<noteq> EPending \<or> \<not> same then (goto AConnect t, g) else (goto (AJoin ea fetch) t, g))))"

definition admit_entry ::
  "('c, 'k) slot_lru \<Rightarrow> admit_input \<Rightarrow> nat \<Rightarrow> ('k, 'p) admit_task \<times> ('c, 'k, 'p) gate
    \<Rightarrow> (('k, 'p) admit_task \<times> ('c, 'k, 'p) gate) option" where
  "admit_entry L inp ea = (\<lambda>(t, g).
     (let clk = in_clock inp in
      if clk 0 \<ge> at_deadline t then Some (goto (ADone None) t, log AdmissionTimeout g)
      else if \<not> connected g then
        Some (goto AConnect t, admit_remove L (at_subject t) (clk 0) (same_entry ea) g)
      else
        (let (st, g) = observe_state (clk 1) ea g in
         case st of
           EAllowed \<Rightarrow> Some (admit_access (\<lambda>i. clk (i + 2)) (in_sent inp) ea AConnect (t, log MapHit g))
         | EDenied \<Rightarrow> Some (admit_access (\<lambda>i. clk (i + 2)) (in_sent inp) ea AConnect (t, log MapHit g))
         | EPending \<Rightarrow> Some (admit_join (clk 2) ea (t, g))
         | EStale \<Rightarrow> do {
             g \<leftarrow> republish_if_due L (clk 4)
                    (admit_remove L (at_subject t) (clk 2) (same_stale_entry (clk 3) ea) g);
             Some (goto AConnect t, g)
           })))"

text \<open>The joined lookup has completed with \<open>result\<close>.\<close>

definition admit_joined ::
  "clock \<Rightarrow> bool \<Rightarrow> nat \<Rightarrow> source_error + unit \<Rightarrow> ('k, 'p) admit_task \<times> ('c, 'k, 'p) gate
    \<Rightarrow> ('k, 'p) admit_task \<times> ('c, 'k, 'p) gate" where
  "admit_joined clk sent ea result = (\<lambda>(t, g).
     (if \<not> connected g then (goto AConnect t, g)
      else
        (let (st, g) = observe_state (clk 0) ea g in
         if st = EAllowed \<or> st = EDenied
         then admit_access (\<lambda>i. clk (i + 1)) sent ea AConnect (t, g)
         else case result of
             Inr _ \<Rightarrow> (goto AConnect t, g)
           | Inl err \<Rightarrow>
             if is_permanent_status err then (goto (ADone None) t, g)
             else (goto (ABackoff (instant_checked_add (clk 1) (at_retry_delay t))) t,
                   log AdmissionRetry g))))"

definition next_retry_delay :: "policy_gate_config \<Rightarrow> duration \<Rightarrow> duration" where
  "next_retry_delay cfg d = min (duration_saturating_mul d 2) (max_admission_retry_delay cfg)"

definition admit_poll ::
  "('c, 'k) slot_lru \<Rightarrow> admit_input \<Rightarrow> ('k, 'p) admit_task \<times> ('c, 'k, 'p) gate
    \<Rightarrow> (('k, 'p) admit_task \<times> ('c, 'k, 'p) gate) option" where
  "admit_poll L inp = (\<lambda>(t, g).
     (let clk = in_clock inp in
      case at_pc t of
        AConnect \<Rightarrow>
          if clk 0 \<ge> at_deadline t then Some (goto (ADone None) t, log AdmissionTimeout g)
          else if connected g then Some (goto AInsert t, g)
          else if in_closed inp then Some (goto (ADone None) t, g)
          else Some (t, g)
      | AInsert \<Rightarrow>
          (let (ea, g) = admit_lookup L (at_subject t) (clk 0) g
           in do { g \<leftarrow> republish_if_due L (clk 1) g; Some (goto (AEntry ea) t, g) })
      | AEntry ea \<Rightarrow> admit_entry L inp ea (t, g)
      | AJoin ea fetch \<Rightarrow>
          if clk 0 \<ge> at_deadline t then
            Some (let (t, g) = admit_access (\<lambda>i. clk (i + 1)) (in_sent inp) ea (ADone None) (t, g)
                  in (t, if at_pc t = ADone None then log AdmissionTimeout g else g))
          else (case in_event inp of
                  JPending \<Rightarrow> Some (t, g)
                | JConnection \<Rightarrow> Some (goto AConnect t, g)
                | JFetched None \<Rightarrow> Some (goto AConnect t, g)
                | JFetched (Some result) \<Rightarrow>
                    Some (admit_joined (\<lambda>i. clk (i + 1)) (in_sent inp) ea result (t, g)))
      | ABackoff wake \<Rightarrow>
          if clk 0 \<ge> at_deadline t then Some (goto (ADone None) t, log AdmissionTimeout g)
          else if (case wake of Some w \<Rightarrow> w \<le> clk 0 | None \<Rightarrow> False)
          then Some (t\<lparr>at_pc := AConnect,
                       at_retry_delay := next_retry_delay (config g) (at_retry_delay t)\<rparr>, g)
          else Some (t, g)
      | ADone _ \<Rightarrow> Some (t, g)))"

section \<open>A returned handle is authoritative\<close>

text \<open>The entry at \<open>ea\<close> holds a verdict that has not expired at \<open>now\<close>.\<close>

definition authoritative :: "nat \<Rightarrow> instant \<Rightarrow> ('k, 'p) heap \<Rightarrow> bool" where
  "authoritative ea now h \<longleftrightarrow>
     (case cells h ea of
        None \<Rightarrow> False
      | Some e \<Rightarrow> \<not> is_expired_at e (current_word e) now \<and> current_state e \<in> {EAllowed, EDenied})"

lemma admission_authoritative:
  assumes "fst (with_entry ea (\<lambda>a. admission a now) False h)"
  shows "authoritative ea now (snd (with_entry ea (\<lambda>a. admission a now) False h))"
proof (cases "cells h ea")
  case (Some e)
  then have "\<not> is_expired_at e (current_word e) now" "current_state e \<in> {EAllowed, EDenied}"
    using assms by (simp_all add: with_entry_heap [OF Some] admission_eq)
  moreover from this(1) have "expire (next_addr h) now e = e"
    by (simp add: expire_def current_at_quiet)
  ultimately show ?thesis
    by (simp add: with_entry_heap [OF Some] admission_eq authoritative_def)
qed (use assms in \<open>simp add: with_entry_def\<close>)

lemma authoritative_cells:
  assumes "authoritative ea now h"
    and "\<And>e. cells h ea = Some e \<Longrightarrow> \<exists>e'. cells h' ea = Some e' \<and> current e' = current e \<and> epoch e' = epoch e"
  shows "authoritative ea now h'"
  using assms is_expired_at_frame by (fastforce simp: authoritative_def split: option.splits)

lemma release_claim_cells:
  "cells h a = Some e \<Longrightarrow> \<exists>e'. cells (release_claim gen ea h) a = Some e' \<and> current e' = current e \<and> epoch e' = epoch e"
  by (cases "a = ea") (auto simp: release_claim_def with_entry_def replace_pending_eq
      split: option.split prod.split)

lemma release_claim_authoritative:
  "authoritative ea now h \<Longrightarrow> authoritative ea now (release_claim gen eb h)"
  using authoritative_cells release_claim_cells by blast

lemma access_claim_authoritative:
  assumes r: "access_claim cfg clk k ea ad h = (Inl True, h')"
  shows "authoritative ea (clk 0) h'"
proof -
  let ?a = "with_entry ea (\<lambda>a. admission a (clk 0)) False h"
  have "fst ?a" "cells h' = cells (snd ?a)"
    using r by (auto simp: access_claim_def new_fetch_after_def Let_def case_prod_beta
        split: if_splits option.splits)
  with admission_authoritative [of ea "clk 0" h] show ?thesis
    by (auto intro: authoritative_cells)
qed

lemma access_revalidate_authoritative:
  assumes r: "access_revalidate clk ea f cur h = (Some True, h')"
  shows "authoritative ea (clk 1) h'"
proof -
  let ?a = "with_entry ea (\<lambda>a. admission a (clk 1)) False h"
  have "fst ?a" "h' = release_claim (generation (deref f)) ea (snd ?a)"
    using r by (auto simp: access_revalidate_def Let_def case_prod_beta split: if_splits option.splits)
  with admission_authoritative release_claim_authoritative show ?thesis by blast
qed

lemma access_finish_authoritative:
  assumes r: "access_finish clk ea f sent g = (True, g')"
  shows "authoritative ea (clk 0) (gate_heap g')"
proof -
  let ?a = "with_entry ea (\<lambda>a. admission a (clk 0)) False (gate_heap g)"
  have "fst ?a" "gate_heap g' = snd ?a \<or> gate_heap g' = release_claim (generation (deref f)) ea (snd ?a)"
    using r by (auto simp: access_finish_def set_heap_def Let_def case_prod_beta split: if_splits)
  with admission_authoritative release_claim_authoritative show ?thesis by metis
qed

lemma access_authoritative:
  assumes r: "admission_on_access clk k ea ad sent g = (True, g')"
  shows "\<exists>i \<le> 3. authoritative ea (clk i) (gate_heap g')"
proof -
  obtain claim h where cl: "access_claim (config g) clk k ea ad (gate_heap g) = (claim, h)" by fastforce
  show ?thesis
  proof (cases claim)
    case (Inl admitted)
    with r cl access_claim_authoritative show ?thesis
      by (intro exI [of _ 0]) (auto simp: admission_on_access_def set_heap_def)
  next
    case (Inr x)
    obtain f cur qd where x: "claim = Inr (f, cur, qd)" using Inr by (cases x) auto
    obtain answer h2 where rv: "access_revalidate (\<lambda>i. clk (i + 2)) ea f cur h = (answer, h2)" by fastforce
    show ?thesis
    proof (cases answer)
      case None
      then have "access_finish (\<lambda>i. clk (i + 3)) ea f sent (set_heap h2 g) = (True, g')"
        using r by (simp add: admission_on_access_def cl x rv [simplified])
      from access_finish_authoritative [OF this] show ?thesis by (intro exI [of _ 3]) simp
    next
      case (Some b)
      with r have "b = True" "g' = set_heap h2 g"
        by (simp_all add: admission_on_access_def cl x rv [simplified])
      with access_revalidate_authoritative [of "\<lambda>i. clk (i + 2)" ea f cur h h2] rv Some
      show ?thesis by (intro exI [of _ 3]) (simp add: set_heap_def numeral_3_eq_3)
    qed
  qed
qed

lemma observe_state_verdict:
  "observe_state now ea g = (st, g') \<Longrightarrow> config g' = config g \<and> connected g' = connected g"
  by (auto simp: observe_state_def set_heap_def case_prod_beta)

lemma admit_access_done:
  assumes "admit_access clk sent ea otherwise (t, g) = (t', g')" "at_pc t' = ADone (Some eb)"
    and "otherwise \<noteq> ADone (Some eb)"
  shows "eb = ea \<and> (\<exists>i. authoritative ea (clk i) (gate_heap g'))"
  using assms access_authoritative [of clk "at_subject t" ea "Some (at_deadline t)" sent g]
  by (auto simp: admit_access_def split: prod.splits if_splits)

lemma admit_done_authoritative:
  assumes "admit_poll L inp (t, g) = Some (t', g')" and "at_pc t' = ADone (Some ea)"
    and "at_pc t \<noteq> ADone (Some ea)"
  shows "(\<exists>i. authoritative ea (in_clock inp i) (gate_heap g'))
    \<and> (at_pc t = AEntry ea \<or> (\<exists>f. at_pc t = AJoin ea f))"
proof (cases "at_pc t")
  case AConnect
  with assms show ?thesis by (auto simp: admit_poll_def Let_def split: if_splits)
next
  case AInsert
  with assms show ?thesis
    by (auto simp: admit_poll_def Let_def split: prod.splits Option.bind_splits)
next
  case (ABackoff w)
  with assms show ?thesis by (auto simp: admit_poll_def Let_def split: if_splits)
next
  case (ADone r)
  with assms show ?thesis by (auto simp: admit_poll_def)
next
  case (AEntry eb)
  with assms obtain g1 where "admit_access (\<lambda>i. in_clock inp (i + 2)) (in_sent inp) eb AConnect (t, g1) = (t', g')"
    by (auto simp: admit_poll_def admit_entry_def admit_join_def Let_def
        split: if_splits prod.splits entry_state.splits option.splits Option.bind_splits)
  from admit_access_done [OF this assms(2)] AEntry show ?thesis by auto
next
  case (AJoin eb f)
  show ?thesis
  proof (cases "in_clock inp 0 \<ge> at_deadline t")
    case True
    let ?r = "admit_access (\<lambda>i. in_clock inp (i + 1)) (in_sent inp) eb (ADone None) (t, g)"
    have "at_pc (fst ?r) = ADone (Some ea)" "gate_heap g' = gate_heap (snd ?r)"
      using assms AJoin True
      by (auto simp: admit_poll_def log_def Let_def split: prod.splits if_splits)
    with admit_access_done [of "\<lambda>i. in_clock inp (i + 1)" "in_sent inp" eb "ADone None" t g "fst ?r" "snd ?r" ea]
    show ?thesis using AJoin by auto
  next
    case False
    with assms AJoin obtain result where
      J: "admit_joined (\<lambda>i. in_clock inp (i + 1)) (in_sent inp) eb result (t, g) = (t', g')"
      by (auto simp: admit_poll_def Let_def split: join_event.splits option.splits)
    then obtain g1 where "admit_access (\<lambda>i. in_clock inp (i + 2)) (in_sent inp) eb AConnect (t, g1) = (t', g')"
      using assms(2) by (auto simp: admit_joined_def Let_def split: if_splits prod.splits sum.splits)
    from admit_access_done [OF this assms(2)] AJoin show ?thesis by auto
  qed
qed

text \<open>
  C6: a handle that \<open>admit\<close> returns is backed by an authoritative decision: at one of the
  poll's own clock readings the entry holds an allowed or denied verdict that has not
  expired, and the gate was not waiting for its connection.
\<close>

theorem admit_returns_authoritative:
  assumes "admit_poll L inp (t, g) = Some (t', g')" and "at_pc t' = ADone (Some ea)"
    and "at_pc t \<noteq> ADone (Some ea)"
  shows "(\<exists>i. authoritative ea (in_clock inp i) (gate_heap g'))
    \<and> (at_pc t = AEntry ea \<or> (\<exists>f. at_pc t = AJoin ea f))"
  by (rule admit_done_authoritative [OF assms])

section \<open>Deadline, backoff and joins\<close>


interpretation admission_backoff: backoff "next_retry_delay cfg" "max_admission_retry_delay cfg" for cfg
  by unfold_locales (simp add: next_retry_delay_def)

text \<open>
  The admission retries back off exponentially: the delay before retry \<open>n + 1\<close> is the
  initial delay times \<open>2 ^ n\<close>, cut off at the configured maximum, without overflow.
\<close>

lemma admission_retry_delays:
  assumes "initial_admission_retry_delay cfg \<le> max_admission_retry_delay cfg"
    and "max_admission_retry_delay cfg \<le> DURATION_MAX"
  shows "(next_retry_delay cfg ^^ n) (initial_admission_retry_delay cfg) =
    min (initial_admission_retry_delay cfg * 2 ^ n) (max_admission_retry_delay cfg)"
  using admission_backoff.iterate [of "initial_admission_retry_delay cfg" cfg n] assms
  by (simp add: min_absorb1)

lemma pending_entry_quiet:
  assumes "gate_inv valid L g" "cells (gate_heap g) ea = Some e" "current_state e = EPending"
  shows "observe_state now ea g = (EPending, set_heap ((gate_heap g)\<lparr>next_addr := Suc (next_addr (gate_heap g))\<rparr>) g)"
    and "\<exists>p. pending e = Some p"
proof -
  have ok: "entry_ok (next_addr (gate_heap g)) ea e"
    by (rule heap_okD(2) [OF gate_invD(2) [OF assms(1)] assms(2)])
  then show "\<exists>p. pending e = Some p" using assms(3) by (auto simp: entry_ok_def)
  have "\<not> is_expired_at e (current_word e) now" using entry_ok_pending_not_expired [OF ok assms(3)] .
  then show "observe_state now ea g = (EPending, set_heap ((gate_heap g)\<lparr>next_addr := Suc (next_addr (gate_heap g))\<rparr>) g)"
    using assms(2,3)
    by (simp add: observe_state_def with_entry_heap [OF assms(2)] state_at_eq expire_def current_at_quiet
        fun_upd_idem)
qed

text \<open>A poll that finds its entry pending joins the entry's lookup.\<close>

lemma admit_join_poll:
  assumes "gate_inv valid L g" and "cells (gate_heap g) ea = Some e" "current_state e = EPending"
    and "at_pc t = AEntry ea" "connected g" "in_clock inp 0 < at_deadline t"
  shows "\<exists>f g'. admit_poll L inp (t, g) = Some (goto (AJoin ea f) t, g')
    \<and> pending e = Some f \<and> fetch_entry (deref f) = ea
    \<and> generation (deref f) \<notin> set (aborted (gate_heap g))
    \<and> cells (gate_heap g') = cells (gate_heap g)"
proof -
  note Q = pending_entry_quiet [OF assms(1-3)]
  from Q(2) obtain f where f: "pending e = Some f" by blast
  note H = gate_invD(2) [OF assms(1)]
  have "fetch_entry (deref f) = ea" "generation (deref f) \<notin> set (aborted (gate_heap g))"
    using heap_okD(2,3) [OF H assms(2)] f by (auto simp: entry_ok_def pending_ok_def)
  moreover define g1 where "g1 = set_heap ((gate_heap g)\<lparr>next_addr := Suc (next_addr (gate_heap g))\<rparr>) g"
  then have c1: "cells (gate_heap g1) = cells (gate_heap g)" by (simp add: set_heap_def)
  have "gate_inv valid L g1"
    unfolding g1_def using gate_set_heap [OF assms(1)] map_inv_bump [OF gate_invD(1) [OF assms(1)]] by simp
  from pending_entry_quiet [OF this _ assms(3), of ea] c1 assms(2) obtain g2 where
    g2: "observe_state (in_clock inp 2) ea g1 = (EPending, g2)" "cells (gate_heap g2) = cells (gate_heap g)"
    by (simp add: set_heap_def)
  have "admit_poll L inp (t, g) = Some (goto (AJoin ea f) t, g2)"
    using assms(4-6) g2 f Q(1) [of "in_clock inp 1", folded g1_def] assms(2) c1
    by (simp add: admit_poll_def admit_entry_def admit_join_def pending_is_def Let_def)
  ultimately show ?thesis using f g2(2) by blast
qed

section \<open>Polls keep the invariant\<close>

lemma observe_keeps:
  assumes "gate_inv valid L g"
  shows "gate_keeps valid L g (snd (observe_state now ea g))"
  using gate_set_heap [OF assms]
    observation_keeps [OF state_at_action.entry_observation_axioms gate_invD(1) [OF assms]]
  by (simp add: observe_state_def case_prod_beta)

interpretation same_action: entry_observation "\<lambda>cur h. snd (same_entry ea cur h)" for ea
  by unfold_locales (simp_all add: same_entry_def)

interpretation same_stale_action: entry_observation "\<lambda>cur h. snd (same_stale_entry now ea cur h)" for now ea
proof
  fix h :: "('a, 'b) heap" and cur b e
  have eq: "snd (same_stale_entry now ea cur h) =
      (if cur \<noteq> ea then h else snd (with_entry cur (\<lambda>a. state_at a now) EStale h))"
    by (simp add: same_stale_entry_def case_prod_beta)
  show "heap_ok h \<Longrightarrow> heap_ok (snd (same_stale_entry now ea cur h))"
    and "heap_ok h \<Longrightarrow> heap_evolves h (snd (same_stale_entry now ea cur h))"
    and "b \<noteq> cur \<Longrightarrow> cells (snd (same_stale_entry now ea cur h)) b = cells h b"
    and "cells h cur = None \<Longrightarrow> cells (snd (same_stale_entry now ea cur h)) cur = None"
    and "cells h cur = Some e \<Longrightarrow> retired e \<Longrightarrow>
      \<exists>e'. cells (snd (same_stale_entry now ea cur h)) cur = Some e' \<and> retired e'"
    unfolding eq using state_at_action.act_ok [of h] state_at_action.act_evolves [of h]
      state_at_action.act_frame [of b cur] state_at_action.act_dangling [of h cur]
      state_at_action.act_retired [of h cur e] by auto
qed

lemma admit_join_keeps:
  assumes "gate_inv valid L g"
  shows "gate_keeps valid L g (snd (admit_join now ea (t, g)))"
  using observe_keeps [OF assms] assms
  by (simp add: admit_join_def Let_def case_prod_beta split: option.split)

context subject_cache
begin

lemma admit_access_keeps:
  assumes "gate_inv valid L g"
  shows "gate_keeps valid L g (snd (admit_access clk sent ea otherwise (t, g)))"
  using admission_on_access_keeps [OF assms]
  by (simp add: admit_access_def case_prod_beta)

lemma admit_joined_keeps:
  assumes inv: "gate_inv valid L g"
  shows "gate_keeps valid L g (snd (admit_joined clk sent ea result (t, g)))"
proof -
  define g1 where "g1 = snd (observe_state (clk 0) ea g)"
  have g1: "gate_keeps valid L g g1" unfolding g1_def by (rule observe_keeps [OF inv])
  with gate_keeps_trans [OF g1 admit_access_keeps] inv show ?thesis
    by (simp add: admit_joined_def Let_def case_prod_beta g1_def [symmetric] gate_frame split: sum.split)
qed

lemma admit_lookup_keeps:
  assumes inv: "gate_inv valid L g"
  shows "gate_keeps valid L g (snd (admit_lookup L k now g))"
proof -
  let ?m = "snd (get_or_insert_with L k now (create_entry (config g) k now) (subjects g))"
  have "gate_keeps valid L g (g\<lparr>subjects := ?m\<rparr>)"
    using gate_subjects [OF inv] get_or_insert_with_inv [OF gate_invD(1) [OF inv] create_entry_creation]
    by blast
  then show ?thesis
    by (simp add: admit_lookup_def Let_def case_prod_beta gate_frame)
qed

lemma admit_remove_keeps:
  assumes inv: "gate_inv valid L g" and act: "entry_action (\<lambda>ea h. snd (pred ea h))"
  shows "gate_keeps valid L g (admit_remove L k now pred g)"
  using gate_subjects [OF inv] map_remove_if_inv [OF gate_invD(1) [OF inv] act]
  by (simp add: admit_remove_def Let_def case_prod_beta gate_frame)

lemma admit_entry_keeps:
  assumes inv: "gate_inv valid L g" and r: "admit_entry L inp ea (t, g) = Some (t', g')"
  shows "gate_keeps valid L g g'"
proof (cases "in_clock inp 0 \<ge> at_deadline t \<or> \<not> connected g")
  case True
  with r inv admit_remove_keeps [OF inv same_action.entry_action_axioms] show ?thesis
    by (auto simp: admit_entry_def Let_def gate_frame split: if_splits)
next
  case False
  let ?o = "observe_state (in_clock inp 1) ea g"
  have o: "gate_keeps valid L g (snd ?o)" by (rule observe_keeps [OF inv])
  have access: "gate_keeps valid L g (snd (admit_access clk sent ea pc (t, log MapHit (snd ?o))))" for clk sent pc
    by (rule gate_keeps_trans [OF _ admit_access_keeps]) (use o in \<open>simp_all add: gate_frame\<close>)
  then have served: "gate_keeps valid L g g'"
    if "admit_access clk sent ea pc (t, log MapHit (snd ?o)) = (t', g')" for clk sent pc
    using that by (metis snd_conv)
  show ?thesis
  proof (cases "fst ?o")
    case EPending
    with False r have "g' = snd (admit_join (in_clock inp 2) ea (t, snd ?o))"
      by (simp add: admit_entry_def Let_def case_prod_beta)
    with gate_keeps_trans [OF o admit_join_keeps] show ?thesis by simp
  next
    case EStale
    with False r have "republish_if_due L (in_clock inp 4)
        (admit_remove L (at_subject t) (in_clock inp 2) (same_stale_entry (in_clock inp 3) ea) (snd ?o)) = Some g'"
      by (auto simp: admit_entry_def Let_def case_prod_beta split: Option.bind_splits)
    with gate_keeps_trans [OF gate_keeps_trans [OF o admit_remove_keeps
        [OF _ same_stale_action.entry_action_axioms]] republish_keeps] show ?thesis by blast
  qed (rule served, use False r in \<open>simp add: admit_entry_def Let_def case_prod_beta\<close>)+
qed

lemma admit_poll_keeps:
  assumes inv: "gate_inv valid L g" and r: "admit_poll L inp (t, g) = Some (t', g')"
  shows "gate_keeps valid L g g'"
proof (cases "at_pc t")
  case AInsert
  with r have "republish_if_due L (in_clock inp 1)
      (snd (admit_lookup L (at_subject t) (in_clock inp 0) g)) = Some g'"
    by (auto simp: admit_poll_def Let_def case_prod_beta split: Option.bind_splits)
  with gate_keeps_trans [OF admit_lookup_keeps [OF inv] republish_keeps] show ?thesis by blast
next
  case (AEntry ea)
  with r show ?thesis using admit_entry_keeps [OF inv] by (simp add: admit_poll_def Let_def)
next
  case (AJoin ea f)
  with r inv admit_access_keeps [OF inv] admit_joined_keeps [OF inv] show ?thesis
    by (auto simp: admit_poll_def Let_def case_prod_beta gate_frame
        split: if_splits join_event.splits option.splits)
      (metis snd_conv)+
qed (use r inv in \<open>auto simp: admit_poll_def Let_def gate_frame split: if_splits\<close>)

end

end
