(* ===== verification/Watcher.thy ===== *)
theory Watcher
  imports Admit
begin

text \<open>
  The decision watcher (\<open>src/src/watcher.rs\<close>): the health status, the jittered reconnect
  backoff, and the watch loop as a step relation. Each step is what the loop does between
  two of its awaits; the events it can meet are the constructors of the relation. The
  gate the loop works on is shared, and the environment's steps on it are added in
  theory \<open>System\<close>.
\<close>

section \<open>Health\<close>

datatype health_status = HStable | HNotYetStable | HFailed

definition health_status :: "instant \<Rightarrow> duration \<Rightarrow> instant option \<Rightarrow> health_status" where
  "health_status now budget down_since =
     (case down_since of
        None \<Rightarrow> HStable
      | Some since \<Rightarrow>
          if saturating_duration_since now since \<ge> budget then HFailed else HNotYetStable)"

section \<open>Reconnect delays\<close>

definition next_reconnect_delay :: "policy_gate_config \<Rightarrow> duration \<Rightarrow> duration" where
  "next_reconnect_delay cfg d = min (duration_saturating_mul d 2) (max_reconnect_delay cfg)"

interpretation reconnect_backoff: backoff "next_reconnect_delay cfg" "max_reconnect_delay cfg" for cfg
  by unfold_locales (simp add: next_reconnect_delay_def)

text \<open>
  \<open>jitter\<close>; the random word is an argument. The \<open>u64\<close> arithmetic wraps, as it does in a
  release build.
\<close>

definition jitter :: "u64 \<Rightarrow> duration \<Rightarrow> duration" where
  "jitter rng delay =
     (let millis = (case u64_try_from (delay div 10 ^ 6) of Some n \<Rightarrow> n | None \<Rightarrow> U64_MAX);
          spread = millis div 2
      in if spread = 0 then delay
         else from_millis (unat (millis - spread div 2 + rng mod spread)))"

lemma unat_jitter:
  fixes m r :: u64
  assumes m: "2 \<le> unat m" "5 * unat m \<le> 2 ^ 66"
  shows "unat (m - (m div 2) div 2 + r mod (m div 2)) =
    unat m - unat m div 4 + unat r mod (unat m div 2)"
proof -
  have half: "unat (m div 2) = unat m div 2" "unat ((m div 2) div 2) = unat m div 4"
    by (simp_all add: unat_div)
  have le: "(m div 2) div 2 \<le> m" by (simp add: word_le_nat_alt half)
  have sub: "unat (m - (m div 2) div 2) = unat m - unat m div 4"
    by (simp add: unat_sub [OF le] half)
  have mod: "unat (r mod (m div 2)) = unat r mod (unat m div 2)" by (simp add: unat_mod half)
  have "unat r mod (unat m div 2) < unat m div 2" using m(1) by simp
  moreover have "n - n div 4 + q < 2 ^ 64" if "q < n div 2" "5 * n \<le> 2 ^ 66" for n q :: nat
    using that unfolding power_numeral_even power_numeral_odd by simp
  ultimately have "unat m - unat m div 4 + unat r mod (unat m div 2) < 2 ^ 64" using m(2) by blast
  then show ?thesis using unat_add_u64 [of "m - (m div 2) div 2" "r mod (m div 2)"] by (simp add: sub mod)
qed

lemma quarter_spread:
  assumes "q < n div (2 :: nat)"
  shows "3 * n \<le> 4 * (n - n div 4 + q)" "4 * (n - n div 4 + q) < 5 * n"
proof -
  define c where "c = n - n div 4"
  have "4 * c \<ge> 3 * n" "4 * c \<le> 3 * n + 3" "2 * q + 2 \<le> n" using assms unfolding c_def by linarith+
  then have "3 * n \<le> 4 * (c + q)" "4 * (c + q) < 5 * n" by simp_all
  then show "3 * n \<le> 4 * (n - n div 4 + q)" "4 * (n - n div 4 + q) < 5 * n" by (simp_all add: c_def)
qed

lemma jitter_millis:
  assumes d: "d = ms * 10 ^ 6" and ms: "2 \<le> ms" "5 * ms \<le> 2 ^ 66"
  shows "jitter rng d = (ms - ms div 4 + unat rng mod (ms div 2)) * 10 ^ 6"
proof -
  have lt: "ms < 2 ^ 64" using ms(2) by simp
  then have m: "unat (of_nat ms :: u64) = ms" by (simp add: unat_of_nat take_bit_eq_mod)
  have "u64_try_from (d div 10 ^ 6) = Some (of_nat ms)" using lt by (simp add: d u64_try_from_def)
  moreover have "(of_nat ms :: u64) div 2 \<noteq> 0"
    using ms(1) m by (simp add: word_unat_eq_iff unat_div)
  ultimately show ?thesis
    using unat_jitter [of "of_nat ms" rng] ms m by (simp add: jitter_def Let_def from_millis_def)
qed

section \<open>The watch loop\<close>

datatype ('k, 'p) watch_pc =
    WOpening "instant option"
  | WOpen "instant option" bool "('k, 'p) pending_fetch arc list"
  | WYield "instant option" bool "('k, 'p) pending_fetch arc list"
  | WBackoff "instant option"
  | WDropped

text \<open>
  The loop's locals. An open watch keeps its stability timer, whether the timer has fired,
  and the refreshes it drives.
\<close>

record ('k, 'p) watcher =
  w_reconnect_delay :: duration
  w_events_since_yield :: nat
  w_pc :: "('k, 'p) watch_pc"

definition watch_start :: "policy_gate_config \<Rightarrow> instant \<Rightarrow> ('k, 'p) watcher" where
  "watch_start cfg now =
     \<lparr> w_reconnect_delay = initial_reconnect_delay cfg, w_events_since_yield = 0,
       w_pc = WOpening (instant_checked_add now (admission_timeout cfg)) \<rparr>"

definition watch_opened ::
  "('c, 'k) slot_lru \<Rightarrow> instant \<Rightarrow> ('k, 'p) watcher \<times> ('c, 'k, 'p) gate
    \<Rightarrow> ('k, 'p) watcher \<times> ('c, 'k, 'p) gate" where
  "watch_opened L now = (\<lambda>(w, g).
     (w\<lparr>w_events_since_yield := 0,
        w_pc := WOpen (instant_checked_add now (max_reconnect_delay (config g))) False []\<rparr>,
      watch_connected L g))"

text \<open>The tail of the outer loop: mark the gate disconnected and sleep the jittered delay.\<close>

definition watch_closed ::
  "('c, 'k) slot_lru \<Rightarrow> clock \<Rightarrow> u64 \<Rightarrow> ('k, 'p) watcher \<times> ('c, 'k, 'p) gate
    \<Rightarrow> ('k, 'p) watcher \<times> ('c, 'k, 'p) gate" where
  "watch_closed L clk rng = (\<lambda>(w, g).
     (w\<lparr>w_pc := WBackoff (instant_checked_add (clk 1) (jitter rng (w_reconnect_delay w)))\<rparr>,
      watch_disconnected L (clk 0) g))"

definition wire_metric :: "source_error \<Rightarrow> ('c, 'k, 'p) gate \<Rightarrow> ('c, 'k, 'p) gate" where
  "wire_metric err g = (if kind err = Wire then log WireFailure g else g)"

definition watch_open_failed ::
  "('c, 'k) slot_lru \<Rightarrow> clock \<Rightarrow> u64 \<Rightarrow> source_error option \<Rightarrow> ('k, 'p) watcher \<times> ('c, 'k, 'p) gate
    \<Rightarrow> ('k, 'p) watcher \<times> ('c, 'k, 'p) gate" where
  "watch_open_failed L clk rng err = (\<lambda>(w, g).
     (let g = (case err of Some e \<Rightarrow> wire_metric e g | None \<Rightarrow> g)
      in watch_closed L clk rng (w, log WatchOpenFailure g)))"

text \<open>An item of the open stream: a change, an error, or its end.\<close>

definition watch_item ::
  "('c, 'k) slot_lru \<Rightarrow> clock \<Rightarrow> u64 \<Rightarrow> (source_error + 'k decision_change) option
    \<Rightarrow> instant option \<Rightarrow> bool \<Rightarrow> ('k, 'p) pending_fetch arc list
    \<Rightarrow> ('k, 'p) watcher \<times> ('c, 'k, 'p) gate
    \<Rightarrow> (('k, 'p) watcher \<times> ('c, 'k, 'p) gate) option" where
  "watch_item L clk rng item timer settled refreshes = (\<lambda>(w, g).
     (case item of
        None \<Rightarrow> Some (watch_closed L clk rng (w, log WatchDisconnect g))
      | Some (Inl err) \<Rightarrow> Some (watch_closed L clk rng (w, log WatchDisconnect (wire_metric err g)))
      | Some (Inr change) \<Rightarrow> do {
          g \<leftarrow> apply_change L clk change g;
          (let g = log WatchEvent g; n = w_events_since_yield w + 1
           in if n = watch_events_per_yield (config g)
              then Some (w\<lparr>w_events_since_yield := 0, w_pc := WYield timer settled refreshes\<rparr>, g)
              else Some (w\<lparr>w_events_since_yield := n\<rparr>, g))
        }))"

inductive watch_step ::
  "('c, 'k) slot_lru \<Rightarrow> ('k, 'p) watcher \<times> ('c, 'k, 'p) gate \<Rightarrow> ('k, 'p) watcher \<times> ('c, 'k, 'p) gate \<Rightarrow> bool"
  for L :: "('c, 'k) slot_lru" where
  opened: "w_pc w = WOpening d \<Longrightarrow> (case d of Some t \<Rightarrow> now < t | None \<Rightarrow> True) \<Longrightarrow>
    watch_step L (w, g) (watch_opened L now' (w, g))"
| open_failed: "w_pc w = WOpening d \<Longrightarrow> (case d of Some t \<Rightarrow> clk 0 < t | None \<Rightarrow> True) \<Longrightarrow>
    watch_step L (w, g) (watch_open_failed L (\<lambda>i. clk (Suc i)) rng (Some err) (w, g))"
| open_timed_out: "w_pc w = WOpening (Some t) \<Longrightarrow> t \<le> clk 0 \<Longrightarrow>
    watch_step L (w, g) (watch_open_failed L (\<lambda>i. clk (Suc i)) rng None (w, g))"
| stable: "w_pc w = WOpen (Some t) False refreshes \<Longrightarrow> t \<le> now \<Longrightarrow>
    watch_step L (w, g)
      (w\<lparr>w_reconnect_delay := initial_reconnect_delay (config g), w_pc := WOpen (Some t) True refreshes\<rparr>,
       watch_stable g)"
| batch: "w_pc w = WOpen timer settled refreshes \<Longrightarrow> refresh_queue g \<noteq> [] \<Longrightarrow>
    n = min (length (refresh_queue g)) (refresh_queue_capacity (config g)) \<Longrightarrow> 0 < n \<Longrightarrow>
    watch_step L (w, g)
      (w\<lparr>w_pc := WOpen timer settled (refreshes @ take n (refresh_queue g))\<rparr>,
       g\<lparr>refresh_queue := drop n (refresh_queue g)\<rparr>)"
| refresh_done: "w_pc w = WOpen timer settled refreshes \<Longrightarrow> f \<in> set refreshes \<Longrightarrow>
    run_fetch L clk f outcome g = Some (r, g') \<Longrightarrow>
    watch_step L (w, g) (w\<lparr>w_pc := WOpen timer settled (remove1 f refreshes)\<rparr>, g')"
| item: "w_pc w = WOpen timer settled refreshes \<Longrightarrow>
    watch_item L clk rng it timer settled refreshes (w, g) = Some s' \<Longrightarrow> watch_step L (w, g) s'"
| yielded: "w_pc w = WYield timer settled refreshes \<Longrightarrow>
    watch_step L (w, g) (w\<lparr>w_pc := WOpen timer settled refreshes\<rparr>, g)"
| reconnect: "w_pc w = WBackoff (Some t) \<Longrightarrow> t \<le> now \<Longrightarrow>
    watch_step L (w, g)
      (w\<lparr>w_reconnect_delay := next_reconnect_delay (config g) (w_reconnect_delay w),
         w_pc := WOpening (instant_checked_add now' (admission_timeout (config g)))\<rparr>, g)"
| dropped: "w_pc w \<noteq> WDropped \<Longrightarrow>
    watch_step L (w, g) (w\<lparr>w_pc := WDropped\<rparr>, watch_disconnected L now g)"

inductive_cases watch_stepE: "watch_step L (w, g) (w', g')"

inductive_simps watch_step_dropped: "watch_step L (w\<lparr>w_pc := WDropped\<rparr>, g) s'"

section \<open>Jitter\<close>

text \<open>
  C29: the jittered delay spreads over a quarter around the reconnect delay, for every delay
  of whole milliseconds up to 4/5 of the u64 range: it is at least three quarters of the
  delay and less than five quarters of it, whatever the random word. The delay is
  never collapsed to zero, so a failing source is not hammered.
\<close>

theorem jitter_bounds:
  assumes "2 \<le> ms" "5 * ms \<le> 2 ^ 66"
  shows "3 * (ms * 10 ^ 6) \<le> 4 * jitter rng (ms * 10 ^ 6) \<and> 4 * jitter rng (ms * 10 ^ 6) < 5 * (ms * 10 ^ 6)"
proof -
  have "unat rng mod (ms div 2) < ms div 2" using assms(1) by simp
  then have "3 * ms \<le> 4 * (ms - ms div 4 + unat rng mod (ms div 2))"
    "4 * (ms - ms div 4 + unat rng mod (ms div 2)) < 5 * ms"
    using quarter_spread by blast+
  then show ?thesis
    unfolding jitter_millis [OF refl assms] by simp
qed


end
