(* ===== verification/System.thy ===== *)
theory System
  imports Watcher
begin

text \<open>
  The gate with its watcher and its clients as one transition system. \<open>gate_step\<close> is what
  requests, streams, handles and lookup futures do to the shared state, with any
  arguments, clock readings and results; \<open>sys_step\<close> interleaves these steps with the
  watch loop. The system invariant holds in every reachable state.
\<close>

section \<open>Client steps\<close>

definition observe_handle :: "instant \<Rightarrow> nat \<Rightarrow> ('c, 'k, 'p) gate \<Rightarrow> ('c, 'k, 'p) gate" where
  "observe_handle now ea g = set_heap (snd (with_entry ea (\<lambda>a. observed_at a now) None (gate_heap g))) g"

definition invalidate_handle :: "nat \<Rightarrow> ('c, 'k, 'p) gate \<Rightarrow> ('c, 'k, 'p) gate" where
  "invalidate_handle ea g = set_heap (heap_invalidate ea (gate_heap g)) g"

text \<open>A future waiting for queue capacity is dropped: its guard releases the claim.\<close>

definition drop_enqueue :: "nat \<Rightarrow> ('k, 'p) pending_fetch arc \<Rightarrow> ('c, 'k, 'p) gate \<Rightarrow> ('c, 'k, 'p) gate" where
  "drop_enqueue ea f g = set_heap (release_claim (generation (deref f)) ea (gate_heap g)) g"

inductive gate_step ::
  "('c, 'k) slot_lru \<Rightarrow> ('c, 'k, 'p) gate \<Rightarrow> ('c, 'k, 'p) gate \<Rightarrow> bool"
  for L :: "('c, 'k) slot_lru" where
  cached: "gate_step L g (snd (gate_check L clk k sent g))"
| cached_sync: "gate_step L g (snd (check_without_refresh L clk k g))"
| refresh: "gate_step L g (refresh_entry L clk k ea sent g)"
| admit: "admit_poll L inp (t, g) = Some (t', g') \<Longrightarrow> gate_step L g g'"
| fetch: "fetch_issued (gate_heap g) f \<Longrightarrow> run_fetch L clk f outcome g = Some (r, g') \<Longrightarrow> gate_step L g g'"
| observe: "gate_step L g (observe_handle now ea g)"
| invalidate: "gate_step L g (invalidate_handle ea g)"
| drop: "fetch_issued (gate_heap g) f \<Longrightarrow> fetch_refresh_from (deref f) \<noteq> None \<Longrightarrow>
    gate_step L g (drop_enqueue ea f g)"
| report: "gate_step L g (log x g)"

inductive sys_step ::
  "('c, 'k) slot_lru \<Rightarrow> ('k, 'p) watcher \<times> ('c, 'k, 'p) gate \<Rightarrow> ('k, 'p) watcher \<times> ('c, 'k, 'p) gate \<Rightarrow> bool"
  for L :: "('c, 'k) slot_lru" where
  client: "gate_step L g g' \<Longrightarrow> sys_step L (w, g) (w, g')"
| watch: "watch_step L s s' \<Longrightarrow> sys_step L s s'"

inductive sys_reachable ::
  "('c, 'k) slot_lru \<Rightarrow> policy_gate_config \<Rightarrow> ('k, 'p) watcher \<times> ('c, 'k, 'p) gate \<Rightarrow> bool"
  for L :: "('c, 'k) slot_lru" and cfg :: policy_gate_config where
  start: "gate_new L cfg now = Some g \<Longrightarrow> sys_reachable L cfg (watch_start cfg now', g)"
| step: "sys_reachable L cfg s \<Longrightarrow> sys_step L s s' \<Longrightarrow> sys_reachable L cfg s'"

section \<open>What clients cannot change\<close>

text \<open>
  The watch state and the configuration. The refresh queue stays within its bound, and the
  time of the next rebuild is never brought forward.
\<close>

definition queue_bounded :: "('c, 'k, 'p) gate \<Rightarrow> bool" where
  "queue_bounded g \<longleftrightarrow> length (refresh_queue g) \<le> refresh_queue_capacity (config g)"

definition same_watch :: "('c, 'k, 'p) gate \<Rightarrow> ('c, 'k, 'p) gate \<Rightarrow> bool" where
  "same_watch g g' \<longleftrightarrow>
     connected g' = connected g \<and> disconnected_since g' = disconnected_since g \<and>
     config g' = config g \<and> publish_generation g' = publish_generation g \<and>
     next_allowed g \<le> next_allowed g' \<and>
     (queue_bounded g \<longrightarrow> queue_bounded g')"

lemma queue_bounded_fields [simp]:
  "queue_bounded (set_heap h g) = queue_bounded g" "queue_bounded (log x g) = queue_bounded g"
  "queue_bounded (mark_dirty g) = queue_bounded g" "queue_bounded (g\<lparr>subjects := m\<rparr>) = queue_bounded g"
  "queue_bounded (g\<lparr>next_allowed := t\<rparr>) = queue_bounded g" "queue_bounded (g\<lparr>metrics := xs\<rparr>) = queue_bounded g"
  "queue_bounded (republish_store gen en g) = queue_bounded g"
  "queue_bounded (republish_clear_dirty g) = queue_bounded g"
  by (simp_all add: queue_bounded_def set_heap_def log_def mark_dirty_def republish_store_def
      republish_clear_dirty_def)

lemma same_watch_refl [simp]: "same_watch g g"
  by (simp add: same_watch_def)

lemma same_watch_trans: "same_watch g g' \<Longrightarrow> same_watch g' g'' \<Longrightarrow> same_watch g g''"
  by (simp add: same_watch_def)

lemma same_watch_fields [simp]:
  "same_watch g (set_heap h g') = same_watch g g'" "same_watch g (log x g') = same_watch g g'"
  "same_watch g (mark_dirty g') = same_watch g g'" "same_watch g (g'\<lparr>subjects := m\<rparr>) = same_watch g g'"
  "same_watch g (republish_store gen en g') = same_watch g g'"
  "same_watch g (republish_clear_dirty g') = same_watch g g'"
  unfolding same_watch_def queue_bounded_fields
  by (simp_all add: set_heap_def log_def mark_dirty_def republish_store_def republish_clear_dirty_def)

lemma same_watch_claim: "next_allowed g \<le> t \<Longrightarrow> same_watch g (g\<lparr>next_allowed := t\<rparr>)"
  by (simp add: same_watch_def)

lemma republish_same_watch: "republish_if_due L now g = Some g' \<Longrightarrow> same_watch g g'"
  by (auto simp: republish_if_due_def republish_claim_def Let_def instant_checked_add_def
      intro!: same_watch_claim split: if_splits Option.bind_splits)

lemma same_watch_enqueue:
  "length q \<le> refresh_queue_capacity (config g) \<Longrightarrow> same_watch g (g\<lparr>refresh_queue := q\<rparr>)"
  by (simp add: same_watch_def queue_bounded_def)

lemma access_finish_same_watch: "same_watch g (snd (access_finish clk ea refresh sent g))"
  by (simp add: access_finish_def Let_def case_prod_beta same_watch_enqueue)

lemma access_same_watch [simp]:
  "same_watch g (snd (admission_on_access clk k ea ad sent g))"
  using same_watch_trans [OF _ access_finish_same_watch, of g]
  by (auto simp: admission_on_access_def Let_def case_prod_beta split: sum.split option.split)

lemma check_same_watch: "same_watch g (snd (gate_check L clk k sent g))"
proof (cases "snapshot g k")
  case (Some ea)
  have "same_watch g (snd (admission_on_access clk k ea ad sent (set_heap h g\<lparr>subjects := m\<rparr>)))" for clk ad h m
    by (rule same_watch_trans [OF _ access_same_watch]) simp
  with Some show ?thesis by (simp add: gate_check_def Let_def case_prod_beta split: option.split)
qed (simp add: gate_check_def)

lemma refresh_same_watch: "same_watch g (refresh_entry L clk k ea sent g)"
proof -
  have "same_watch g (snd (admission_on_access clk k ea ad sent (g\<lparr>subjects := m\<rparr>)))" for clk ad m
    by (rule same_watch_trans [OF _ access_same_watch]) simp
  then show ?thesis by (simp add: refresh_entry_def Let_def case_prod_beta)
qed

lemma apply_fetch_result_same_watch:
  "apply_fetch_result L clk k ea gen rf result g = Some (answer, g') \<Longrightarrow> same_watch g g'"
  by (auto simp: apply_fetch_result_def Let_def split: option.splits if_splits sum.splits prod.splits
      Option.bind_splits dest!: republish_same_watch intro: same_watch_trans [rotated])

lemma run_fetch_same_watch:
  assumes "run_fetch L clk f outcome g = Some (r, g')"
  shows "same_watch g g'"
proof (cases "generation (deref f) \<in> set (aborted (gate_heap g))")
  case False
  with assms obtain a g1 where "apply_fetch_result L (\<lambda>i. clk (Suc i)) (fetch_subject (deref f))
      (fetch_entry (deref f)) (generation (deref f)) (fetch_refresh_from (deref f))
      (lookup_result (clk 0) outcome) (log UnaryCall g) = Some (a, g1)"
    and g': "g' = g1 \<or> g' = log UnaryFailure g1 \<or> g' = log UnaryFailure (log WireFailure g1)"
    by (auto simp: run_fetch_def Let_def split: Option.bind_splits sum.splits if_splits)
  from apply_fetch_result_same_watch [OF this(1)] g' show ?thesis
    by (auto simp: same_watch_def log_def)
qed (use assms in \<open>simp add: run_fetch_def Let_def\<close>)

lemma observe_state_same_watch [simp]: "same_watch g0 (snd (observe_state now ea g)) = same_watch g0 g"
  by (simp add: observe_state_def case_prod_beta)

lemma admit_access_same_watch: "same_watch g (snd (admit_access clk sent ea pc (t, g)))"
  by (simp add: admit_access_def case_prod_beta)

lemma admit_remove_same_watch [simp]: "same_watch g0 (admit_remove L k now pred g) = same_watch g0 g"
  by (simp add: admit_remove_def Let_def case_prod_beta)

lemma admit_lookup_same_watch [simp]: "same_watch g0 (snd (admit_lookup L k now g)) = same_watch g0 g"
  by (simp add: admit_lookup_def Let_def case_prod_beta)

lemma admit_join_same_watch: "same_watch g (snd (admit_join now ea (t, g)))"
  by (simp add: admit_join_def Let_def case_prod_beta split: option.split)

lemma admit_joined_same_watch: "same_watch g (snd (admit_joined clk sent ea result (t, g)))"
  using same_watch_trans [OF _ admit_access_same_watch, of g "snd (observe_state (clk 0) ea g)"]
  by (simp add: admit_joined_def Let_def case_prod_beta split: sum.split)

lemma admit_entry_same_watch:
  assumes "admit_entry L inp ea (t, g) = Some (t', g')"
  shows "same_watch g g'"
proof -
  let ?o = "observe_state (in_clock inp 1) ea g"
  have access: "same_watch g (snd (admit_access clk sent ea pc (t, log MapHit (snd ?o))))" for clk sent pc
    by (rule same_watch_trans [OF _ admit_access_same_watch]) simp
  have join: "same_watch g (snd (admit_join (in_clock inp 2) ea (t, snd ?o)))"
    by (rule same_watch_trans [OF _ admit_join_same_watch]) simp
  have stale: "same_watch g g2" if "republish_if_due L now (admit_remove L k n p (snd ?o)) = Some g2" for now k n p g2
    by (rule same_watch_trans [OF _ republish_same_watch [OF that]]) simp
  show ?thesis
  proof (cases "in_clock inp 0 \<ge> at_deadline t \<or> \<not> connected g")
    case False
    with assms access [of "\<lambda>i. in_clock inp (i + 2)" "in_sent inp" AConnect] join stale show ?thesis
      by (cases "fst ?o")
        (auto simp: admit_entry_def Let_def case_prod_beta split: Option.bind_splits)
  qed (use assms in \<open>auto simp: admit_entry_def Let_def split: if_splits\<close>)
qed

lemma admit_poll_same_watch:
  assumes r: "admit_poll L inp (t, g) = Some (t', g')"
  shows "same_watch g g'"
proof (cases "at_pc t")
  case AInsert
  have "same_watch g g2" if "republish_if_due L now (snd (admit_lookup L k n g)) = Some g2" for now k n g2
    by (rule same_watch_trans [OF _ republish_same_watch [OF that]]) simp
  with r AInsert show ?thesis
    by (auto simp: admit_poll_def Let_def case_prod_beta split: Option.bind_splits)
next
  case (AEntry ea)
  with r show ?thesis using admit_entry_same_watch by (simp add: admit_poll_def Let_def)
next
  case (AJoin ea f)
  have "same_watch g g'" if "admit_joined clk sent ea result (t, g) = (t', g')" for clk sent result
    using admit_joined_same_watch [of g clk sent ea result t] that by simp
  moreover have "same_watch g g'"
    if "g' = (if b then log AdmissionTimeout else id) (snd (admit_access clk sent ea pc (t, g)))" for b clk sent pc
    using admit_access_same_watch [of g clk sent ea pc t] that by simp
  ultimately show ?thesis
    using r AJoin
    by (auto simp: admit_poll_def Let_def case_prod_beta split: if_splits join_event.splits option.splits)
      (simp_all add: admit_access_same_watch)
qed (use r in \<open>auto simp: admit_poll_def Let_def split: if_splits\<close>)

lemma gate_step_same_watch: "gate_step L g g' \<Longrightarrow> same_watch g g'"
proof (induction rule: gate_step.induct)
  case (cached_sync g clk k)
  then show ?case by (simp add: check_without_refresh_def Let_def case_prod_beta split: option.split)
qed (simp_all add: check_same_watch refresh_same_watch admit_poll_same_watch run_fetch_same_watch
      observe_handle_def invalidate_handle_def drop_enqueue_def)

section \<open>Client steps keep the invariant\<close>

context subject_cache
begin

lemma gate_step_keeps:
  assumes "gate_step L g g'" "gate_inv valid L g"
  shows "gate_keeps valid L g g'"
  using assms
proof (induction rule: gate_step.induct)
  case (observe g now ea)
  show ?case
    unfolding observe_handle_def
    by (rule gate_set_heap [OF observe])
      (use observation_keeps [OF observed_at_action.entry_observation_axioms gate_invD(1) [OF observe]] in auto)
next
  case (invalidate g ea)
  show ?case
    unfolding invalidate_handle_def
    by (rule gate_set_heap [OF invalidate])
      (use observation_keeps [OF invalidate_action.entry_observation_axioms gate_invD(1) [OF invalidate]] in auto)
next
  case (drop g f ea)
  show ?case
    unfolding drop_enqueue_def
    by (rule gate_set_heap [OF drop(3)])
      (use release_claim_keeps [OF gate_invD(1) [OF drop(3)] drop(1,2)] in auto)
next
  case (cached g clk k sent)
  then show ?case by (rule gate_check_keeps)
next
  case (cached_sync g clk k)
  then show ?case by (rule check_without_refresh_keeps)
next
  case (refresh g clk k ea sent)
  then show ?case by (rule refresh_entry_keeps)
next
  case (admit inp t g t' g')
  show ?case by (rule admit_poll_keeps [OF admit(2,1)])
next
  case (fetch g f clk outcome r g')
  show ?case by (rule run_fetch_keeps [OF fetch(3,1,2)])
next
  case (report g x)
  then show ?case by (simp add: gate_frame)
qed

end

section \<open>The system invariant\<close>

fun w_refreshes :: "('k, 'p) watch_pc \<Rightarrow> ('k, 'p) pending_fetch arc list" where
  "w_refreshes (WOpen timer settled refreshes) = refreshes"
| "w_refreshes (WYield timer settled refreshes) = refreshes"
| "w_refreshes _ = []"

fun w_open :: "('k, 'p) watch_pc \<Rightarrow> bool" where
  "w_open (WOpen timer settled refreshes) = True"
| "w_open (WYield timer settled refreshes) = True"
| "w_open _ = False"

fun w_settled :: "('k, 'p) watch_pc \<Rightarrow> bool" where
  "w_settled (WOpen timer settled refreshes) = settled"
| "w_settled (WYield timer settled refreshes) = settled"
| "w_settled _ = False"

text \<open>
  The watcher's locals agree with the shared state: the gate is connected exactly while
  the stream is open, and reports itself stable only while it is open and its stability
  timer has fired.
\<close>

definition watch_inv :: "policy_gate_config \<Rightarrow> ('k, 'p) watcher \<times> ('c, 'k, 'p) gate \<Rightarrow> bool" where
  "watch_inv cfg = (\<lambda>(w, g).
     config g = cfg \<and> (connected g \<longleftrightarrow> w_open (w_pc w)) \<and>
     (disconnected_since g = None \<longrightarrow> w_settled (w_pc w)) \<and>
     w_events_since_yield w < watch_events_per_yield cfg \<and>
     initial_reconnect_delay cfg \<le> w_reconnect_delay w \<and> w_reconnect_delay w \<le> max_reconnect_delay cfg \<and>
     (\<forall>f \<in> set (w_refreshes (w_pc w)). fetch_issued (gate_heap g) f))"

lemma watch_ops_fields [simp]:
  "connected (watch_connected L g)" "\<not> connected (watch_disconnected L now g)"
  "disconnected_since (watch_connected L g) = disconnected_since g"
  "\<exists>t. disconnected_since (watch_disconnected L now g) = Some t"
  "config (watch_connected L g) = config g" "config (watch_disconnected L now g) = config g"
  by (auto simp: watch_connected_def watch_disconnected_def publish_empty_def clear_subjects_def log_def
      mark_disconnected_def Let_def split: option.split)

lemma apply_change_same_watch:
  assumes "apply_change L clk change g = Some g'"
  shows "same_watch g g'"
proof -
  have "same_watch g g'" if "republish_if_due L now (if b then mark_dirty (g\<lparr>subjects := m\<rparr>) else g\<lparr>subjects := m\<rparr>) = Some g'"
    for now b m
    by (rule same_watch_trans [OF _ republish_same_watch [OF that]]) simp
  from this [of _ False] this show ?thesis
    using assms by (auto simp: apply_change_def Let_def case_prod_beta split: option.splits)
qed

lemma watch_inv_closed:
  assumes "watch_inv cfg (w, g0)" "config g = cfg"
  shows "watch_inv cfg (watch_closed L clk rng (w, g))"
  using assms by (auto simp: watch_inv_def watch_closed_def)

lemma config_wire_metric [simp]: "config (wire_metric err g) = config g" "config (log x g) = config g"
  "disconnected_since (log x g) = disconnected_since g" "connected (log x g) = connected g"
  "subjects (log x g) = subjects g"
  by (simp_all add: wire_metric_def log_def)

context subject_cache
begin

lemma wire_metric_keeps: "gate_inv valid L g \<Longrightarrow> gate_keeps valid L g (wire_metric err g)"
  by (simp add: wire_metric_def gate_frame)

lemma watch_closed_keeps:
  "gate_inv valid L g \<Longrightarrow> gate_keeps valid L g (snd (watch_closed L clk rng (w, g)))"
  by (simp add: watch_closed_def watch_disconnected_keeps)

lemma watch_item_keeps:
  assumes inv: "gate_inv valid L g" and r: "watch_item L clk rng it timer settled refreshes (w, g) = Some (w', g')"
  shows "gate_keeps valid L g g'"
proof -
  have closed: "gate_keeps valid L g (snd (watch_closed L clk rng (w, g1)))" if "gate_keeps valid L g g1" for g1
    using gate_keeps_trans [OF that watch_closed_keeps] .
  show ?thesis
  proof (cases it)
    case None
    then have "g' = snd (watch_closed L clk rng (w, log WatchDisconnect g))"
      using r by (simp add: watch_item_def)
    with closed [of "log WatchDisconnect g"] inv show ?thesis by (simp add: gate_frame)
  next
    case (Some x)
    show ?thesis
    proof (cases x)
      case (Inl err)
      with Some have "g' = snd (watch_closed L clk rng (w, log WatchDisconnect (wire_metric err g)))"
        using r by (simp add: watch_item_def)
      with closed [of "log WatchDisconnect (wire_metric err g)"] wire_metric_keeps [OF inv, of err]
      show ?thesis by (simp add: gate_frame)
    next
      case (Inr change)
      with r Some obtain g1 where "apply_change L clk change g = Some g1" "g' = log WatchEvent g1"
        by (auto simp: watch_item_def Let_def split: Option.bind_splits if_splits)
      with apply_change_keeps [OF inv] show ?thesis by (simp add: gate_frame)
    qed
  qed
qed

lemma watch_step_keeps:
  assumes "watch_step L s s'" "gate_inv valid L (snd s)" "watch_inv cfg s"
  shows "gate_keeps valid L (snd s) (snd s')"
  using assms
proof (induction rule: watch_step.induct)
  case (opened w d now now' g)
  then show ?case by (simp add: watch_opened_def watch_connected_keeps)
next
  case (open_failed w d clk g rng err)
  have "gate_keeps valid L g (log WatchOpenFailure (wire_metric err g))"
    using wire_metric_keeps open_failed by (simp add: gate_frame)
  from gate_keeps_trans [OF this watch_closed_keeps] show ?case by (simp add: watch_open_failed_def)
next
  case (open_timed_out w t clk g rng)
  have "gate_keeps valid L g (log WatchOpenFailure g)" using open_timed_out by (simp add: gate_frame)
  from gate_keeps_trans [OF this watch_closed_keeps] show ?case by (simp add: watch_open_failed_def)
next
  case (batch w timer settled refreshes g n)
  have "set (drop n (refresh_queue g)) \<subseteq> set (refresh_queue g)" by (rule set_drop_subset)
  with batch show ?case by (auto simp: gate_inv_def gate_evolves_def)
next
  case (refresh_done w timer settled refreshes f clk outcome g r g')
  then have "fetch_issued (gate_heap g) f" by (simp add: watch_inv_def)
  from run_fetch_keeps [OF _ this refresh_done(3)] refresh_done(4) show ?case by simp
next
  case (item w timer settled refreshes clk rng it g s')
  from watch_item_keeps [of g clk rng it timer settled refreshes w "fst s'" "snd s'"] item(2,3)
  show ?case by simp
next
  case (dropped w g now)
  then show ?case by (simp add: watch_disconnected_keeps)
qed (simp_all add: gate_frame)

lemma watch_step_watch_inv:
  assumes "watch_step L s s'" "gate_inv valid L (snd s)" "watch_inv cfg s" "config_valid now0 cfg"
    and dur: "max_reconnect_delay cfg \<le> DURATION_MAX"
  shows "watch_inv cfg s'"
  using assms
proof (induction rule: watch_step.induct)
  case (opened w d now now' g)
  then show ?case by (auto simp: watch_inv_def watch_opened_def config_valid_def)
next
  case (open_failed w d clk g rng err)
  have "watch_inv cfg (watch_closed L (\<lambda>i. clk (Suc i)) rng (w, log WatchOpenFailure (wire_metric err g)))"
    by (rule watch_inv_closed [OF open_failed(4)]) (use open_failed(4) in \<open>simp add: watch_inv_def\<close>)
  then show ?case by (simp add: watch_open_failed_def)
next
  case (open_timed_out w t clk g rng)
  have "watch_inv cfg (watch_closed L (\<lambda>i. clk (Suc i)) rng (w, log WatchOpenFailure g))"
    by (rule watch_inv_closed [OF open_timed_out(4)]) (use open_timed_out(4) in \<open>simp add: watch_inv_def\<close>)
  then show ?case by (simp add: watch_open_failed_def)
next
  case (stable w t refreshes now g)
  then show ?case by (auto simp: watch_inv_def watch_stable_def config_valid_def)
next
  case (batch w timer settled refreshes g n)
  have "fetch_issued (gate_heap g) f" if "f \<in> set (take n (refresh_queue g))" for f
    using batch(5) in_set_takeD [OF that] by (simp add: gate_inv_def)
  with batch show ?case by (auto simp: watch_inv_def)
next
  case (refresh_done w timer settled refreshes f clk outcome g r g')
  then have f: "fetch_issued (gate_heap g) f" by (simp add: watch_inv_def)
  from run_fetch_keeps [OF _ f refresh_done(3)] refresh_done(4)
  have "heap_evolves (gate_heap g) (gate_heap g')" by (simp add: gate_evolves_def map_evolves_def)
  note evolves = fetch_issued_evolves [OF this]
  have "fetch_issued (gate_heap g') x" if "x \<in> set (remove1 f refreshes)" for x
  proof (rule evolves)
    have "x \<in> set refreshes" using that set_remove1_subset [of f refreshes] by blast
    then show "fetch_issued (gate_heap g) x" using refresh_done(1,5) by (simp add: watch_inv_def)
  qed
  with run_fetch_same_watch [OF refresh_done(3)] refresh_done(1,5)
  show ?case by (auto simp: watch_inv_def same_watch_def)
next
  case (item w timer settled refreshes clk rng it g s')
  show ?case
  proof (cases "\<exists>change. it = Some (Inr change)")
    case False
    then obtain g1 where "s' = watch_closed L clk rng (w, g1)" "config g1 = config g"
      using item(2) by (auto simp: watch_item_def split: option.splits sum.splits)
    with watch_inv_closed [OF item(4)] item(4) show ?thesis by (simp add: watch_inv_def)
  next
    case True
    then obtain change g1 where c: "apply_change L clk change g = Some g1" and s':
      "s' = (if w_events_since_yield w + 1 = watch_events_per_yield (config g1)
        then (w\<lparr>w_events_since_yield := 0, w_pc := WYield timer settled refreshes\<rparr>, log WatchEvent g1)
        else (w\<lparr>w_events_since_yield := w_events_since_yield w + 1\<rparr>, log WatchEvent g1))"
      using item(2) by (auto simp: watch_item_def Let_def split: Option.bind_splits if_splits)
    from apply_change_keeps [OF _ c] item(3)
    have "heap_evolves (gate_heap g) (gate_heap g1)" by (simp add: gate_evolves_def map_evolves_def)
    with fetch_issued_evolves apply_change_same_watch [OF c] item(1,4) s' show ?thesis
      by (auto simp: watch_inv_def same_watch_def config_valid_def)
  qed
next
  case (yielded w timer settled refreshes g)
  then show ?case by (auto simp: watch_inv_def)
next
  case (reconnect w t now g now')
  then have "w_reconnect_delay w \<le> next_reconnect_delay cfg (w_reconnect_delay w)"
    using dur by (intro reconnect_backoff.step_mono) (auto simp: watch_inv_def)
  with reconnect reconnect_backoff.step_bounded show ?case by (auto simp: watch_inv_def)
next
  case (dropped w g now)
  then show ?case by (auto simp: watch_inv_def)
qed

lemma client_watch_inv:
  assumes "gate_step L g g'" "gate_inv valid L g" "watch_inv cfg (w, g)"
  shows "watch_inv cfg (w, g')"
proof -
  have "heap_evolves (gate_heap g) (gate_heap g')"
    using gate_step_keeps [OF assms(1,2)] by (simp add: gate_evolves_def map_evolves_def)
  with assms(3) gate_step_same_watch [OF assms(1)] fetch_issued_evolves show ?thesis
    by (auto simp: watch_inv_def same_watch_def)
qed

lemma sys_step_keeps:
  assumes "sys_step L s s'" "gate_inv valid L (snd s)" "watch_inv cfg s" "config_valid now0 cfg"
    and dur: "max_reconnect_delay cfg \<le> DURATION_MAX"
  shows "gate_keeps valid L (snd s) (snd s') \<and> watch_inv cfg s'"
  using assms
proof (induction rule: sys_step.induct)
  case (client g g' w)
  with gate_step_keeps [OF client(1)] client_watch_inv [OF client(1)] show ?case by simp
next
  case (watch s s')
  from watch_step_keeps [OF watch(1-3)] watch_step_watch_inv [OF watch(1-4) dur] show ?case by blast
qed

lemma reachable_inv:
  assumes "sys_reachable L cfg s" "config_valid now0 cfg"
    and dur: "max_reconnect_delay cfg \<le> DURATION_MAX"
  shows "gate_inv valid L (snd s) \<and> watch_inv cfg s"
  using assms
proof (induction rule: sys_reachable.induct)
  case (start now g now')
  have "gate_inv valid L g" by (rule gate_new_inv [OF start(1)])
  moreover have "config g = cfg" "\<not> connected g" "disconnected_since g = Some now"
    using start(1) by (auto simp: gate_new_def split: Option.bind_splits)
  ultimately show ?case
    using start(2) by (auto simp: watch_inv_def watch_start_def config_valid_def)
next
  case (step s s')
  then show ?case using sys_step_keeps [OF step(2) _ _ _ dur] by blast
qed

text \<open>Along a run nothing is undone.\<close>

lemma run_evolves:
  assumes "(sys_step L)\<^sup>*\<^sup>* s s'" "sys_reachable L cfg s" "config_valid now0 cfg"
    and dur: "max_reconnect_delay cfg \<le> DURATION_MAX"
  shows "sys_reachable L cfg s' \<and> gate_inv valid L (snd s') \<and> gate_evolves L (snd s) (snd s')"
  using assms(1,2)
proof (induction rule: rtranclp_induct)
  case base
  then show ?case using reachable_inv [OF assms(2,3) dur] by simp
next
  case (step u v)
  then have u: "sys_reachable L cfg u" "gate_evolves L (snd s) (snd u)" by simp_all
  note I = reachable_inv [OF u(1) assms(3) dur]
  from sys_step_keeps [OF step(2) conjunct1 [OF I] conjunct2 [OF I] assms(3) dur]
  show ?case using u sys_reachable.step [OF u(1) step(2)] gate_evolves_trans by blast
qed

end

section \<open>A lost watch\<close>

lemma watch_disconnected_subjects:
  "subjects (watch_disconnected L now g) = map_clear L (subjects g)"
  by (simp add: watch_disconnected_def publish_empty_def clear_subjects_def mark_disconnected_def log_def
      Let_def split: option.split)

lemma watch_closed_gate: "snd (watch_closed L clk rng (w, g)) = watch_disconnected L (clk 0) g"
  by (simp add: watch_closed_def)

lemma disconnected_by:
  "subjects g0 = subjects g \<Longrightarrow>
    \<exists>now g1. watch_disconnected L t g0 = watch_disconnected L now g1 \<and> subjects g1 = subjects g"
  by blast

lemma apply_change_connected: "apply_change L clk ch g = Some g' \<Longrightarrow> connected g' = connected g"
  by (drule apply_change_same_watch) (simp add: same_watch_def)

text \<open>The steps that turn the connection off are the ones that clear the map.\<close>

lemma watch_step_disconnects:
  assumes "watch_step L s s'" "connected (snd s)" "\<not> connected (snd s')"
  shows "\<exists>now g0. snd s' = watch_disconnected L now g0 \<and> subjects g0 = subjects (snd s)"
  using assms
proof (induction rule: watch_step.induct)
  case (opened w d now now' g)
  then show ?case by (simp add: watch_opened_def)
next
  case (open_failed w d clk g rng err)
  then show ?case
    by (simp add: watch_open_failed_def watch_closed_gate Let_def) (rule disconnected_by, simp add: wire_metric_def)
next
  case (open_timed_out w t clk g rng)
  then show ?case
    by (simp add: watch_open_failed_def watch_closed_gate Let_def) (rule disconnected_by, simp)
next
  case (stable w t refreshes now g)
  then show ?case by (simp add: watch_stable_def)
next
  case (refresh_done w timer settled refreshes f clk outcome g r g')
  from run_fetch_same_watch [OF refresh_done(3)] refresh_done(4,5) show ?case by (simp add: same_watch_def)
next
  case (item w timer settled refreshes clk rng it g s')
  show ?case
  proof (cases "\<exists>change. it = Some (Inr change)")
    case True
    with item(2-4) show ?thesis
      by (auto simp: watch_item_def Let_def split: Option.bind_splits if_splits dest!: apply_change_connected)
  next
    case False
    then have "it = None \<or> (\<exists>err. it = Some (Inl err))" by (metis option.exhaust sum.exhaust)
    with item(2) obtain g0 where "snd s' = watch_disconnected L (clk 0) g0" "subjects g0 = subjects g"
      by (auto simp: watch_item_def watch_closed_gate wire_metric_def split: if_splits)
    then show ?thesis by auto
  qed
next
  case (dropped w now g)
  then show ?case by auto
qed simp_all

context subject_cache
begin

lemma cleared_retired:
  assumes inv: "gate_inv valid L g" and g': "subjects g' = map_clear L (subjects g)" "gate_inv valid L g'"
    and e: "cells (gate_heap g) a = Some e"
  shows "a \<in> dom (cells (gate_heap g')) \<and> a \<notin> slot_refs L (sm_entries (subjects g'))"
proof -
  note C = map_clear_inv [OF gate_invD(1) [OF inv]]
  from C(1) have "heap_evolves (gate_heap g) (gate_heap g')" by (simp add: g'(1) map_evolves_def)
  from heap_evolves_dom [OF this] e C(2) show ?thesis by (auto simp: g'(1))
qed

text \<open>A handle whose entry was cleared away reads as stale in every later state.\<close>

lemma cleared_forever:
  assumes r: "sys_reachable L cfg s" and c: "subjects (snd s1) = map_clear L (subjects (snd s))"
    and r1: "sys_reachable L cfg s1" and run: "(sys_step L)\<^sup>*\<^sup>* s1 s'"
    and cfg: "config_valid now0 cfg" "max_reconnect_delay cfg \<le> DURATION_MAX"
    and e: "cells (gate_heap (snd s)) a = Some e"
  shows "\<exists>e'. cells (gate_heap (snd s')) a = Some e' \<and> retired e'"
proof -
  note inv = conjunct1 [OF reachable_inv [OF _ cfg]]
  from cleared_retired [OF inv [OF r] c inv [OF r1] e]
  have a: "a \<in> dom (cells (gate_heap (snd s1)))" "a \<notin> slot_refs L (sm_entries (subjects (snd s1)))"
    by auto
  from run_evolves [OF run r1 cfg]
  have "subjects_inv valid L (subjects (snd s'))" "map_evolves L (subjects (snd s1)) (subjects (snd s'))"
    by (simp_all add: gate_evolves_def gate_invD(1))
  from retired_forever [OF this a] show ?thesis .
qed

end

end
