(* ===== verification/Scenario.thy ===== *)
theory Scenario
  imports System "HOL-Library.Code_Target_Numeral"
begin

text \<open>
  A concrete run of the system on the list cache, small enough to compute: a gate for two
  subjects is created, its watch opens, subject 7 is admitted and its lookup returns
  allowed, subject 8 is admitted and still pending. The properties are exercised on its
  states.
\<close>

definition ex_cfg :: policy_gate_config where
  "ex_cfg = candidate
     (set_decision_freshness_ttl 100 (set_refresh_before_expiry 40 (set_max_subjects 2
       (set_subject_ttl 1000 (set_snapshot_republish_interval 5 (set_permanent_failure_cooldown 30 builder))))))"

definition ex_gate0 :: "((nat, subject_slot) lru_list, nat, string) gate" where
  "ex_gate0 = the (gate_new lru_list ex_cfg 0)"

definition ex_watcher :: "(nat, string) watcher" where
  "ex_watcher = watch_start ex_cfg 0"

definition ex_open :: "(nat, string) watcher \<times> ((nat, subject_slot) lru_list, nat, string) gate" where
  "ex_open = watch_opened lru_list 1 (ex_watcher, ex_gate0)"

definition ex_input :: "instant \<Rightarrow> admit_input" where
  "ex_input now = \<lparr> in_clock = \<lambda>_. now, in_closed = False, in_event = JPending, in_sent = True \<rparr>"

definition ex_task :: "nat \<Rightarrow> (nat, string) admit_task" where
  "ex_task k = the (fst (admit_start k 1 ex_gate0))"

definition ex_admitted :: "(nat, string) admit_task \<times> ((nat, subject_slot) lru_list, nat, string) gate" where
  "ex_admitted = the (admit_poll lru_list (ex_input 2) (goto AInsert (ex_task 7), snd ex_open))"

definition ex_fetch :: "(nat, string) pending_fetch arc" where
  "ex_fetch = Arc 2 \<lparr> generation = 1, fetch_entry = 0, fetch_subject = 7, fetch_delay = None,
     fetch_refresh_from = None \<rparr>"

definition ex_allowed :: "((nat, subject_slot) lru_list, nat, string) gate" where
  "ex_allowed = snd (the (run_fetch lru_list (\<lambda>_. 3) ex_fetch
     (LookupReturned (Inr (Some \<lparr> decision = DAllowed, payload = Some ''p'', valid_until = None \<rparr>)))
     (snd ex_admitted)))"

definition ex_two :: "(nat, string) admit_task \<times> ((nat, subject_slot) lru_list, nat, string) gate" where
  "ex_two = the (admit_poll lru_list (ex_input 10) (goto AInsert (ex_task 8), ex_allowed))"

section \<open>The run is a run of the system\<close>

abbreviation list_reachable ::
  "(nat, string) watcher \<times> ((nat, subject_slot) lru_list, nat, string) gate \<Rightarrow> bool" where
  "list_reachable \<equiv> sys_reachable lru_list ex_cfg"

lemma ex_cfg_valid: "config_valid 0 ex_cfg"
  by (simp add: config_valid_def ex_cfg_def builder_def default_defs from_secs_def from_millis_def INSTANT_MAX_def
      DURATION_MAX_def set_decision_freshness_ttl_def set_refresh_before_expiry_def set_max_subjects_def
      set_subject_ttl_def set_snapshot_republish_interval_def set_permanent_failure_cooldown_def)

lemma ex_cfg_duration: "max_reconnect_delay ex_cfg \<le> DURATION_MAX"
  by (simp add: ex_cfg_def builder_def default_defs from_secs_def DURATION_MAX_def set_decision_freshness_ttl_def
      set_refresh_before_expiry_def set_max_subjects_def set_subject_ttl_def
      set_snapshot_republish_interval_def set_permanent_failure_cooldown_def)

lemma some_the: "(case x of None \<Rightarrow> False | Some y \<Rightarrow> True) \<Longrightarrow> x = Some (the x)"
  by (cases x) auto

lemma ex_gate0_new: "gate_new lru_list ex_cfg 0 = Some ex_gate0"
  unfolding ex_gate0_def by (rule some_the) code_simp

lemma ex_start: "list_reachable (ex_watcher, ex_gate0)"
  unfolding ex_watcher_def by (rule sys_reachable.start [OF ex_gate0_new])

lemma ex_watcher_opening: "w_pc ex_watcher = WOpening (Some 10000000000)"
  by code_simp

lemma ex_open_reachable: "list_reachable ex_open"
proof (rule sys_reachable.step [OF ex_start])
  have "watch_step lru_list (ex_watcher, ex_gate0) (watch_opened lru_list 1 (ex_watcher, ex_gate0))"
    by (rule watch_step.opened [OF ex_watcher_opening, of 1]) simp
  then show "sys_step lru_list (ex_watcher, ex_gate0) ex_open"
    unfolding ex_open_def by (rule sys_step.watch)
qed

lemma client_step: "list_reachable (w, g) \<Longrightarrow> gate_step lru_list g g' \<Longrightarrow> list_reachable (w, g')"
  by (rule sys_reachable.step [OF _ sys_step.client])

lemma poll_step:
  assumes "list_reachable (w, g)" and "case admit_poll lru_list inp (t, g) of None \<Rightarrow> False | Some y \<Rightarrow> True"
  shows "list_reachable (w, snd (the (admit_poll lru_list inp (t, g))))"
  using client_step [OF assms(1) gate_step.admit] some_the [OF assms(2)] by (metis surjective_pairing)

lemma fetch_gate_step:
  assumes "fetch_issued (gate_heap g) f"
    and "case run_fetch lru_list clk f outcome g of None \<Rightarrow> False | Some y \<Rightarrow> True"
  shows "gate_step lru_list g (snd (the (run_fetch lru_list clk f outcome g)))"
  using gate_step.fetch [OF assms(1)] some_the [OF assms(2)] by (metis surjective_pairing)

lemma ex_admitted_reachable: "list_reachable (fst ex_open, snd ex_admitted)"
  unfolding ex_admitted_def
  by (rule poll_step) (use ex_open_reachable in simp, code_simp)

lemma pending_issued:
  assumes "list_reachable (w, g)" "cells (gate_heap g) a = Some e" "pending e = Some f"
  shows "fetch_issued (gate_heap g) f"
proof -
  have ok: "heap_ok (gate_heap g)"
    using list_cache.reachable_inv [OF assms(1) ex_cfg_valid ex_cfg_duration] by (auto dest: gate_invD(2))
  with heap_ok_entry_lt [OF ok assms(2,3)] assms(2,3) show ?thesis
    unfolding fetch_issued_def heap_ok_def by (metis option.inject)
qed

lemma ex_fetch_pending: "Option.bind (cells (gate_heap (snd ex_admitted)) 0) pending = Some ex_fetch"
  by code_simp

lemma ex_fetch_issued: "fetch_issued (gate_heap (snd ex_admitted)) ex_fetch"
proof -
  from ex_fetch_pending obtain e where "cells (gate_heap (snd ex_admitted)) 0 = Some e" "pending e = Some ex_fetch"
    by (cases "cells (gate_heap (snd ex_admitted)) 0") auto
  then show ?thesis by (rule pending_issued [OF ex_admitted_reachable])
qed

lemma ex_allowed_step: "gate_step lru_list (snd ex_admitted) ex_allowed"
  unfolding ex_allowed_def by (rule fetch_gate_step [OF ex_fetch_issued]) code_simp

lemma ex_allowed_reachable: "list_reachable (fst ex_open, ex_allowed)"
  by (rule client_step [OF ex_admitted_reachable ex_allowed_step])

lemma ex_fetch_done:
  "fetch_issued (gate_heap ex_allowed) ex_fetch"
  "cells (gate_heap ex_allowed) a = Some e \<Longrightarrow> pending e \<noteq> Some ex_fetch"
proof -
  have keeps: "gate_keeps lru_list_valid lru_list (snd ex_admitted) ex_allowed"
    by (rule list_cache.gate_step_keeps [OF ex_allowed_step])
      (use list_cache.reachable_inv [OF ex_admitted_reachable ex_cfg_valid ex_cfg_duration] in simp)
  then show "fetch_issued (gate_heap ex_allowed) ex_fetch"
    using fetch_issued_evolves [OF _ ex_fetch_issued] by (simp add: gate_evolves_def map_evolves_def)
  assume e: "cells (gate_heap ex_allowed) a = Some e"
  have free: "map_option (Option.is_none \<circ> pending) (cells (gate_heap ex_allowed) 0) = Some True"
    and target: "fetch_entry (deref ex_fetch) = 0" by code_simp+
  show "pending e \<noteq> Some ex_fetch"
  proof
    assume p: "pending e = Some ex_fetch"
    have "entry_ok (next_addr (gate_heap ex_allowed)) a e"
      using heap_okD(2) [OF gate_invD(2) e] keeps by blast
    with p target have "a = 0" by (simp add: entry_ok_def pending_ok_def)
    with e free p show False by auto
  qed
qed

lemma ex_two_reachable: "list_reachable (fst ex_open, snd ex_two)"
  unfolding ex_two_def by (rule poll_step [OF ex_allowed_reachable]) code_simp

lemma ex_reachable_inv:
  "list_reachable (w, g) \<Longrightarrow> gate_inv lru_list_valid lru_list g \<and> watch_inv ex_cfg (w, g)"
  using list_cache.reachable_inv [of ex_cfg "(w, g)" 0] ex_cfg_valid ex_cfg_duration by simp

text \<open>A cached read of subject 7 inside the refresh window claims and enqueues a refresh.\<close>

definition ex_refreshing :: "((nat, subject_slot) lru_list, nat, string) gate" where
  "ex_refreshing = refresh_entry lru_list (\<lambda>_. 70) 7 0 True ex_allowed"

text \<open>The entry of subject 7 in that state, with its decision and its refresh.\<close>

definition ex_cur :: "string snapshot_arc" where
  "ex_cur = Arc 4 \<lparr> snap_word = 405, snap_payload = Some ''p'', snap_refresh_after = 0 \<rparr>"

definition ex_refresh :: "(nat, string) pending_fetch arc" where
  "ex_refresh = Arc 7 \<lparr> generation = 6, fetch_entry = 0, fetch_subject = 7, fetch_delay = None,
     fetch_refresh_from = Some ex_cur \<rparr>"

definition ex_entry :: "(nat, string) entry" where
  "ex_entry = \<lparr> current = ex_cur, epoch = 2, pending = Some ex_refresh,
     refresh_before = 40, refresh_not_before = 0 \<rparr>"

lemma ex_refreshing_reachable: "list_reachable (fst ex_open, ex_refreshing)"
  unfolding ex_refreshing_def by (rule client_step [OF ex_allowed_reachable gate_step.refresh])

lemma ex_entry_cell: "cells (gate_heap ex_refreshing) 0 = Some ex_entry"
  by code_simp

lemma ex_refresh_pending: "pending ex_entry = Some ex_refresh"
  by (simp add: ex_entry_def)

lemma ex_refresh_from: "fetch_refresh_from (deref ex_refresh) = Some ex_cur"
  by (simp add: ex_refresh_def)

lemma ex_cur_expires: "is_expired_at ex_entry (snap_word (deref ex_cur)) 200"
  by code_simp

text \<open>The slot of subject 7 there, and a denial of that subject.\<close>

definition ex_slot :: subject_slot where
  "ex_slot = \<lparr> slot_entry = 0, last_touched = 70 \<rparr>"

definition ex_denial :: "nat decision_change" where
  "ex_denial = \<lparr> change_subject = 7, change_decision = Some DDenied \<rparr>"

text \<open>What the properties read of the state with the refresh in flight, evaluated once.\<close>

definition ex_view :: "((nat, subject_slot) lru_list, nat, string) gate \<Rightarrow> bool \<times> (nat \<times> subject_slot) list \<times> bool \<times> bool" where
  "ex_view g = (connected g, lru_iter lru_list (sm_entries (subjects g)),
     slot_idle (ttl_ticks (subjects g)) (map_tick (subjects g) 72) ex_slot,
     case apply_change lru_list (\<lambda>_. 72) ex_denial g of None \<Rightarrow> False | Some _ \<Rightarrow> True)"

lemma ex_refreshing_view: "ex_view ex_refreshing = (True, [(7, ex_slot)], False, True)"
  by code_simp

lemmas ex_view_facts = ex_refreshing_view [unfolded ex_view_def prod.inject]

end
