(* ===== verification/Gate_Properties.thy ===== *)
theory Gate_Properties
  imports Scenario
begin

text \<open>
  The properties of the gate that span its components, each stated over the model's own
  definitions: preparing and publishing decisions, lookups and refreshes, the life of a
  handle, and the reachable states of the whole system.
\<close>

section \<open>Preparing and publishing decisions\<close>

lemma min_deadline_le: "a \<le> NO_EXPIRY \<Longrightarrow> min a b \<le> NO_EXPIRY"
  by (simp add: min.coboundedI1)

text \<open>
  A prepared snapshot carries the decision, a deadline that is the configured freshness
  deadline capped by the source's own, and its payload only when the decision allows. Its
  earliest refresh lies half of the remaining life after now when the whole life falls in
  the refresh window; the sums do not wrap around.
\<close>

lemma decision_snapshot_spec:
  "let s = decision_snapshot cfg now e r
   in decode_entry_state (snap_word s) = entry_state_of (decision r)
    \<and> unat (word_deadline (snap_word s)) =
        (case valid_until r of None \<Rightarrow> unat (deadline_after e now (decision_freshness_ttl cfg))
         | Some cap \<Rightarrow> min (unat (deadline_after e now (decision_freshness_ttl cfg))) (unat (entry_tick e cap)))
    \<and> snap_payload s = (if decision r = DAllowed then payload r else None)
    \<and> unat (snap_refresh_after s) =
        (let life = unat (word_deadline (snap_word s)) - unat (entry_tick e now)
         in if life \<le> unat (refresh_before e) then unat (entry_tick e now) + (life + 1) div 2 else 0)"
proof -
  define s where "s = decision_snapshot cfg now e r"
  let ?d = "case valid_until r of None \<Rightarrow> deadline_after e now (decision_freshness_ttl cfg)
    | Some cap \<Rightarrow> min (deadline_after e now (decision_freshness_ttl cfg)) (entry_tick e cap)"
  have le: "?d \<le> NO_EXPIRY"
    using deadline_after_le_NO_EXPIRY [of e now "decision_freshness_ttl cfg"]
    by (simp add: min_deadline_le split: option.split)
  have dl: "word_deadline (snap_word s) = ?d"
    unfolding s_def decision_snapshot_def by (simp add: Let_def word_deadline_entry_word [OF le])
  have "unat ?d \<le> 2 ^ 62 - 1" using le unfolding word_le_nat_alt unat_NO_EXPIRY .
  moreover have "unat (entry_tick e now) \<le> 2 ^ 62 - 2" by (simp add: unat_entry_tick)
  ultimately have "unat (entry_tick e now + u64_div_ceil (u64_saturating_sub ?d (entry_tick e now)) 2) =
      unat (entry_tick e now) + (unat ?d - unat (entry_tick e now) + 1) div 2"
    by (subst unat_add_u64) (simp_all add: unat_div_ceil_2 unat_saturating_sub)
  then have refresh: "unat (snap_refresh_after s) =
      (let life = unat ?d - unat (entry_tick e now)
       in if life \<le> unat (refresh_before e) then unat (entry_tick e now) + (life + 1) div 2 else 0)"
    unfolding s_def decision_snapshot_def by (simp add: Let_def word_le_nat_alt unat_saturating_sub)
  have "unat ?d = (case valid_until r of None \<Rightarrow> unat (deadline_after e now (decision_freshness_ttl cfg))
      | Some cap \<Rightarrow> min (unat (deadline_after e now (decision_freshness_ttl cfg))) (unat (entry_tick e cap)))"
    by (simp add: unat_min split: option.split)
  moreover have "decode_entry_state (snap_word s) = entry_state_of (decision r)"
    "snap_payload s = (if decision r = DAllowed then payload r else None)"
    by (simp_all add: s_def) (simp add: decision_snapshot_def Let_def)
  ultimately show ?thesis
    unfolding s_def [symmetric] using refresh dl by (simp only: Let_def simp_thms)
qed

text \<open>
  A watch change always takes effect. Whatever other threads store in the entry while
  the change's read and its compare-and-swap race with them, the loop ends with one of the
  prepared decisions in force, no lookup pending, and the displaced lookup aborted.
\<close>

lemma watch_change_wins:
  "\<exists>i. i \<le> length envs \<and> publish_change envs mk e =
    (map_option (generation \<circ> deref) (pending e), e\<lparr>current := mk i, pending := None\<rparr>)"
proof (induction envs arbitrary: e)
  case Nil
  then show ?case by (simp add: compare_exchange_quiet abort_pending_def comp_def)
next
  case (Cons env envs)
  have "compare_exchange_loop env x n p = (Inr u, m) \<Longrightarrow> m = n" for env x n p u m
    by (induction env arbitrary: p)
      (auto simp: compare_and_swap_def ptr_eq_def Let_def split: if_splits)
  then have swap: "e' = e\<lparr>current := n\<rparr>" if "compare_exchange env x n e = (Inr u, e')" for x n u e'
    using that unfolding compare_exchange_def by (fastforce split: prod.splits)
  have frame: "\<exists>c. e' = e\<lparr>current := c\<rparr>" if "compare_exchange env x n e = (r, e')" for x n r e'
    using that unfolding compare_exchange_def by (auto split: prod.splits)
  obtain r e' where ce: "compare_exchange env (current_state e) (mk (Suc (length envs))) e = (r, e')"
    by fastforce
  show ?case
  proof (cases r)
    case (Inr u)
    with ce have "e' = e\<lparr>current := mk (Suc (length envs))\<rparr>" using swap by simp
    with ce Inr show ?thesis
      by (intro exI [of _ "Suc (length envs)"]) (simp add: abort_pending_def comp_def)
  next
    case (Inl st)
    from frame [OF ce] obtain c where e': "e' = e\<lparr>current := c\<rparr>" by blast
    from Cons [of e'] obtain i where "i \<le> length envs" "publish_change envs mk e' =
        (map_option (generation \<circ> deref) (pending e'), e'\<lparr>current := mk i, pending := None\<rparr>)" by blast
    with Inl ce e' show ?thesis by (intro exI [of _ i]) (simp add: comp_def)
  qed
qed

section \<open>Lookups\<close>

text \<open>An entry with the given lookup pending, in a state that satisfies the invariant.\<close>

lemma lookup_facts:
  assumes "gate_inv valid L g" "cells (gate_heap g) ea = Some e" "pending e = Some f"
  shows "pending_generation e (generation (deref f)) \<noteq> None"
    and "entry_ok (next_addr (gate_heap g)) ea e"
    and "ea \<in> slot_refs L (sm_entries (subjects g))"
  using assms heap_okD(2) [OF gate_invD(2) [OF assms(1)] assms(2)]
    pending_has_slot [OF gate_invD(1) [OF assms(1)] assms(2)]
  by (auto simp: pending_generation_def)

lemma refresh_result:
  assumes "gate_inv valid L g" and e: "cells (gate_heap g) ea = Some e" "pending e = Some f"
    and refresh: "fetch_refresh_from (deref f) = Some cur"
  shows "apply_fetch_result L clk k ea (generation (deref f)) (Some cur) result g =
    Some (map_sum id (\<lambda>_. ()) (prepare_result (config g) clk e result),
      set_heap (snd (with_entry ea (\<lambda>a e'. ((), apply_refresh (config g) (clk 1) (clk 2)
         (generation (deref f)) cur (map_sum id (Arc a) (prepare_result (config g) clk e result)) e'))
         () (gate_heap g))) g)"
  using lookup_facts(1) [OF assms(1-3)] by (auto simp: apply_fetch_result_def e Let_def)

text \<open>
  C9: a refresh cannot revive a decision. When the entry's decision was replaced since the
  refresh started (a watch change, or an observer that saw it expire), or the decision the
  refresh started from has expired when the result arrives, the result is dropped: the
  decision in force stays, and the refresh slot is free again.
\<close>

theorem refresh_cannot_revive:
  assumes "gate_inv valid L g" and "cells (gate_heap g) ea = Some e" "pending e = Some f"
    and "fetch_refresh_from (deref f) = Some cur"
    and "current e \<noteq> cur \<or> is_expired_at e (snap_word (deref cur)) (clk 1)"
  shows "\<exists>answer g' e'.
    apply_fetch_result L clk k ea (generation (deref f)) (Some cur) result g = Some (answer, g')
    \<and> cells (gate_heap g') ea = Some e' \<and> current e' = current e \<and> pending e' = None"
proof -
  note F = lookup_facts [OF assms(1-3)]
  let ?e = "apply_refresh (config g) (clk 1) (clk 2) (generation (deref f)) cur
    (map_sum id (Arc (next_addr (gate_heap g))) (prepare_result (config g) clk e result)) e"
  have "ptr_eq (current e) cur \<Longrightarrow> current e = cur"
    using F(2) assms(3,4) by (auto simp: entry_ok_def pending_ok_def ptr_eq_def)
  then have "current ?e = current e"
    using assms(5) by (auto simp: apply_refresh_eq(4) [OF F(1)] split: sum.split)
  then show ?thesis
    unfolding refresh_result [OF assms(1-4)] using apply_refresh_eq(1) [OF F(1)]
    by (simp add: with_entry_heap [OF assms(2)] set_heap_def)
qed

theorem refresh_cannot_revive_witness:
  "\<exists>answer g' e'. apply_fetch_result lru_list (\<lambda>_. 200) 7 0 (generation (deref ex_refresh)) (Some ex_cur)
      (Inr \<lparr> decision = DAllowed, payload = None, valid_until = None \<rparr>) ex_refreshing = Some (answer, g')
    \<and> cells (gate_heap g') 0 = Some e' \<and> current e' = current ex_entry \<and> pending e' = None"
  by (rule refresh_cannot_revive [OF _ ex_entry_cell ex_refresh_pending ex_refresh_from])
    (use ex_reachable_inv [OF ex_refreshing_reachable] ex_cur_expires in auto)

text \<open>
  C24: a failed refresh leaves the decision in force and its deadline untouched, frees the
  refresh slot, and starts a cooldown: no refresh of this decision is eligible before
  the configured permanent-failure cooldown has passed on the entry's clock.
\<close>

theorem failed_refresh_backs_off:
  assumes "gate_inv valid L g" and "cells (gate_heap g) ea = Some e" "pending e = Some f"
    and "fetch_refresh_from (deref f) = Some cur"
  shows "\<exists>g' e'. apply_fetch_result L clk k ea (generation (deref f)) (Some cur) (Inl err) g = Some (Inl err, g')
    \<and> cells (gate_heap g') ea = Some e' \<and> current e' = current e \<and> pending e' = None
    \<and> (\<forall>t. unat (entry_tick e' t) < min (unat (entry_tick e (clk 2)) + permanent_failure_cooldown (config g)) (2 ^ 64 - 1)
         \<longrightarrow> \<not> refresh_eligible_at e' (deref (current e')) t)"
proof -
  note F = lookup_facts [OF assms(1-3)]
  let ?e = "apply_refresh (config g) (clk 1) (clk 2) (generation (deref f)) cur (Inl err) e"
  note R = refresh_result [OF assms(1-4), of clk k "Inl err"]
  have tick: "entry_tick ?e = entry_tick e"
    using apply_refresh_eq(2) [OF F(1)] by (simp add: entry_tick_def fun_eq_iff)
  have "unat (case u64_try_from d of Some n \<Rightarrow> n | None \<Rightarrow> U64_MAX) = min d (2 ^ 64 - 1)" for d
    by (cases "u64_try_from d") (auto simp: u64_try_from_None_iff unat_U64_MAX u64_try_from_def unat_of_nat
        take_bit_eq_mod split: if_splits)
  then have "unat (refresh_not_before ?e) =
      min (unat (entry_tick e (clk 2)) + permanent_failure_cooldown (config g)) (2 ^ 64 - 1)"
    by (simp add: apply_refresh_eq(5) [OF F(1)] unat_saturating_add)
  then have "\<not> refresh_eligible_at ?e (deref (current ?e)) t"
    if "unat (entry_tick ?e t) < min (unat (entry_tick e (clk 2)) + permanent_failure_cooldown (config g)) (2 ^ 64 - 1)" for t
    using that by (simp add: refresh_eligible_at_def Let_def word_le_nat_alt not_le)
  then show ?thesis
    unfolding R using apply_refresh_eq(1,4) [OF F(1)]
    by (simp add: with_entry_heap [OF assms(2)] set_heap_def prepare_result_def)
qed

theorem failed_refresh_backs_off_witness:
  "\<exists>g' e'. apply_fetch_result lru_list (\<lambda>_. 75) 7 0 (generation (deref ex_refresh)) (Some ex_cur)
      (Inl (transient ''down'')) ex_refreshing = Some (Inl (transient ''down''), g')
    \<and> cells (gate_heap g') 0 = Some e' \<and> current e' = current ex_entry \<and> pending e' = None
    \<and> (\<forall>t. unat (entry_tick e' t) < min (unat (entry_tick ex_entry 75) + permanent_failure_cooldown (config ex_refreshing)) (2 ^ 64 - 1)
         \<longrightarrow> \<not> refresh_eligible_at e' (deref (current e')) t)"
  by (rule failed_refresh_backs_off [OF _ ex_entry_cell ex_refresh_pending ex_refresh_from])
    (use ex_reachable_inv [OF ex_refreshing_reachable] in auto)



text \<open>
  C14: once a lookup is superseded it can never report. If in some reachable state no entry
  has this lookup pending (a watch change, an eviction, a disconnect or a refresh of its
  own took its place), then in every later state applying its result, whatever it is,
  changes nothing.
\<close>

theorem superseded_lookup_ignored:
  assumes "subject_cache L valid" "config_valid now0 cfg" "max_reconnect_delay cfg \<le> DURATION_MAX"
    and "sys_reachable L cfg s" "(sys_step L)\<^sup>*\<^sup>* s s'"
    and "fetch_issued (gate_heap (snd s)) f"
    and "\<forall>a e. cells (gate_heap (snd s)) a = Some e \<longrightarrow> pending e \<noteq> Some f"
  shows "\<exists>answer. apply_fetch_result L clk k ea (generation (deref f)) rf result (snd s') = Some (answer, snd s')"
proof -
  have later: "heap_evolves (gate_heap (snd s)) (gate_heap (snd s'))"
    using subject_cache.run_evolves [OF assms(1,5,4,2,3)] by (simp add: gate_evolves_def map_evolves_def)
  have "pending_generation e (generation (deref f)) = None"
    if e: "cells (gate_heap (snd s')) ea = Some e" for e
  proof (rule ccontr)
    assume "\<not> ?thesis"
    then obtain p where p: "pending e = Some p" "generation (deref p) = generation (deref f)"
      using iffD1 [OF pending_generation_Some] by blast
    from heap_evolves_pending [OF later e p(1)] assms(6) p(2)
    obtain e0 where "cells (gate_heap (snd s)) ea = Some e0" "pending e0 = Some p"
      by (auto simp: fetch_issued_def)
    with assms(6,7) p(2) show False unfolding fetch_issued_def by blast
  qed
  then show ?thesis by (simp add: apply_fetch_result_def split: option.split)
qed

theorem superseded_lookup_ignored_witness:
  "\<exists>answer. apply_fetch_result lru_list (\<lambda>_. 80) 7 0 (generation (deref ex_fetch)) None
     (Inr \<lparr> decision = DDenied, payload = None, valid_until = None \<rparr>) ex_refreshing = Some (answer, ex_refreshing)"
proof -
  have "(sys_step lru_list)\<^sup>*\<^sup>* (fst ex_open, ex_allowed) (fst ex_open, ex_refreshing)"
    unfolding ex_refreshing_def by (intro r_into_rtranclp sys_step.client gate_step.refresh)
  from superseded_lookup_ignored [OF list_cache.subject_cache_axioms ex_cfg_valid ex_cfg_duration
      ex_allowed_reachable this, of ex_fetch] ex_fetch_done show ?thesis by simp
qed

section \<open>Witnesses for the component theories\<close>

theorem entry_loops_linearizable_witness:
  "(\<exists>us vs. [\<lambda>m. m] = us @ vs \<and>
      compare_exchange [\<lambda>m. m] EAllowed ex_cur ex_entry = compare_exchange [] EAllowed ex_cur (interfered us ex_entry))
    \<and> (\<exists>us vs. [\<lambda>m. m] = us @ vs \<and> current_at [\<lambda>m. m] 9 200 ex_entry = current_at [] 9 200 (interfered us ex_entry))
    \<and> (\<exists>us vs. [\<lambda>m. m] = us @ vs \<and> invalidate [\<lambda>m. m] 9 ex_entry = invalidate [] 9 (interfered us ex_entry))"
  by (rule entry_loops_linearizable) simp

lemma ex_entry_expires: "is_expired_at ex_entry (current_word ex_entry) 200"
  by code_simp


text \<open>A second admission of subject 7 finds the decision in the map.\<close>

definition ex_hit :: "(nat, string) admit_task \<times> ((nat, subject_slot) lru_list, nat, string) gate" where
  "ex_hit = the (admit_poll lru_list (ex_input 5) ((ex_task 7)\<lparr>at_pc := AEntry 0\<rparr>, ex_allowed))"

theorem admit_returns_authoritative_witness:
  "(\<exists>i. authoritative 0 (in_clock (ex_input 5) i) (gate_heap (snd ex_hit)))
    \<and> (at_pc ((ex_task 7)\<lparr>at_pc := AEntry 0\<rparr>) = AEntry 0 \<or> (\<exists>f. at_pc ((ex_task 7)\<lparr>at_pc := AEntry 0\<rparr>) = AJoin 0 f))"
proof (rule admit_returns_authoritative)
  show "admit_poll lru_list (ex_input 5) ((ex_task 7)\<lparr>at_pc := AEntry 0\<rparr>, ex_allowed) = Some (fst ex_hit, snd ex_hit)"
    unfolding ex_hit_def prod.collapse by (rule some_the) code_simp
  show "at_pc (fst ex_hit) = ADone (Some 0)"
    by code_simp
qed simp


lemma ex_cfg_delays:
  "initial_admission_retry_delay ex_cfg \<le> max_admission_retry_delay ex_cfg"
  "max_admission_retry_delay ex_cfg \<le> DURATION_MAX"
  by code_simp+

theorem jitter_bounds_witness:
  "3 * (100 * 10 ^ 6) \<le> 4 * jitter 7 (100 * 10 ^ 6) \<and> 4 * jitter 7 (100 * 10 ^ 6) < 5 * (100 * 10 ^ 6)"
  by (rule jitter_bounds) simp_all

end
