(* ===== verification/Reads.thy ===== *)
theory Reads
  imports System
begin

text \<open>
  Reads that hit: a subject whose published entry holds a fresh verdict is served from the
  cache, the read leaves that entry as it is, and keeps its slot in the map.
\<close>

section \<open>Eviction spares the slots it keeps\<close>

context subject_cache
begin

lemma evict_loop_frame:
  assumes "subjects_inv valid L m" "a \<in> slot_refs L (sm_entries (evict_loop L n ttl now m))"
  shows "cells (sm_heap (evict_loop L n ttl now m)) a = cells (sm_heap m) a
    \<and> a \<in> slot_refs L (sm_entries m)"
  using assms
proof (induction n arbitrary: m)
  case 0
  then show ?case by simp
next
  case (Suc n)
  show ?case
  proof (cases "\<exists>k s c'. lru_pop_lru L (sm_entries m) = (Some (k, s), c') \<and> slot_idle ttl now s")
    case True
    then obtain k s c' where pop: "lru_pop_lru L (sm_entries m) = (Some (k, s), c')"
      and idle: "slot_idle ttl now s" by blast
    note P = inv_pop_lru [OF Suc.prems(1) pop]
    let ?m = "retire_slot s (m\<lparr>sm_entries := c'\<rparr>)"
    have eq: "evict_loop L (Suc n) ttl now m = evict_loop L n ttl now ?m"
      using P idle pop peek_lru [OF map_invD(1) [OF Suc.prems(1)]] by simp
    have "subjects_inv valid L ?m"
      using P by (simp add: retire_slot_def)
    from Suc.IH [OF this] Suc.prems(2) eq
    have IH: "cells (sm_heap (evict_loop L (Suc n) ttl now m)) a = cells (sm_heap ?m) a"
      "a \<in> slot_refs L c'" by (simp_all add: retire_slot_def)
    from image_butlast [OF P(5) map_invD(3) [OF Suc.prems(1)]] P(4,6) IH(2)
    have "a \<in> slot_refs L (sm_entries m)" "a \<noteq> slot_entry s"
      by (simp_all add: slot_refs_def)
    with IH(1) show ?thesis
      by (simp add: retire_slot_def invalidate_action.act_frame)
  next
    case False
    then have "evict_loop L (Suc n) ttl now m = m"
      using peek_lru [OF map_invD(1) [OF Suc.prems(1)]] pop_lru [OF map_invD(1) [OF Suc.prems(1)]]
      by (auto split: if_splits prod.splits)
    with Suc.prems show ?thesis by simp
  qed
qed

lemma evict_frame:
  assumes "subjects_inv valid L m" "a \<in> slot_refs L (sm_entries (evict L now m))"
  shows "cells (sm_heap (evict L now m)) a = cells (sm_heap m) a" "a \<in> slot_refs L (sm_entries m)"
  using evict_loop_frame [OF assms(1)] assms(2) unfolding evict_def by auto

lemma slot_pairs_peek:
  assumes inv: "map_inv valid L c h" and "(k, a) \<in> slot_pairs L c"
  shows "\<exists>s. lru_peek L k c = Some s \<and> slot_entry s = a"
proof -
  from assms(2) obtain s where "(k, s) \<in> set (lru_iter L c)" "slot_entry s = a"
    by (auto simp: slot_pairs_def)
  with peek [OF map_invD(1) [OF inv], of k] keys_distinct [OF map_invD(1) [OF inv]]
  show ?thesis by simp
qed

lemma peek_pairs:
  assumes inv: "map_inv valid L c h" and p: "lru_peek L k c = Some s"
  shows "(k, slot_entry s) \<in> slot_pairs L c"
proof -
  from p peek [OF map_invD(1) [OF inv], of k] have "(k, s) \<in> set (lru_iter L c)"
    by (simp add: map_of_SomeD)
  then show ?thesis by (force simp: slot_pairs_def)
qed

text \<open>Touching a subject through its own entry: the slot stays and the entry is untouched.\<close>

lemma map_touch_hit:
  assumes inv: "subjects_inv valid L m" and pair: "(k, ea) \<in> slot_pairs L (sm_entries m)"
    and r: "map_touch L k ea now m = (matched, m')"
  shows "matched" "(k, ea) \<in> slot_pairs L (sm_entries m')"
    and "cells (sm_heap m') ea = cells (sm_heap m) ea"
proof -
  let ?t = "map_tick m now"
  from slot_pairs_peek [OF inv pair] obtain s where s: "lru_peek L k (sm_entries m) = Some s" "slot_entry s = ea"
    by blast
  with peek [OF map_invD(1) [OF inv], of k] have "map_of (lru_iter L (sm_entries m)) k = Some s" by simp
  from get_mut_Some [OF map_invD(1) [OF inv] this] obtain put
    where get: "lru_get_mut L k (sm_entries m) = Some (s, put)" by auto
  let ?m = "m\<lparr>sm_entries := put (slot_touch ?t s)\<rparr>"
  note T = inv_touch [OF inv get, of "slot_touch ?t s"]
  have inv': "subjects_inv valid L ?m" using T(1) by (simp add: slot_touch_def)
  have m': "m' = evict L ?t ?m" and "matched"
    using r s get by (simp_all add: map_touch_def Let_def)
  then show "matched" by simp
  have "lru_peek L k (sm_entries (evict L ?t ?m)) = Some (slot_touch ?t s)"
    by (rule evict_lookup_front [OF inv']) (use T(5) in \<open>auto simp: slot_touch_def\<close>)
  from peek_pairs [OF conjunct1 [OF evict_inv [OF inv']] this] s(2)
  have pair': "(k, ea) \<in> slot_pairs L (sm_entries (evict L ?t ?m))" by (simp add: slot_touch_def)
  then show "(k, ea) \<in> slot_pairs L (sm_entries m')" by (simp add: m')
  from pair' have "ea \<in> slot_refs L (sm_entries (evict L ?t ?m))" by (force simp: slot_refs_pairs)
  from evict_frame(1) [OF inv' this] show "cells (sm_heap m') ea = cells (sm_heap m) ea" by (simp add: m')
qed

end

section \<open>Fresh verdicts\<close>

text \<open>The entry at \<open>ea\<close> holds a verdict that is fresh at \<open>now\<close>.\<close>

definition fresh :: "nat \<Rightarrow> instant \<Rightarrow> decision \<Rightarrow> ('k, 'p) heap \<Rightarrow> bool" where
  "fresh ea now d h \<longleftrightarrow>
     (case cells h ea of
        None \<Rightarrow> False
      | Some e \<Rightarrow> \<not> is_expired_at e (current_word e) now \<and> current_state e = entry_state_of d)"

lemma fresh_entry:
  assumes "fresh ea now d h"
  obtains e where "cells h ea = Some e" "\<not> is_expired_at e (current_word e) now"
    "current_state e = entry_state_of d"
  using assms by (auto simp: fresh_def split: option.splits)

lemma fresh_cong: "cells h ea = cells h' ea \<Longrightarrow> fresh ea now d h = fresh ea now d h'"
  by (simp add: fresh_def)

lemma expire_fresh: "\<not> is_expired_at e (current_word e) now \<Longrightarrow> expire a now e = e"
  by (simp add: expire_def current_at_quiet)

lemma entry_state_of_eq [simp]:
  "entry_state_of d = EAllowed \<longleftrightarrow> d = DAllowed" "entry_state_of d = EDenied \<longleftrightarrow> d = DDenied"
  by (cases d; simp)+

lemma verdict_at_fresh:
  assumes "fresh ea now d h"
  shows "with_entry ea (\<lambda>a. verdict_at a now) None h = (Some d, h\<lparr>next_addr := Suc (next_addr h)\<rparr>)"
proof -
  from assms obtain e where e: "cells h ea = Some e" "\<not> is_expired_at e (current_word e) now"
    "current_state e = entry_state_of d" by (rule fresh_entry)
  then have "(cells h)(ea \<mapsto> e) = cells h" by auto
  with e show ?thesis
    by (cases d) (simp_all add: with_entry_heap verdict_at_eq expire_fresh)
qed

lemma admission_fresh:
  assumes "fresh ea now d h"
  shows "with_entry ea (\<lambda>a. admission a now) False h = (True, h\<lparr>next_addr := Suc (next_addr h)\<rparr>)"
proof -
  from assms obtain e where e: "cells h ea = Some e" "\<not> is_expired_at e (current_word e) now"
    "current_state e = entry_state_of d" by (rule fresh_entry)
  then have "(cells h)(ea \<mapsto> e) = cells h" by auto
  with e show ?thesis
    by (cases d) (simp_all add: with_entry_heap admission_eq expire_fresh)
qed

lemma fresh_not_retired: "fresh ea now d h \<Longrightarrow> cells h ea = Some e \<Longrightarrow> \<not> retired e"
  by (cases d) (auto simp: fresh_def retired_def)

context subject_cache
begin

text \<open>A published entry with a verdict is the map's own entry for that subject.\<close>

lemma snapshot_slot:
  assumes inv: "gate_inv valid L g" and snap: "snapshot g k = Some ea"
    and fresh: "fresh ea now d (gate_heap g)"
  shows "(k, ea) \<in> slot_pairs L (sm_entries (subjects g))"
proof -
  from fresh obtain e where e: "cells (gate_heap g) ea = Some e" by (rule fresh_entry)
  have "ea \<in> slot_refs L (sm_entries (subjects g))"
    using map_invD(5) [OF gate_invD(1) [OF inv] e] fresh_not_retired [OF fresh e] by blast
  then obtain k' where k': "(k', ea) \<in> slot_pairs L (sm_entries (subjects g))"
    by (auto simp: slot_refs_pairs)
  with inv snap have "k' = k" by (auto simp: gate_inv_def)
  with k' show ?thesis by simp
qed

lemma check_hit:
  assumes inv: "gate_inv valid L g" and snap: "snapshot g k = Some ea"
    and fresh: "fresh ea (clk 0) d (gate_heap g)" "fresh ea (clk 2) d (gate_heap g)"
  shows "\<exists>g'. check_without_refresh L clk k g = (Some ea, g')
    \<and> cells (gate_heap g') ea = cells (gate_heap g) ea \<and> config g' = config g
    \<and> metrics g' = metrics g \<and> snapshot g' = snapshot g"
proof -
  let ?h = "gate_heap g"
  let ?m = "(subjects g)\<lparr>sm_heap := ?h\<lparr>next_addr := Suc (next_addr ?h)\<rparr>\<rparr>"
  have inv1: "subjects_inv valid L ?m"
    using map_inv_bump [OF gate_invD(1) [OF inv], of "Suc (next_addr ?h)"] by simp
  obtain matched m' where touch: "map_touch L k ea (clk 1) ?m = (matched, m')" by fastforce
  from snapshot_slot [OF inv snap fresh(1)] have "(k, ea) \<in> slot_pairs L (sm_entries ?m)" by simp
  note T = map_touch_hit [OF inv1 this touch]
  from T(3) fresh(2) fresh_cong [of "sm_heap m'" ea ?h] have fresh': "fresh ea (clk 2) d (sm_heap m')"
    by simp
  show ?thesis
    using T(3)
    by (simp add: check_without_refresh_def snap verdict_at_fresh [OF fresh(1)] set_heap_def touch
        admission_fresh [OF fresh'] del: One_nat_def)
qed

end

end
