(* ===== verification/Effects.thy ===== *)
theory Effects
  imports Reads
begin

text \<open>
  What the operations of the subject map do to one tracked subject: its slot, its entry and
  the lookup in flight for it. The properties of watch changes, failed lookups and
  evictions are read off these lemmas.
\<close>

section \<open>The lookup of a pending entry\<close>

lemma pending_entry_fetch:
  assumes "heap_ok h" "cells h ea = Some e" "current_state e = EPending" "pending e = Some f"
  shows "fetch_entry (deref f) = ea" "fetch_refresh_from (deref f) = None"
    "generation (deref f) \<notin> set (aborted h)" "generation (deref f) < next_addr h"
    "\<not> is_expired_at e (current_word e) now"
proof -
  have ok: "entry_ok (next_addr h) ea e" "generation (deref f) \<notin> set (aborted h)"
    using heap_okD [OF assms(1,2)] assms(4) by simp_all
  then have "pending_ok (next_addr h) ea e f" using assms(4) by (simp add: entry_ok_def)
  then show "fetch_entry (deref f) = ea" "fetch_refresh_from (deref f) = None"
    "generation (deref f) < next_addr h"
    using assms(3) by (auto simp: pending_ok_def split: option.splits)
  show "\<not> is_expired_at e (current_word e) now" by (rule entry_ok_pending_not_expired [OF ok(1) assms(3)])
qed (use heap_okD(3) [OF assms(1,2)] assms(4) in simp)

section \<open>Updating and removing a tracked subject\<close>

lemma republish_subjects:
  "republish_if_due L now g = Some g' \<Longrightarrow>
    gate_heap g' = gate_heap g \<and> sm_entries (subjects g') = sm_entries (subjects g)"
  by (auto simp: republish_if_due_def republish_claim_def republish_clear_dirty_def republish_store_def
      log_def Let_def split: if_splits Option.bind_splits)

lemma mark_dirty_subjects [simp]:
  "gate_heap (mark_dirty g) = gate_heap g" "sm_entries (subjects (mark_dirty g)) = sm_entries (subjects g)"
  by (simp_all add: mark_dirty_def)

lemma record_abort_of:
  "set (aborted (record_abort (map_option (generation \<circ> deref) p) h)) =
    (case p of None \<Rightarrow> {} | Some f \<Rightarrow> {generation (deref f)}) \<union> set (aborted h)"
  by (simp add: record_abort_def split: option.split)

lemma heap_invalidate_effect:
  assumes "cells h ea = Some e"
  shows "\<exists>e'. cells (heap_invalidate ea h) ea = Some e' \<and> retired e'"
    and "set (aborted (heap_invalidate ea h)) =
      (case pending e of None \<Rightarrow> {} | Some f \<Rightarrow> {generation (deref f)}) \<union> set (aborted h)"
proof -
  show "\<exists>e'. cells (heap_invalidate ea h) ea = Some e' \<and> retired e'"
    by (rule heap_invalidate_retires [OF assms])
  show "set (aborted (heap_invalidate ea h)) =
      (case pending e of None \<Rightarrow> {} | Some f \<Rightarrow> {generation (deref f)}) \<union> set (aborted h)"
    by (simp add: heap_invalidate_def with_entry_heap [OF assms] invalidate_quiet record_abort_of)
qed

context subject_cache
begin

lemma tracked_slot:
  assumes inv: "subjects_inv valid L m" and s: "(k, s) \<in> set (lru_iter L (sm_entries m))"
    and active: "\<not> slot_idle (ttl_ticks m) now s"
  shows "map_of (lru_iter L (sm_entries (evict L now m))) k = Some s"
    and "lru_peek L k (sm_entries (evict L now m)) = Some s"
    and "\<exists>e. cells (sm_heap m) (slot_entry s) = Some e \<and>
      cells (sm_heap (evict L now m)) (slot_entry s) = Some e"
proof -
  let ?m = "evict L now m"
  note M = conjunct1 [OF evict_inv [OF inv, of now]]
  have "(k, s) \<in> set (lru_iter L (sm_entries ?m))" by (rule evict_keeps_active [OF assms])
  with keys_distinct [OF map_invD(1) [OF M]] show k: "map_of (lru_iter L (sm_entries ?m)) k = Some s" by simp
  with peek [OF map_invD(1) [OF M], of k] show peek: "lru_peek L k (sm_entries ?m) = Some s" by simp
  from peek_ref(1) [OF M peek] have a: "slot_entry s \<in> slot_refs L (sm_entries ?m)" .
  with map_invD(4) [OF M] obtain e where "cells (sm_heap ?m) (slot_entry s) = Some e" by blast
  moreover from this evict_frame(1) [OF inv a] have "cells (sm_heap m) (slot_entry s) = Some e" by simp
  ultimately show "\<exists>e. cells (sm_heap m) (slot_entry s) = Some e \<and>
      cells (sm_heap ?m) (slot_entry s) = Some e" by blast
qed

lemma update_effect:
  assumes inv: "subjects_inv valid L m" and s: "(k, s) \<in> set (lru_iter L (sm_entries m))"
    and active: "\<not> slot_idle (ttl_ticks m) (map_tick m now) s"
    and m': "m' = map_update L k now (change_entry cfg t d) m"
  shows "\<exists>e e'. cells (sm_heap m) (slot_entry s) = Some e \<and> cells (sm_heap m') (slot_entry s) = Some e'
    \<and> pending e' = None \<and> current_state e' = entry_state_of d
    \<and> (case pending e of None \<Rightarrow> True | Some f \<Rightarrow> generation (deref f) \<in> set (aborted (sm_heap m')))
    \<and> lru_peek L k (sm_entries m') = Some s"
proof -
  note T = tracked_slot [OF inv s active]
  from T(3) obtain e where e: "cells (sm_heap m) (slot_entry s) = Some e"
    "cells (sm_heap (evict L (map_tick m now) m)) (slot_entry s) = Some e" by blast
  with T(2) show ?thesis
    by (auto simp: m' map_update_def Let_def change_entry_eq record_abort_def split: option.split)
qed

lemma remove_effect:
  assumes inv: "subjects_inv valid L m" and s: "(k, s) \<in> set (lru_iter L (sm_entries m))"
    and active: "\<not> slot_idle (ttl_ticks m) (map_tick m now) s"
    and m': "m' = snd (map_remove L k now m)"
  shows "\<exists>e e'. cells (sm_heap m) (slot_entry s) = Some e \<and> cells (sm_heap m') (slot_entry s) = Some e'
    \<and> pending e' = None \<and> current_state e' = EStale
    \<and> (case pending e of None \<Rightarrow> True | Some f \<Rightarrow> generation (deref f) \<in> set (aborted (sm_heap m')))
    \<and> lru_peek L k (sm_entries m') = None"
proof -
  let ?m = "evict L (map_tick m now) m"
  note T = tracked_slot [OF inv s active]
  note V = map_invD(1) [OF conjunct1 [OF evict_inv [OF inv, of "map_tick m now"]]]
  from pop [OF V, of k] T(1) obtain c where c: "lru_pop L k (sm_entries ?m) = (Some s, c)" "valid c"
    "lru_iter L c = [p \<leftarrow> lru_iter L (sm_entries ?m). fst p \<noteq> k]" by auto
  then have m'': "m' = ?m\<lparr>sm_entries := c, sm_heap := heap_invalidate (slot_entry s) (sm_heap ?m)\<rparr>"
    by (simp add: m' map_remove_def pop_slot_def)
  from T(3) obtain e where e: "cells (sm_heap m) (slot_entry s) = Some e"
    "cells (sm_heap ?m) (slot_entry s) = Some e" by blast
  have "map_of (lru_iter L c) k = None"
    by (auto simp: c(3) map_of_eq_None_iff)
  then have "lru_peek L k c = None" by (simp add: peek [OF c(2)])
  with e(1) heap_invalidate_effect [OF e(2)] show ?thesis
    by (auto simp: m'' retired_def split: option.split)
qed

lemma apply_decision_effect:
  assumes inv: "gate_inv valid L g" and s: "(k, s) \<in> set (lru_iter L (sm_entries (subjects g)))"
    and active: "\<not> slot_idle (ttl_ticks (subjects g)) (map_tick (subjects g) (clk 0)) s"
    and g': "apply_change L clk \<lparr> change_subject = k, change_decision = Some d \<rparr> g = Some g'"
  shows "\<exists>e e'. cells (gate_heap g) (slot_entry s) = Some e \<and> cells (gate_heap g') (slot_entry s) = Some e'
    \<and> pending e' = None \<and> current_state e' = entry_state_of d
    \<and> (case pending e of None \<Rightarrow> True | Some f \<Rightarrow> generation (deref f) \<in> set (aborted (gate_heap g')))
    \<and> lru_peek L k (sm_entries (subjects g')) = Some s"
  using update_effect [OF gate_invD(1) [OF inv] s active refl, of "config g" "clk 1" d] g'
  by (auto simp: apply_change_def Let_def dest!: republish_subjects cong: option.case_cong)

lemma apply_withdrawal_effect:
  assumes inv: "gate_inv valid L g" and s: "(k, s) \<in> set (lru_iter L (sm_entries (subjects g)))"
    and active: "\<not> slot_idle (ttl_ticks (subjects g)) (map_tick (subjects g) (clk 0)) s"
    and g': "apply_change L clk \<lparr> change_subject = k, change_decision = None \<rparr> g = Some g'"
  shows "\<exists>e e'. cells (gate_heap g) (slot_entry s) = Some e \<and> cells (gate_heap g') (slot_entry s) = Some e'
    \<and> pending e' = None \<and> current_state e' = EStale
    \<and> (case pending e of None \<Rightarrow> True | Some f \<Rightarrow> generation (deref f) \<in> set (aborted (gate_heap g')))
    \<and> lru_peek L k (sm_entries (subjects g')) = None"
  using remove_effect [OF gate_invD(1) [OF inv] s active refl] g'
  by (auto simp: apply_change_def Let_def case_prod_beta dest!: republish_subjects split: if_splits
      cong: option.case_cong)

section \<open>Inserting into a full cache\<close>

lemma evict_idle_free:
  assumes inv: "subjects_inv valid L m" and busy: "\<And>p. p \<in> set (lru_iter L (sm_entries m)) \<Longrightarrow>
      \<not> slot_idle (ttl_ticks m) now (snd p)"
  shows "evict L now m = m"
proof (cases "lru_iter L (sm_entries m)")
  case (Cons p ps)
  then have last: "lru_peek_lru L (sm_entries m) = Some (last (lru_iter L (sm_entries m)))"
    "last (lru_iter L (sm_entries m)) \<in> set (lru_iter L (sm_entries m))"
    using peek_lru [OF map_invD(1) [OF inv]] by simp_all
  obtain k s where ks: "last (lru_iter L (sm_entries m)) = (k, s)" by fastforce
  obtain n where "length (lru_iter L (sm_entries m)) = Suc n" using Cons by simp
  with last ks busy [OF last(2)] show ?thesis by (simp add: evict_def)
qed (simp add: evict_def)

lemma heap_invalidate_frame: "b \<noteq> ea \<Longrightarrow> cells (heap_invalidate ea h) b = cells h b"
  by (simp add: heap_invalidate_def with_entry_cells case_prod_beta split: option.split)

lemma insert_full_effect:
  assumes inv: "subjects_inv valid L m" and create: "entry_creation create"
    and cr: "create (sm_heap m) = (ea, h)" and full: "length (ps @ [(k', s')]) = lru_cap L (sm_entries m)"
    and iter: "lru_iter L (sm_entries m) = ps @ [(k', s')]" and new: "k \<notin> fst ` set (ps @ [(k', s')])"
    and busy: "\<And>p. p \<in> set (ps @ [(k', s')]) \<Longrightarrow> \<not> slot_idle (ttl_ticks m) (map_tick m now) (snd p)"
    and res: "get_or_insert_with L k now create m = (r, m')"
  shows "r = (ea, True)" and "sm_heap m' = heap_invalidate (slot_entry s') h" and "sm_shape_dirty m'"
    and "lru_iter L (sm_entries m') = (k, \<lparr> slot_entry = ea, last_touched = map_tick m now \<rparr>) # ps"
proof -
  note v = map_invD(1) [OF inv]
  let ?s = "\<lparr> slot_entry = ea, last_touched = map_tick m now \<rparr>"
  have none: "map_of (lru_iter L (sm_entries m)) k = None"
    using new by (auto simp: iter map_of_eq_None_iff)
  have evict1: "evict L (map_tick m now) m = m" by (rule evict_idle_free [OF inv]) (simp add: busy iter)
  from push_full [OF v none] full iter obtain c where
    c: "lru_push L k ?s (sm_entries m) = (Some (k', s'), c)" "valid c" "lru_iter L c = (k, ?s) # ps"
    by (metis last_snoc butlast_snoc)
  define m1 where "m1 = retire_slot s' (m\<lparr>sm_heap := h, sm_entries := c\<rparr>)"
  have "subjects_inv valid L m1 \<and> map_evolves L m m1"
    by (rule insert_step [OF inv create cr none c(1)]) (simp_all add: m1_def)
  moreover have fields: "sm_entries m1 = c" "ttl_ticks m1 = ttl_ticks m" "sm_shape_dirty m1"
    "sm_heap m1 = heap_invalidate (slot_entry s') h"
    by (simp_all add: m1_def retire_slot_def ttl_ticks_def)
  ultimately have evict2: "evict L (map_tick m now) m1 = m1"
    using busy touched_not_idle [of "map_tick m now" ?s]
    by (intro evict_idle_free) (auto simp: c(3) simp del: slot_idle_def)
  have "get_or_insert_with L k now create m = ((ea, True), m1)"
    using get_mut_None [OF v none] evict1 evict2
    by (simp add: get_or_insert_with_def Let_def cr c(1) m1_def)
  with res fields c(3) show "r = (ea, True)" "sm_heap m' = heap_invalidate (slot_entry s') h"
    "sm_shape_dirty m'" "lru_iter L (sm_entries m') = (k, ?s) # ps" by auto
qed

section \<open>A failed lookup\<close>

lemma remove_if_effect:
  assumes inv: "subjects_inv valid L m" and act: "entry_action (\<lambda>ea h. snd (pred ea h))"
    and s: "(k, s) \<in> set (lru_iter L (sm_entries m))"
    and active: "\<not> slot_idle (ttl_ticks m) (map_tick m now) s"
    and holds: "\<And>h e. cells h (slot_entry s) = cells (sm_heap m) (slot_entry s) \<Longrightarrow> fst (pred (slot_entry s) h)"
    and res: "map_remove_if L k now pred m = (removed, m')"
  shows "removed" "lru_peek L k (sm_entries m') = None"
    and "\<exists>e'. cells (sm_heap m') (slot_entry s) = Some e' \<and> retired e'"
proof -
  let ?m = "evict L (map_tick m now) m"
  note T = tracked_slot [OF inv s active]
  have inv1: "subjects_inv valid L ?m" using evict_inv [OF inv] by blast
  note V = map_invD(1,2) [OF inv1]
  define m1 where "m1 = ?m\<lparr>sm_heap := snd (pred (slot_entry s) (sm_heap ?m))\<rparr>"
  from T(3) obtain e where e: "cells (sm_heap m) (slot_entry s) = Some e"
    "cells (sm_heap ?m) (slot_entry s) = Some e" by blast
  have "fst (pred (slot_entry s) (sm_heap ?m))" by (rule holds) (simp add: e)
  then have r: "(removed, m') = pop_slot L k m1"
    using res T(2) by (simp add: map_remove_if_def Let_def case_prod_beta m1_def)
  from pop [OF V(1), of k] T(1) obtain c where
    c: "lru_pop L k (sm_entries ?m) = (Some s, c)" "valid c" "lru_iter L c = [p \<leftarrow> lru_iter L (sm_entries ?m). fst p \<noteq> k]"
    by auto
  with r have m': "removed" "m' = m1\<lparr>sm_entries := c, sm_heap := heap_invalidate (slot_entry s) (sm_heap m1)\<rparr>"
    by (simp_all add: pop_slot_def m1_def)
  then show removed by simp
  have "map_of (lru_iter L c) k = None" by (auto simp: c(3) map_of_eq_None_iff)
  with m' show "lru_peek L k (sm_entries m') = None" by (simp add: peek [OF c(2)])
  from entry_action.act_evolves [OF act V(2)] heap_evolves_entry e(2)
  obtain e1 where "cells (sm_heap m1) (slot_entry s) = Some e1" by (fastforce simp: m1_def)
  from heap_invalidate_effect(1) [OF this] m'
  show "\<exists>e'. cells (sm_heap m') (slot_entry s) = Some e' \<and> retired e'" by simp
qed

end

end
