(* ===== verification/System_Properties.thy ===== *)
theory System_Properties
  imports Scenario Reads Effects
begin

text \<open>
  Properties of the reachable states of the whole system: what a lost watch and a watch
  change do to every handle, the bounds of the shared state, that handles never panic, and
  the contract of the timeouts every wait goes through.
\<close>

section \<open>A lost watch\<close>

text \<open>
  C5: losing the watch is final for every handle. Whenever a step of the system turns the
  connection off, every entry that existed before is stale in every later state, whatever
  reconnects, lookups, watch changes and refreshes follow; no handle taken before the loss
  ever reads as allowed again.
\<close>

theorem disconnect_is_final:
  assumes "subject_cache L valid" "config_valid now0 cfg" "max_reconnect_delay cfg \<le> DURATION_MAX"
    and "sys_reachable L cfg s" "sys_step L s s1" "connected (snd s)" "\<not> connected (snd s1)"
    and "(sys_step L)\<^sup>*\<^sup>* s1 s'"
    and "cells (gate_heap (snd s)) a = Some e"
  shows "\<exists>e'. cells (gate_heap (snd s')) a = Some e' \<and> current_state e' = EStale \<and> pending e' = None
    \<and> (\<forall>now n. fst (admission_is_allowed n now e') = Some False)"
proof -
  have r1: "sys_reachable L cfg s1" by (rule sys_reachable.step [OF assms(4,5)])
  from assms(5,6,7) have "watch_step L s s1"
    by (auto elim!: sys_step.cases simp: same_watch_def dest!: gate_step_same_watch)
  from watch_step_disconnects [OF this assms(6,7)]
  have "subjects (snd s1) = map_clear L (subjects (snd s))"
    by (auto simp: watch_disconnected_subjects)
  from subject_cache.cleared_forever [OF assms(1,4) this r1 assms(8,2,3,9)]
  obtain e' where "cells (gate_heap (snd s')) a = Some e'" "retired e'" by blast
  then show ?thesis
    by (auto simp: retired_def admission_is_allowed_def admission_state_at_def observed_at_eq expire_state
        split: if_splits)
qed

section \<open>A watch change\<close>

text \<open>
  C8: a watch change for a tracked subject takes effect at once on every handle. A decision
  is in force in the subject's entry, which keeps its place in the map; a withdrawal takes
  the entry out of the map and leaves it stale. In both cases nothing is in flight for the
  entry and the lookup that was is aborted.
\<close>

theorem watch_change_takes_effect:
  assumes "subject_cache L valid" "gate_inv valid L g"
    and "(change_subject ch, s) \<in> set (lru_iter L (sm_entries (subjects g)))"
    and "\<not> slot_idle (ttl_ticks (subjects g)) (map_tick (subjects g) (clk 0)) s"
    and "apply_change L clk ch g = Some g'"
  shows "\<exists>e e'. cells (gate_heap g) (slot_entry s) = Some e
    \<and> cells (gate_heap g') (slot_entry s) = Some e' \<and> pending e' = None
    \<and> (case pending e of None \<Rightarrow> True | Some f \<Rightarrow> generation (deref f) \<in> set (aborted (gate_heap g')))
    \<and> (case change_decision ch of
         Some d \<Rightarrow> current_state e' = entry_state_of d
           \<and> lru_peek L (change_subject ch) (sm_entries (subjects g')) = Some s
       | None \<Rightarrow> current_state e' = EStale
           \<and> lru_peek L (change_subject ch) (sm_entries (subjects g')) = None)"
proof -
  obtain k c where ch: "ch = \<lparr> change_subject = k, change_decision = c \<rparr>" by (cases ch)
  note known = assms(1,2) assms(3-5) [unfolded ch, simplified]
  show ?thesis
  proof (cases c)
    case None
    from subject_cache.apply_withdrawal_effect [OF known(1,2,3), where clk = clk, OF known(4)] known(5) None show ?thesis
      by (auto simp: ch)
  next
    case (Some d)
    from subject_cache.apply_decision_effect [OF known(1,2,3), where clk = clk, OF known(4), of d g'] known(5) Some show ?thesis
      by (auto simp: ch)
  qed
qed

section \<open>Bounds of the shared state\<close>

lemma watch_queue [simp]:
  "queue_bounded (watch_connected L g) = queue_bounded g"
  "queue_bounded (watch_disconnected L now g) = queue_bounded g"
  "queue_bounded (watch_stable g) = queue_bounded g"
  by (simp_all add: queue_bounded_def watch_connected_def watch_disconnected_def publish_empty_def
      clear_subjects_def mark_disconnected_def watch_stable_def log_def Let_def split: option.split)

lemma same_watch_queue: "same_watch g g' \<Longrightarrow> queue_bounded g \<Longrightarrow> queue_bounded g'"
  by (simp add: same_watch_def)

lemma client_queue: "gate_step L g g' \<Longrightarrow> queue_bounded g \<Longrightarrow> queue_bounded g'"
  by (rule same_watch_queue [OF gate_step_same_watch])

lemma watch_step_queue:
  "watch_step L s s' \<Longrightarrow> queue_bounded (snd s) \<Longrightarrow> queue_bounded (snd s')"
proof (induction rule: watch_step.induct)
  case (item w timer settled refreshes clk rng it g s')
  then show ?case
    by (auto simp: watch_item_def watch_closed_gate wire_metric_def Let_def
        split: option.splits sum.splits Option.bind_splits if_splits
        dest!: apply_change_same_watch intro: same_watch_queue)
next
  case (batch w timer settled refreshes g n)
  then show ?case by (simp add: queue_bounded_def)
qed (auto simp: watch_opened_def watch_open_failed_def watch_closed_gate wire_metric_def Let_def
    split: option.split dest!: run_fetch_same_watch intro: same_watch_queue)

lemma reachable_queue: "sys_reachable L cfg s \<Longrightarrow> queue_bounded (snd s)"
proof (induction rule: sys_reachable.induct)
  case (start now g now')
  then show ?case by (auto simp: gate_new_def queue_bounded_def split: Option.bind_splits)
next
  case (step s s')
  from step(2,3) show ?case
    by (auto elim!: sys_step.cases dest: watch_step_queue client_queue)
qed

context subject_cache
begin

lemma reachable_capacity:
  assumes "sys_reachable L cfg s" "config_valid now0 cfg" "max_reconnect_delay cfg \<le> DURATION_MAX"
  shows "lru_cap L (sm_entries (subjects (snd s))) = max_subjects cfg"
  using assms(1)
proof (induction rule: sys_reachable.induct)
  case (start now g now')
  then show ?case
    using new(2) by (auto simp: gate_new_def subject_map_new_def split: if_splits)
next
  case (step s s')
  note I = reachable_inv [OF step(1) assms(2,3)]
  from sys_step_keeps [OF step(2) conjunct1 [OF I] conjunct2 [OF I] assms(2,3)]
  have "map_evolves L (subjects (snd s)) (subjects (snd s'))" by (simp add: gate_evolves_def)
  with step.IH show ?case by (simp add: map_evolves_def)
qed

lemma reachable_slots:
  assumes "sys_reachable L cfg s" "config_valid now0 cfg" "max_reconnect_delay cfg \<le> DURATION_MAX"
  shows "length (lru_iter L (sm_entries (subjects (snd s)))) \<le> max_subjects cfg
    \<and> distinct (map fst (lru_iter L (sm_entries (subjects (snd s)))))"
proof -
  from reachable_inv [OF assms] have "valid (sm_entries (subjects (snd s)))"
    by (blast intro: map_invD(1) gate_invD(1))
  from bounded [OF this] keys_distinct [OF this] reachable_capacity [OF assms] show ?thesis by simp
qed

end

text \<open>
  C12: the shared state is bounded and its parts agree in every reachable state. At most the
  configured number of subjects is tracked and of refreshes queued, a subject has one slot,
  the gate is connected exactly while the watcher's stream is open, publishes nothing
  otherwise, and the reconnect delay stays between its configured bounds.
\<close>

theorem reachable_state_bounded:
  assumes "subject_cache L valid" "config_valid now0 cfg" "max_reconnect_delay cfg \<le> DURATION_MAX"
    and "sys_reachable L cfg (w, g)"
  shows "length (lru_iter L (sm_entries (subjects g))) \<le> max_subjects cfg
    \<and> distinct (map fst (lru_iter L (sm_entries (subjects g))))
    \<and> length (refresh_queue g) \<le> refresh_queue_capacity cfg
    \<and> (connected g \<longleftrightarrow> w_open (w_pc w))
    \<and> (connected g \<or> snapshot g = Map.empty)
    \<and> initial_reconnect_delay cfg \<le> w_reconnect_delay w \<and> w_reconnect_delay w \<le> max_reconnect_delay cfg"
proof -
  from subject_cache.reachable_inv [OF assms(1,4,2,3)]
  have inv: "gate_inv valid L g" and w: "watch_inv cfg (w, g)" by simp_all
  have "snapshot g = Map.empty \<or> connected g" using inv by (auto simp: gate_inv_def)
  with w subject_cache.reachable_slots [OF assms(1,4,2,3)] reachable_queue [OF assms(4)] show ?thesis
    by (auto simp: watch_inv_def queue_bounded_def)
qed

section \<open>Handles\<close>

text \<open>
  C21: the methods of a handle never reach their \<open>unreachable!\<close>. An entry that has a verdict,
  as every handle's entry has, is never pending again in any later state of the system, and
  there every read of the handle returns at every instant.
\<close>

theorem handle_reads_never_panic:
  assumes "subject_cache L valid" "config_valid now0 cfg" "max_reconnect_delay cfg \<le> DURATION_MAX"
    and "sys_reachable L cfg s" "(sys_step L)\<^sup>*\<^sup>* s s'"
    and "cells (gate_heap (snd s)) ea = Some e" "current_state e \<noteq> EPending"
  shows "\<exists>e'. cells (gate_heap (snd s')) ea = Some e' \<and> current_state e' \<noteq> EPending
    \<and> (\<forall>n now. fst (observed_at n now e') \<noteq> None \<and> fst (admission_state_at n now e') \<noteq> None
        \<and> fst (admission_is_allowed n now e') \<noteq> None \<and> fst (admission_check n now e') \<noteq> None)"
proof -
  from subject_cache.run_evolves [OF assms(1,5,4,2,3)]
  have "heap_evolves (gate_heap (snd s)) (gate_heap (snd s'))" by (simp add: gate_evolves_def map_evolves_def)
  with assms(6) obtain e' where e': "cells (gate_heap (snd s')) ea = Some e'" "entry_evolves e e'"
    unfolding heap_evolves_def by blast
  with assms(7) have st: "current_state e' \<noteq> EPending" by (simp add: entry_evolves_def)
  have ob: "fst (observed_at n now e') \<noteq> None" for n now
    using st by (simp add: observed_at_eq split: entry_state.split)
  then have "fst (admission_state_at n now e') \<noteq> None" for n now
    by (simp add: admission_state_at_def case_prod_beta)
  moreover from this have "fst (admission_is_allowed n now e') \<noteq> None" for n now
    by (simp add: admission_is_allowed_def case_prod_beta)
  moreover have "fst (admission_check n now e') \<noteq> None" for n now
    using st by (auto simp: admission_check_def current_at_quiet Let_def case_prod_beta split: entry_state.splits)
  ultimately show ?thesis using e'(1) st ob by blast
qed

section \<open>Timeouts\<close>

lemma await_Some_iff:
  "await f ts = Some (t, r) \<longleftrightarrow>
    (\<exists>us vs. ts = us @ t # vs \<and> list_all (\<lambda>u. f u = None) us \<and> f t = Some r)"
proof
  assume "await f ts = Some (t, r)"
  from await_split [OF this] show "\<exists>us vs. ts = us @ t # vs \<and> list_all (\<lambda>u. f u = None) us \<and> f t = Some r"
    by (auto simp: list_all_iff)
next
  have "list_all (\<lambda>u. f u = None) us \<Longrightarrow> f t = Some r \<Longrightarrow> await f (us @ t # vs) = Some (t, r)" for us vs
    by (induction us) simp_all
  then show "\<exists>us vs. ts = us @ t # vs \<and> list_all (\<lambda>u. f u = None) us \<and> f t = Some r \<Longrightarrow>
      await f ts = Some (t, r)" by blast
qed

text \<open>
  C34: a wait under a deadline is fail-closed. The await returns the future's value only from
  a poll before the deadline at which the future was ready for the first time, and reports
  the timeout exactly when a poll comes at or after the deadline with the future still not
  ready before; a value that is ready only then is not delivered.
\<close>

theorem timeout_at_fail_closed:
  assumes "sleeps_until_deadline sleep_until"
  shows "timeout_at sleep_until deadline fut ts = Some (t, r) \<longleftrightarrow>
    (\<exists>us vs. ts = us @ t # vs \<and> list_all (\<lambda>u. u < deadline \<and> fut u = None) us
      \<and> (if t < deadline then map_option Inr (fut t) = Some r else r = Inl TimeoutElapsed))"
proof -
  let ?f = "\<lambda>now. if deadline \<le> now then Some (Inl TimeoutElapsed) else map_option Inr (fut now)"
  have none: "?f u = None \<longleftrightarrow> u < deadline \<and> fut u = None" for u by auto
  show ?thesis
    unfolding timeout_at_await [OF assms] await_Some_iff none by (auto simp: not_le)
qed

section \<open>Witnesses\<close>

definition ex_denied :: "((nat, subject_slot) lru_list, nat, string) gate" where
  "ex_denied = the (apply_change lru_list (\<lambda>_. 72) ex_denial ex_refreshing)"

text \<open>The watcher is dropped while subject 7 has a refresh in flight; then its handle is read.\<close>

definition ex_dropped where
  "ex_dropped = ((fst ex_open)\<lparr>w_pc := WDropped\<rparr>, watch_disconnected lru_list 80 ex_refreshing)"

lemma ex_dropped_step: "sys_step lru_list (fst ex_open, ex_refreshing) ex_dropped"
proof -
  have "w_pc (fst ex_open) \<noteq> WDropped" by code_simp
  then show ?thesis
    unfolding ex_dropped_def by (intro sys_step.watch watch_step.dropped)
qed

theorem disconnect_is_final_witness:
  "\<exists>e'. cells (gate_heap (observe_handle 90 0 (snd ex_dropped))) 0 = Some e' \<and> current_state e' = EStale \<and> pending e' = None
    \<and> (\<forall>now n. fst (admission_is_allowed n now e') = Some False)"
proof -
  have later: "(sys_step lru_list)\<^sup>*\<^sup>* ex_dropped (fst ex_dropped, observe_handle 90 0 (snd ex_dropped))"
    by (rule r_into_rtranclp) (metis prod.collapse gate_step.observe sys_step.client)
  from disconnect_is_final [OF list_cache.subject_cache_axioms ex_cfg_valid ex_cfg_duration
      ex_refreshing_reachable ex_dropped_step _ _ later, of 0 ex_entry]
  show ?thesis using ex_entry_cell ex_view_facts by (simp add: ex_dropped_def)
qed

theorem watch_change_takes_effect_witness:
  "\<exists>e e'. cells (gate_heap ex_refreshing) 0 = Some e
    \<and> cells (gate_heap ex_denied) 0 = Some e' \<and> pending e' = None
    \<and> (case pending e of None \<Rightarrow> True | Some f \<Rightarrow> generation (deref f) \<in> set (aborted (gate_heap ex_denied)))
    \<and> current_state e' = EDenied
    \<and> lru_peek lru_list 7 (sm_entries (subjects ex_denied)) = Some ex_slot"
proof -
  have "gate_inv lru_list_valid lru_list ex_refreshing"
    using ex_reachable_inv [OF ex_refreshing_reachable] by simp
  moreover have "(change_subject ex_denial, ex_slot) \<in> set (lru_iter lru_list (sm_entries (subjects ex_refreshing)))"
    using ex_view_facts by (simp add: ex_denial_def)
  moreover have "\<not> slot_idle (ttl_ticks (subjects ex_refreshing)) (map_tick (subjects ex_refreshing) 72) ex_slot"
    using ex_view_facts by simp
  moreover have "apply_change lru_list (\<lambda>_. 72) ex_denial ex_refreshing = Some ex_denied"
    unfolding ex_denied_def by (rule some_the) (use ex_view_facts in \<open>simp split: option.splits\<close>)
  ultimately show ?thesis
    using watch_change_takes_effect [OF list_cache.subject_cache_axioms, of ex_refreshing ex_denial ex_slot "\<lambda>_. 72" ex_denied]
    by (simp add: ex_slot_def ex_denial_def)
qed

theorem reachable_state_bounded_witness:
  "length (lru_iter lru_list (sm_entries (subjects (snd ex_two)))) \<le> 2
    \<and> distinct (map fst (lru_iter lru_list (sm_entries (subjects (snd ex_two)))))
    \<and> length (refresh_queue (snd ex_two)) \<le> refresh_queue_capacity ex_cfg
    \<and> (connected (snd ex_two) \<longleftrightarrow> w_open (w_pc (fst ex_open)))
    \<and> (connected (snd ex_two) \<or> snapshot (snd ex_two) = Map.empty)
    \<and> initial_reconnect_delay ex_cfg \<le> w_reconnect_delay (fst ex_open)
    \<and> w_reconnect_delay (fst ex_open) \<le> max_reconnect_delay ex_cfg"
proof -
  have "max_subjects ex_cfg = 2" by code_simp
  with reachable_state_bounded [OF list_cache.subject_cache_axioms ex_cfg_valid ex_cfg_duration ex_two_reachable]
  show ?thesis by metis
qed

theorem handle_reads_never_panic_witness:
  "\<exists>e'. cells (gate_heap (snd ex_dropped)) 0 = Some e' \<and> current_state e' \<noteq> EPending
    \<and> (\<forall>n now. fst (observed_at n now e') \<noteq> None \<and> fst (admission_state_at n now e') \<noteq> None
        \<and> fst (admission_is_allowed n now e') \<noteq> None \<and> fst (admission_check n now e') \<noteq> None)"
proof -
  have "current_state ex_entry \<noteq> EPending" by code_simp
  with handle_reads_never_panic [OF list_cache.subject_cache_axioms ex_cfg_valid ex_cfg_duration
      ex_refreshing_reachable r_into_rtranclp [of "sys_step lru_list", OF ex_dropped_step], of 0 ex_entry] ex_entry_cell
  show ?thesis by simp
qed

theorem timeout_at_fail_closed_witness:
  "timeout_at (\<lambda>d n. if d \<le> n then Some () else None) 5 (\<lambda>n. if n \<ge> 4 then Some ''v'' else None) [1, 3, 6] =
     Some (6, Inl TimeoutElapsed)"
  by (subst timeout_at_fail_closed)
    (simp_all add: sleeps_until_deadline_def exI [of _ "[1, 3]"])

end
