(* ===== verification/Stream_Body.thy ===== *)
theory Stream_Body
  imports Reads
begin

text \<open>
  The body wrapper that keeps enforcing a decision while a request or response body is
  transferred (\<open>EnforcedBody\<close> in \<open>src/src/stream.rs\<close>). One call of \<open>poll_frame\<close> is a loop
  whose turns read the handle, maybe recover from a stale handle, and then poll the inner
  body or cut the stream off. The inner body and the rendering of a cut-off are
  parameters. What other threads do to the gate between the turn's own steps, the clock
  and the steps of the readmission future are the turn's input.
\<close>

section \<open>Bodies and frames\<close>

datatype body_side = RequestSide | ResponseSide

datatype ('d, 'h) frame = DataFrame 'd | TrailersFrame 'h

text \<open>\<open>Poll<Option<Result<Frame, BoxBodyError>>>\<close>.\<close>

datatype ('d, 'h, 'x) frame_poll = FPending | FEnd | FFrame "('d, 'h) frame" | FError 'x

datatype ('h, 'x) stream_rejection = RejectError 'x | RejectTrailers 'h

text \<open>\<open>poll_frame\<close> and \<open>is_end_stream\<close> of the wrapped \<open>Body\<close>.\<close>

record ('b, 'd, 'h, 'x) body_ops =
  body_poll :: "'b \<Rightarrow> ('d, 'h, 'x) frame_poll \<times> 'b"
  body_end :: "'b \<Rightarrow> bool"

text \<open>The rejection texts of \<open>GateContext\<close>.\<close>

record gate_context =
  rejection_message :: string
  ctx_missing_subject_message :: string

text \<open>\<open>StreamRejectionResponse::stream_denied\<close>; \<open>None\<close> is a panic of the rendering.\<close>

type_synonym ('h, 'x) stream_denied = "body_side \<Rightarrow> string \<Rightarrow> ('h, 'x) stream_rejection option"

section \<open>Reading a handle\<close>

definition handle_observe ::
  "instant \<Rightarrow> nat \<Rightarrow> ('c, 'k, 'p) gate \<Rightarrow> observed option \<times> ('c, 'k, 'p) gate" where
  "handle_observe now ea g =
     (let (ob, h) = with_entry ea (\<lambda>a. observed_at a now) None (gate_heap g) in (ob, set_heap h g))"

definition handle_state ::
  "instant \<Rightarrow> nat \<Rightarrow> ('c, 'k, 'p) gate \<Rightarrow> admission_state option \<times> ('c, 'k, 'p) gate" where
  "handle_state now ea g =
     (let (st, h) = with_entry ea (\<lambda>a. admission_state_at a now) None (gate_heap g) in (st, set_heap h g))"

definition handle_is_allowed ::
  "instant \<Rightarrow> nat \<Rightarrow> ('c, 'k, 'p) gate \<Rightarrow> bool option \<times> ('c, 'k, 'p) gate" where
  "handle_is_allowed now ea g =
     (let (b, h) = with_entry ea (\<lambda>a. admission_is_allowed a now) None (gate_heap g) in (b, set_heap h g))"

section \<open>The readmission future\<close>

text \<open>
  \<open>RAdmit\<close> and \<open>RAfter\<close> have not been polled, \<open>RSleep\<close> waits for its delay, \<open>RTask\<close> is
  inside \<open>admit\<close>. A future that has completed is \<open>RFinished\<close>; polling it again panics.
\<close>

datatype ('k, 'p) readmission =
    RAdmit
  | RAfter duration
  | RSleep "instant option"
  | RTask "('k, 'p) admit_task"
  | RFinished

text \<open>One poll of the admission runs the task's steps until it suspends or is done.\<close>

fun run_admit ::
  "('c, 'k) slot_lru \<Rightarrow> admit_input list \<Rightarrow> ('k, 'p) admit_task \<times> ('c, 'k, 'p) gate
    \<Rightarrow> (('k, 'p) admit_task \<times> ('c, 'k, 'p) gate) option" where
  "run_admit L [] s = Some s"
| "run_admit L (inp # ins) s =
     (case at_pc (fst s) of
        ADone r \<Rightarrow> Some s
      | _ \<Rightarrow> do { s \<leftarrow> admit_poll L inp s; run_admit L ins s })"

definition task_poll ::
  "('c, 'k) slot_lru \<Rightarrow> admit_input list \<Rightarrow> ('k, 'p) admit_task \<times> ('c, 'k, 'p) gate
    \<Rightarrow> (nat option option \<times> ('k, 'p) readmission \<times> ('c, 'k, 'p) gate) option" where
  "task_poll L ins s =
     do {
       (t, g) \<leftarrow> run_admit L ins s;
       (case at_pc t of
          ADone r \<Rightarrow> Some (Some r, RFinished, g)
        | _ \<Rightarrow> Some (None, RTask t, g))
     }"

text \<open>\<open>PolicyGate::admit\<close> from its first poll; \<open>Some None\<close> is \<open>AdmissionUnavailable\<close>.\<close>

definition begin_admit ::
  "('c, 'k) slot_lru \<Rightarrow> instant \<Rightarrow> admit_input list \<Rightarrow> 'k \<Rightarrow> ('c, 'k, 'p) gate
    \<Rightarrow> (nat option option \<times> ('k, 'p) readmission \<times> ('c, 'k, 'p) gate) option" where
  "begin_admit L now ins k g =
     (case admit_start k now g of
        (None, g) \<Rightarrow> Some (Some None, RFinished, g)
      | (Some t, g) \<Rightarrow> task_poll L ins (t, g))"

text \<open>\<open>PolicyGate::admit_after\<close> behind its sleep until \<open>wake\<close>.\<close>

definition poll_sleep ::
  "('c, 'k) slot_lru \<Rightarrow> clock \<Rightarrow> admit_input list \<Rightarrow> 'k \<Rightarrow> instant option \<Rightarrow> ('c, 'k, 'p) gate
    \<Rightarrow> (nat option option \<times> ('k, 'p) readmission \<times> ('c, 'k, 'p) gate) option" where
  "poll_sleep L clk ins k wake g =
     (if (case wake of Some t \<Rightarrow> t \<le> clk 0 | None \<Rightarrow> False)
      then begin_admit L (clk 1) ins k g else Some (None, RSleep wake, g))"

definition poll_readmission ::
  "('c, 'k) slot_lru \<Rightarrow> clock \<Rightarrow> admit_input list \<Rightarrow> 'k \<Rightarrow> ('k, 'p) readmission \<Rightarrow> ('c, 'k, 'p) gate
    \<Rightarrow> (nat option option \<times> ('k, 'p) readmission \<times> ('c, 'k, 'p) gate) option" where
  "poll_readmission L clk ins k r g =
     (case r of
        RAdmit \<Rightarrow> begin_admit L (clk 0) ins k g
      | RAfter delay \<Rightarrow> poll_sleep L (\<lambda>i. clk (Suc i)) ins k (instant_checked_add (clk 0) delay) g
      | RSleep wake \<Rightarrow> poll_sleep L clk ins k wake g
      | RTask t \<Rightarrow> task_poll L ins (t, g)
      | RFinished \<Rightarrow> None)"

section \<open>The wrapper\<close>

text \<open>\<open>eb_woken\<close> records a call of the task's waker.\<close>

record ('b, 'k, 'p) enforced_body =
  eb_inner :: 'b
  eb_subject :: 'k
  eb_admission :: nat
  eb_readmission :: "('k, 'p) readmission option"
  eb_side :: body_side
  eb_ended :: bool
  eb_woken :: bool

definition enforced_body_new :: "'b \<Rightarrow> 'k \<Rightarrow> nat \<Rightarrow> body_side \<Rightarrow> ('b, 'k, 'p) enforced_body" where
  "enforced_body_new inner k ea side =
     \<lparr> eb_inner = inner, eb_subject = k, eb_admission = ea, eb_readmission = None,
       eb_side = side, eb_ended = False, eb_woken = False \<rparr>"

text \<open>What a turn of the loop does: panic, another turn, or return from \<open>poll_frame\<close>.\<close>

datatype ('d, 'h, 'x) frame_turn = TPanic | TContinue | TReturn "('d, 'h, 'x) frame_poll"

record ('c, 'k, 'p) turn_input =
  ti_env :: "nat \<Rightarrow> ('c, 'k, 'p) gate \<Rightarrow> ('c, 'k, 'p) gate"
  ti_clock :: clock
  ti_polls :: "admit_input list"
  ti_retry_polls :: "admit_input list"

type_synonym ('b, 'c, 'k, 'p) body_state = "('b, 'k, 'p) enforced_body \<times> ('c, 'k, 'p) gate"

definition finish :: "('b, 'k, 'p) enforced_body \<Rightarrow> ('b, 'k, 'p) enforced_body" where
  "finish b = b\<lparr>eb_ended := True, eb_readmission := None\<rparr>"

definition poll_inner_terminal ::
  "('b, 'd, 'h, 'x) body_ops \<Rightarrow> ('b, 'k, 'p) enforced_body
    \<Rightarrow> ('d, 'h, 'x) frame_poll \<times> ('b, 'k, 'p) enforced_body" where
  "poll_inner_terminal ops b =
     (let (p, inner) = body_poll ops (eb_inner b); b = b\<lparr>eb_inner := inner\<rparr> in
      case p of
        FEnd \<Rightarrow> (FEnd, finish b)
      | FFrame fr \<Rightarrow> (FFrame fr, case fr of TrailersFrame _ \<Rightarrow> finish b | DataFrame _ \<Rightarrow> b)
      | FError err \<Rightarrow> (FError err, b)
      | FPending \<Rightarrow> (FPending, b))"

definition forward ::
  "('b, 'd, 'h, 'x) body_ops \<Rightarrow> ('b, 'c, 'k, 'p) body_state
    \<Rightarrow> ('d, 'h, 'x) frame_turn \<times> ('b, 'c, 'k, 'p) body_state" where
  "forward ops = (\<lambda>(b, g). let (p, b) = poll_inner_terminal ops b in (TReturn p, b, g))"

fun rejection_poll :: "('h, 'x) stream_rejection \<Rightarrow> ('d, 'h, 'x) frame_poll" where
  "rejection_poll (RejectTrailers hs) = FFrame (TrailersFrame hs)"
| "rejection_poll (RejectError err) = FError err"

definition cut_off ::
  "('h, 'x) stream_denied \<Rightarrow> gate_context \<Rightarrow> ('b, 'c, 'k, 'p) body_state
    \<Rightarrow> ('d, 'h, 'x) frame_turn \<times> ('b, 'c, 'k, 'p) body_state" where
  "cut_off R ctx = (\<lambda>(b, g).
     (case R (eb_side b) (rejection_message ctx) of
        None \<Rightarrow> (TPanic, finish b, log StreamCutoff g)
      | Some rejection \<Rightarrow> (TReturn (rejection_poll rejection), finish b, log StreamCutoff g)))"

text \<open>The readmission failed: store its delayed replacement, polled once to arm its sleep.\<close>

definition retry_later ::
  "('c, 'k) slot_lru \<Rightarrow> ('b, 'd, 'h, 'x) body_ops \<Rightarrow> ('c, 'k, 'p) turn_input
    \<Rightarrow> ('b, 'c, 'k, 'p) body_state \<Rightarrow> ('d, 'h, 'x) frame_turn \<times> ('b, 'c, 'k, 'p) body_state" where
  "retry_later L ops inp = (\<lambda>(b, g).
     (let g = ti_env inp 7 g in
      case poll_readmission L (\<lambda>i. ti_clock inp (i + 12)) (ti_retry_polls inp) (eb_subject b)
             (RAfter (admission_timeout (config g))) g of
        None \<Rightarrow> (TPanic, b, g)
      | Some (res, r, g) \<Rightarrow>
          forward ops (b\<lparr>eb_readmission := Some r, eb_woken := eb_woken b \<or> res \<noteq> None\<rparr>, g)))"

text \<open>\<open>Ready(Ok(admission))\<close>: adopt an allowed handle, cut off on a denied one, else retry.\<close>

definition readmitted ::
  "('h, 'x) stream_denied \<Rightarrow> gate_context \<Rightarrow> ('c, 'k, 'p) turn_input \<Rightarrow> nat
    \<Rightarrow> ('b, 'c, 'k, 'p) body_state \<Rightarrow> ('d, 'h, 'x) frame_turn \<times> ('b, 'c, 'k, 'p) body_state" where
  "readmitted R ctx inp ea = (\<lambda>(b, g).
     (case handle_is_allowed (ti_clock inp 10) ea (ti_env inp 5 g) of
        (None, g) \<Rightarrow> (TPanic, b, g)
      | (Some True, g) \<Rightarrow> (TContinue, b\<lparr>eb_admission := ea\<rparr>, g)
      | (Some False, g) \<Rightarrow>
          (case handle_state (ti_clock inp 11) ea (ti_env inp 6 g) of
             (None, g) \<Rightarrow> (TPanic, b, g)
           | (Some st, g) \<Rightarrow> if st = ADenied then cut_off R ctx (b, g) else (TContinue, b, g))))"

definition readmit ::
  "('c, 'k) slot_lru \<Rightarrow> ('b, 'd, 'h, 'x) body_ops \<Rightarrow> ('h, 'x) stream_denied \<Rightarrow> gate_context
    \<Rightarrow> ('c, 'k, 'p) turn_input \<Rightarrow> ('b, 'c, 'k, 'p) body_state
    \<Rightarrow> ('d, 'h, 'x) frame_turn \<times> ('b, 'c, 'k, 'p) body_state" where
  "readmit L ops R ctx inp = (\<lambda>(b, g).
     (let r = (case eb_readmission b of None \<Rightarrow> RAdmit | Some r \<Rightarrow> r) in
      case poll_readmission L (\<lambda>i. ti_clock inp (i + 6)) (ti_polls inp) (eb_subject b) r
             (ti_env inp 4 g) of
        None \<Rightarrow> (TPanic, b, g)
      | Some (None, r, g) \<Rightarrow> forward ops (b\<lparr>eb_readmission := Some r\<rparr>, g)
      | Some (Some (Some ea), _, g) \<Rightarrow> readmitted R ctx inp ea (b\<lparr>eb_readmission := None\<rparr>, g)
      | Some (Some None, _, g) \<Rightarrow> retry_later L ops inp (b\<lparr>eb_readmission := None\<rparr>, g)))"

text \<open>The handle is stale: try the snapshot, then the readmission.\<close>

definition recover ::
  "('c, 'k) slot_lru \<Rightarrow> ('b, 'd, 'h, 'x) body_ops \<Rightarrow> ('h, 'x) stream_denied \<Rightarrow> gate_context
    \<Rightarrow> ('c, 'k, 'p) turn_input \<Rightarrow> ('b, 'c, 'k, 'p) body_state
    \<Rightarrow> ('d, 'h, 'x) frame_turn \<times> ('b, 'c, 'k, 'p) body_state" where
  "recover L ops R ctx inp = (\<lambda>(b, g).
     (case check_without_refresh L (\<lambda>i. ti_clock inp (i + 1)) (eb_subject b) (ti_env inp 1 g) of
        (None, g) \<Rightarrow> readmit L ops R ctx inp (b, g)
      | (Some ea, g) \<Rightarrow>
          (case handle_is_allowed (ti_clock inp 4) ea (ti_env inp 2 g) of
             (None, g) \<Rightarrow> (TPanic, b, g)
           | (Some True, g) \<Rightarrow>
               if refresh_before_expiry (config g) = 0
               then (TContinue, b\<lparr>eb_readmission := None, eb_admission := ea\<rparr>, g)
               else readmit L ops R ctx inp (b, g)
           | (Some False, g) \<Rightarrow>
               (case handle_state (ti_clock inp 5) ea (ti_env inp 3 g) of
                  (None, g) \<Rightarrow> (TPanic, b, g)
                | (Some st, g) \<Rightarrow>
                    if st = ADenied then cut_off R ctx (b\<lparr>eb_readmission := None\<rparr>, g)
                    else readmit L ops R ctx inp (b, g)))))"

definition frame_turn ::
  "('c, 'k) slot_lru \<Rightarrow> ('b, 'd, 'h, 'x) body_ops \<Rightarrow> ('h, 'x) stream_denied \<Rightarrow> gate_context
    \<Rightarrow> ('c, 'k, 'p) turn_input \<Rightarrow> ('b, 'c, 'k, 'p) body_state
    \<Rightarrow> ('d, 'h, 'x) frame_turn \<times> ('b, 'c, 'k, 'p) body_state" where
  "frame_turn L ops R ctx inp = (\<lambda>(b, g).
     (case handle_observe (ti_clock inp 0) (eb_admission b) (ti_env inp 0 g) of
        (None, g) \<Rightarrow> (TPanic, b, g)
      | (Some OAllowed, g) \<Rightarrow> forward ops (b, g)
      | (Some ODenied, g) \<Rightarrow> cut_off R ctx (b, g)
      | (Some OExpired, g) \<Rightarrow> cut_off R ctx (b, g)
      | (Some OStale, g) \<Rightarrow> recover L ops R ctx inp (b, g)))"

text \<open>
  The loop, one input per turn; \<open>TContinue\<close> as the result means that the given turns were
  not enough.
\<close>

fun frame_loop ::
  "('c, 'k) slot_lru \<Rightarrow> ('b, 'd, 'h, 'x) body_ops \<Rightarrow> ('h, 'x) stream_denied \<Rightarrow> gate_context
    \<Rightarrow> ('c, 'k, 'p) turn_input list \<Rightarrow> ('b, 'c, 'k, 'p) body_state
    \<Rightarrow> ('d, 'h, 'x) frame_turn \<times> ('b, 'c, 'k, 'p) body_state" where
  "frame_loop L ops R ctx [] s = (TContinue, s)"
| "frame_loop L ops R ctx (inp # inps) s =
     (case frame_turn L ops R ctx inp s of
        (TContinue, s) \<Rightarrow> frame_loop L ops R ctx inps s
      | r \<Rightarrow> r)"

definition is_end_stream :: "('b, 'd, 'h, 'x) body_ops \<Rightarrow> ('b, 'k, 'p) enforced_body \<Rightarrow> bool" where
  "is_end_stream ops b \<longleftrightarrow> eb_ended b \<or> body_end ops (eb_inner b)"

definition poll_frame ::
  "('c, 'k) slot_lru \<Rightarrow> ('b, 'd, 'h, 'x) body_ops \<Rightarrow> ('h, 'x) stream_denied \<Rightarrow> gate_context
    \<Rightarrow> ('c, 'k, 'p) turn_input list \<Rightarrow> ('b, 'c, 'k, 'p) body_state
    \<Rightarrow> ('d, 'h, 'x) frame_turn \<times> ('b, 'c, 'k, 'p) body_state" where
  "poll_frame L ops R ctx inps = (\<lambda>(b, g).
     (if eb_ended b \<or> body_end ops (eb_inner b) then (TReturn FEnd, finish b, g)
      else frame_loop L ops R ctx inps (b, g)))"

text \<open>\<open>SizeHint\<close>: an exact size, or none.\<close>

definition size_hint :: "('b, 'k, 'p) enforced_body \<Rightarrow> nat option" where
  "size_hint b = (if eb_ended b then Some 0 else None)"

section \<open>What the wrapper delivers\<close>

text \<open>A body polled repeatedly; \<open>None\<close> when a poll panics or its given turns are too few.\<close>

fun run_body ::
  "('c, 'k) slot_lru \<Rightarrow> ('b, 'd, 'h, 'x) body_ops \<Rightarrow> ('h, 'x) stream_denied \<Rightarrow> gate_context
    \<Rightarrow> ('c, 'k, 'p) turn_input list list \<Rightarrow> ('b, 'c, 'k, 'p) body_state
    \<Rightarrow> (('d, 'h, 'x) frame_poll list \<times> ('b, 'c, 'k, 'p) body_state) option" where
  "run_body L ops R ctx [] s = Some ([], s)"
| "run_body L ops R ctx (inps # rest) s =
     (case poll_frame L ops R ctx inps s of
        (TReturn p, s) \<Rightarrow> map_option (\<lambda>(ps, s). (p # ps, s)) (run_body L ops R ctx rest s)
      | _ \<Rightarrow> None)"

text \<open>The unwrapped body polled \<open>n\<close> times.\<close>

fun inner_run :: "('b, 'd, 'h, 'x) body_ops \<Rightarrow> nat \<Rightarrow> 'b \<Rightarrow> ('d, 'h, 'x) frame_poll list \<times> 'b" where
  "inner_run ops 0 b = ([], b)"
| "inner_run ops (Suc n) b =
     (let (p, b) = body_poll ops b; (ps, b) = inner_run ops n b in (p # ps, b))"

text \<open>
  The contract of a turn: it polls the inner body exactly when it returns the inner body's
  own result, and otherwise returns the rejection and ends the wrapper.
\<close>

definition turn_ok ::
  "('b, 'd, 'h, 'x) body_ops \<Rightarrow> ('h, 'x) stream_denied \<Rightarrow> gate_context \<Rightarrow> ('b, 'k, 'p) enforced_body
    \<Rightarrow> ('d, 'h, 'x) frame_turn \<times> ('b, 'c, 'k, 'p) body_state \<Rightarrow> bool" where
  "turn_ok ops R ctx b = (\<lambda>(t, b', g).
     eb_side b' = eb_side b \<and>
     (case t of
        TPanic \<Rightarrow> True
      | TContinue \<Rightarrow> eb_inner b' = eb_inner b \<and> eb_ended b' = eb_ended b
      | TReturn p \<Rightarrow>
          (p, eb_inner b') = body_poll ops (eb_inner b) \<or>
          (map_option rejection_poll (R (eb_side b) (rejection_message ctx)) = Some p \<and>
           eb_inner b' = eb_inner b \<and> eb_ended b')))"

lemma finish_fields [simp]:
  "eb_inner (finish b) = eb_inner b" "eb_side (finish b) = eb_side b" "eb_ended (finish b)"
  "eb_readmission (finish b) = None" "eb_subject (finish b) = eb_subject b"
  "eb_admission (finish b) = eb_admission b"
  by (simp_all add: finish_def)

lemma forward_ok:
  assumes "eb_inner b' = eb_inner b" "eb_side b' = eb_side b"
  shows "turn_ok ops R ctx b (forward ops (b', g))"
  using assms
  by (auto simp: turn_ok_def forward_def poll_inner_terminal_def Let_def
      split: prod.splits frame_poll.splits frame.splits)

lemma cut_off_ok:
  assumes "eb_inner b' = eb_inner b" "eb_side b' = eb_side b"
  shows "turn_ok ops R ctx b (cut_off R ctx (b', g))"
  using assms by (simp add: turn_ok_def cut_off_def split: option.split)

lemma continue_ok:
  assumes "eb_inner b' = eb_inner b" "eb_side b' = eb_side b" "eb_ended b' = eb_ended b"
  shows "turn_ok ops R ctx b (TContinue, b', g)"
  using assms by (simp add: turn_ok_def)

lemma panic_ok: "eb_side b' = eb_side b \<Longrightarrow> turn_ok ops R ctx b (TPanic, b', g)"
  by (simp add: turn_ok_def)

lemmas turn_oks = forward_ok cut_off_ok continue_ok panic_ok

lemma retry_later_ok:
  assumes "eb_inner b' = eb_inner b" "eb_side b' = eb_side b"
  shows "turn_ok ops R ctx b (retry_later L ops inp (b', g))"
  using assms
  by (simp add: retry_later_def Let_def case_prod_beta turn_oks split: option.split)

lemma readmitted_ok:
  assumes "eb_inner b' = eb_inner b" "eb_side b' = eb_side b" "eb_ended b' = eb_ended b"
  shows "turn_ok ops R ctx b (readmitted R ctx inp ea (b', g))"
  using assms
  by (simp add: readmitted_def turn_oks split: prod.split option.split bool.split)

lemma readmit_ok:
  assumes "eb_inner b' = eb_inner b" "eb_side b' = eb_side b" "eb_ended b' = eb_ended b"
  shows "turn_ok ops R ctx b (readmit L ops R ctx inp (b', g))"
  using assms
  by (simp add: readmit_def Let_def turn_oks retry_later_ok readmitted_ok
      split: prod.split option.split)

lemma recover_ok:
  assumes "eb_inner b' = eb_inner b" "eb_side b' = eb_side b" "eb_ended b' = eb_ended b"
  shows "turn_ok ops R ctx b (recover L ops R ctx inp (b', g))"
  using assms
  by (simp add: recover_def turn_oks readmit_ok split: prod.split option.split bool.split)

lemma frame_turn_ok: "turn_ok ops R ctx b (frame_turn L ops R ctx inp (b, g))"
  by (simp add: frame_turn_def turn_oks recover_ok split: prod.split option.split observed.split)

lemma turn_ok_trans:
  assumes "turn_ok ops R ctx b (TContinue, b', g')" "turn_ok ops R ctx b' r"
  shows "turn_ok ops R ctx b r"
  using assms by (auto simp: turn_ok_def split: prod.splits frame_turn.splits)

lemma frame_loop_ok: "turn_ok ops R ctx b (frame_loop L ops R ctx inps (b, g))"
proof (induction inps arbitrary: b g)
  case Nil
  then show ?case by (simp add: turn_oks)
next
  case (Cons inp inps)
  obtain t b' g' where turn: "frame_turn L ops R ctx inp (b, g) = (t, b', g')"
    by (cases "frame_turn L ops R ctx inp (b, g)") auto
  with frame_turn_ok [of ops R ctx b L inp g] have ok: "turn_ok ops R ctx b (t, b', g')" by simp
  then show ?case
    using turn_ok_trans [OF _ Cons.IH] by (cases t) (simp_all add: turn)
qed

lemma poll_frame_return:
  assumes r: "poll_frame L ops R ctx inps (b, g) = (TReturn p, b', g')"
  shows "eb_side b' = eb_side b"
    and "if eb_ended b then p = FEnd \<and> eb_ended b' \<and> eb_inner b' = eb_inner b \<and> g' = g
      else (p, eb_inner b') = body_poll ops (eb_inner b)
        \<or> eb_inner b' = eb_inner b \<and> eb_ended b'
          \<and> (p = FEnd \<or> map_option rejection_poll (R (eb_side b) (rejection_message ctx)) = Some p)"
  using r frame_loop_ok [of ops R ctx b L inps g]
  by (auto simp: poll_frame_def turn_ok_def split: if_splits)

lemma run_ended:
  assumes "eb_ended b" "run_body L ops R ctx inps (b, g) = Some (ps, b', g')"
  shows "ps = replicate (length inps) FEnd \<and> eb_ended b' \<and> eb_inner b' = eb_inner b \<and> g' = g"
  using assms
proof (induction inps arbitrary: b ps)
  case Nil
  then show ?case by simp
next
  case (Cons inp inps)
  then obtain ps1 where "run_body L ops R ctx inps (finish b, g) = Some (ps1, b', g')" "ps = FEnd # ps1"
    by (auto simp: poll_frame_def)
  with Cons.IH [of "finish b" ps1] show ?case by simp
qed

text \<open>
  C19: the wrapper never alters a transfer, it can only end it. Whatever the gate and the
  other threads do, the results of its polls are the inner body's own results, unmodified
  and in order, then at most one rejection, and from then on only the end of the stream;
  the inner body is polled exactly once for each of its own results.
\<close>

theorem body_delivers_prefix:
  assumes "run_body L ops R ctx inps (b, g) = Some (ps, b', g')"
  shows "\<exists>n m cut. n \<le> length inps
    \<and> ps = fst (inner_run ops n (eb_inner b)) @ cut @ replicate m FEnd
    \<and> eb_inner b' = snd (inner_run ops n (eb_inner b))
    \<and> (cut = [] \<or> (\<exists>r. R (eb_side b) (rejection_message ctx) = Some r \<and> cut = [rejection_poll r]))"
  using assms
proof (induction inps arbitrary: b g ps)
  case Nil
  then show ?case by (intro exI [of _ 0] exI [of _ 0] exI [of _ "[]"]) simp
next
  case (Cons inp inps)
  from Cons.prems obtain p b1 g1 ps1 where p: "poll_frame L ops R ctx inp (b, g) = (TReturn p, b1, g1)"
    and rest: "run_body L ops R ctx inps (b1, g1) = Some (ps1, b', g')" and ps: "ps = p # ps1"
    by (auto split: prod.splits frame_turn.splits)
  note ret = poll_frame_return [OF p]
  show ?case
  proof (cases "(p, eb_inner b1) = body_poll ops (eb_inner b)")
    case True
    from Cons.IH [OF rest] ret(1) obtain n m cut where "n \<le> length inps"
      "ps1 = fst (inner_run ops n (eb_inner b1)) @ cut @ replicate m FEnd"
      "eb_inner b' = snd (inner_run ops n (eb_inner b1))"
      "cut = [] \<or> (\<exists>r. R (eb_side b) (rejection_message ctx) = Some r \<and> cut = [rejection_poll r])"
      by auto
    with True ps show ?thesis
      by (intro exI [of _ "Suc n"] exI [of _ m] exI [of _ cut])
        (simp add: case_prod_beta flip: True)
  next
    case False
    with ret(2) have ended: "eb_ended b1" "eb_inner b1 = eb_inner b"
      and p_cases: "p = FEnd \<or> map_option rejection_poll (R (eb_side b) (rejection_message ctx)) = Some p"
      by (auto split: if_splits)
    from run_ended [OF ended(1) rest] ended(2) have *:
      "ps1 = replicate (length inps) FEnd" "eb_inner b' = eb_inner b" by auto
    from p_cases show ?thesis
    proof
      assume "p = FEnd"
      with * ps show ?thesis
        by (intro exI [of _ 0] exI [of _ "Suc (length inps)"] exI [of _ "[]"]) simp
    next
      assume "map_option rejection_poll (R (eb_side b) (rejection_message ctx)) = Some p"
      with * ps show ?thesis
        by (intro exI [of _ 0] exI [of _ "length inps"] exI [of _ "[p]"]) auto
    qed
  qed
qed

section \<open>The wrapper is a client of the gate\<close>

text \<open>Client steps interleaved with the steps \<open>S\<close> of other threads.\<close>

abbreviation client_steps ::
  "('c, 'k) slot_lru \<Rightarrow> (('c, 'k, 'p) gate \<Rightarrow> ('c, 'k, 'p) gate \<Rightarrow> bool)
    \<Rightarrow> ('c, 'k, 'p) gate \<Rightarrow> ('c, 'k, 'p) gate \<Rightarrow> bool" where
  "client_steps L S \<equiv> (\<lambda>g g'. gate_step L g g' \<or> S g g')\<^sup>*\<^sup>*"

definition client_env ::
  "(('c, 'k, 'p) gate \<Rightarrow> ('c, 'k, 'p) gate \<Rightarrow> bool) \<Rightarrow> ('c, 'k, 'p) turn_input \<Rightarrow> bool" where
  "client_env S inp \<longleftrightarrow> (\<forall>i g. S\<^sup>*\<^sup>* g (ti_env inp i g))"

lemma client_step1: "gate_step L g g' \<Longrightarrow> client_steps L S g g'"
  by (rule r_into_rtranclp) simp

lemma with_entry_snd:
  "(\<And>a e. snd (f a e) = snd (f' a e)) \<Longrightarrow> snd (with_entry ea f d h) = snd (with_entry ea f' d' h)"
  by (cases "cells h ea") (auto simp: with_entry_def case_prod_beta)

lemma handle_steps:
  "snd (handle_observe now ea g) = observe_handle now ea g"
  "snd (handle_state now ea g) = observe_handle now ea g"
  "snd (handle_is_allowed now ea g) = observe_handle now ea g"
proof -
  have st: "snd (admission_state_at now' a e) = snd (observed_at now' a e)" for now' a and e :: "('k, 'p) entry"
    by (simp add: admission_state_at_def case_prod_beta)
  show "snd (handle_observe now ea g) = observe_handle now ea g"
    by (simp add: handle_observe_def observe_handle_def case_prod_beta)
  show "snd (handle_state now ea g) = observe_handle now ea g"
    by (simp add: handle_state_def observe_handle_def case_prod_beta)
      (metis (no_types, lifting) with_entry_snd st)
  show "snd (handle_is_allowed now ea g) = observe_handle now ea g"
    by (simp add: handle_is_allowed_def observe_handle_def case_prod_beta)
      (metis (no_types, lifting) with_entry_snd st admission_is_allowed_def case_prod_beta snd_conv)
qed

lemma handle_client_steps:
  "handle_observe now ea g = (ob, g') \<Longrightarrow> client_steps L S g g'"
  "handle_state now ea g = (st, g') \<Longrightarrow> client_steps L S g g'"
  "handle_is_allowed now ea g = (al, g') \<Longrightarrow> client_steps L S g g'"
  using handle_steps [of now ea g] client_step1 [OF gate_step.observe [of L g now ea]] by auto

lemma check_client_steps:
  "check_without_refresh L clk k g = (r, g') \<Longrightarrow> client_steps L S g g'"
  using client_step1 [OF gate_step.cached_sync [of L g clk k]] by simp

lemma log_client_steps: "client_steps L S g g' \<Longrightarrow> client_steps L S g (log x g')"
  using client_step1 [OF gate_step.report [of L g' x]] by (rule rtranclp_trans [rotated])

lemma run_admit_client_steps:
  "run_admit L ins (t, g) = Some (t', g') \<Longrightarrow> client_steps L S g g'"
proof (induction ins arbitrary: t g)
  case Nil
  then show ?case by simp
next
  case (Cons inp ins)
  show ?case
  proof (cases "\<exists>r. at_pc t = ADone r")
    case True
    with Cons.prems show ?thesis by auto
  next
    case False
    with Cons.prems obtain t1 g1 where "admit_poll L inp (t, g) = Some (t1, g1)"
      and rest: "run_admit L ins (t1, g1) = Some (t', g')"
      by (auto split: admit_pc.splits bind_splits)
    then have "client_steps L S g g1" by (intro client_step1 gate_step.admit)
    from this Cons.IH [OF rest] show ?thesis by (rule rtranclp_trans)
  qed
qed

lemma task_poll_client_steps:
  "task_poll L ins (t, g) = Some (res, r, g') \<Longrightarrow> client_steps L S g g'"
  by (auto simp: task_poll_def split: bind_splits admit_pc.splits dest: run_admit_client_steps)

lemma begin_admit_client_steps:
  assumes "begin_admit L now ins k g = Some (res, r, g')"
  shows "client_steps L S g g'"
  using assms log_client_steps [of L S g g]
  by (auto simp: begin_admit_def admit_start_def split: option.splits dest: task_poll_client_steps)

lemma poll_sleep_client_steps:
  "poll_sleep L clk ins k wake g = Some (res, r, g') \<Longrightarrow> client_steps L S g g'"
  by (auto simp: poll_sleep_def split: if_splits dest: begin_admit_client_steps)

lemma poll_readmission_client_steps:
  "poll_readmission L clk ins k r g = Some (res, r', g') \<Longrightarrow> client_steps L S g g'"
  by (auto simp: poll_readmission_def split: readmission.splits
      dest: begin_admit_client_steps poll_sleep_client_steps task_poll_client_steps)

lemma client_envD:
  assumes "client_env S inp" "client_steps L S g g'"
  shows "client_steps L S g (ti_env inp i g')"
proof -
  from assms(1) have "S\<^sup>*\<^sup>* g' (ti_env inp i g')" by (simp add: client_env_def)
  then have "client_steps L S g' (ti_env inp i g')"
    by (rule rtranclp_mono [THEN predicate2D, rotated]) blast
  with assms(2) show ?thesis by (rule rtranclp_trans)
qed

lemma forward_gate [simp]: "snd (snd (forward ops (b, g))) = g"
  by (simp add: forward_def case_prod_beta)

lemma cut_off_gate: "snd (snd (cut_off R ctx (b, g))) = log StreamCutoff g"
  by (simp add: cut_off_def split: option.split)

lemma cut_off_client_steps: "client_steps L S g g1 \<Longrightarrow> client_steps L S g (snd (snd (cut_off R ctx (b, g1))))"
  by (simp add: cut_off_gate log_client_steps)

lemma retry_later_client_steps:
  assumes env: "client_env S inp" and g: "client_steps L S g0 g"
  shows "client_steps L S g0 (snd (snd (retry_later L ops inp (b, g))))"
  using client_envD [OF env g, where i = 7]
  by (auto simp: retry_later_def Let_def split: option.split
      intro: rtranclp_trans dest!: poll_readmission_client_steps)

lemma readmitted_client_steps:
  assumes env: "client_env S inp" and g: "client_steps L S g0 g"
  shows "client_steps L S g0 (snd (snd (readmitted R ctx inp ea (b, g))))"
proof -
  obtain al g1 where al: "handle_is_allowed (ti_clock inp 10) ea (ti_env inp 5 g) = (al, g1)"
    by fastforce
  from client_envD [OF env g, where i = 5] handle_client_steps(3) [OF al] have g1: "client_steps L S g0 g1"
    by (rule rtranclp_trans)
  obtain st g2 where st: "handle_state (ti_clock inp 11) ea (ti_env inp 6 g1) = (st, g2)"
    by fastforce
  from client_envD [OF env g1, where i = 6] handle_client_steps(2) [OF st] have "client_steps L S g0 g2"
    by (rule rtranclp_trans)
  with al st g1 show ?thesis
    by (auto simp: readmitted_def cut_off_client_steps split: option.split bool.split)
qed

lemma readmit_client_steps:
  assumes env: "client_env S inp" and g: "client_steps L S g0 g"
  shows "client_steps L S g0 (snd (snd (readmit L ops R ctx inp (b, g))))"
proof -
  let ?r = "case eb_readmission b of None \<Rightarrow> RAdmit | Some r \<Rightarrow> r"
  let ?poll = "poll_readmission L (\<lambda>i. ti_clock inp (i + 6)) (ti_polls inp) (eb_subject b) ?r (ti_env inp 4 g)"
  note g4 = client_envD [OF env g, where i = 4]
  show ?thesis
  proof (cases ?poll)
    case None
    with g show ?thesis by (simp add: readmit_def Let_def)
  next
    case (Some a)
    then obtain res r g1 where poll: "?poll = Some (res, r, g1)" by (cases a) auto
    from g4 poll_readmission_client_steps [OF poll] have g1: "client_steps L S g0 g1"
      by (rule rtranclp_trans)
    consider "res = None" | "res = Some None" | ea where "res = Some (Some ea)"
      by (cases res rule: option.exhaust) (auto intro: option.exhaust)
    then show ?thesis
      by cases (use poll g1 readmitted_client_steps [OF env g1] retry_later_client_steps [OF env g1]
          in \<open>simp_all add: readmit_def Let_def\<close>)
  qed
qed

lemma recover_client_steps:
  assumes env: "client_env S inp" and g: "client_steps L S g0 g"
  shows "client_steps L S g0 (snd (snd (recover L ops R ctx inp (b, g))))"
proof -
  obtain adm g1 where adm: "check_without_refresh L (\<lambda>i. ti_clock inp (i + 1)) (eb_subject b) (ti_env inp 1 g) = (adm, g1)"
    by fastforce
  from client_envD [OF env g, where i = 1] check_client_steps [OF adm] have g1: "client_steps L S g0 g1"
    by (rule rtranclp_trans)
  show ?thesis
  proof (cases adm)
    case None
    with adm readmit_client_steps [OF env g1] show ?thesis by (simp add: recover_def)
  next
    case (Some ea)
    obtain al g2 where al: "handle_is_allowed (ti_clock inp 4) ea (ti_env inp 2 g1) = (al, g2)"
      by fastforce
    from client_envD [OF env g1, where i = 2] handle_client_steps(3) [OF al] have g2: "client_steps L S g0 g2"
      by (rule rtranclp_trans)
    obtain st g3 where st: "handle_state (ti_clock inp 5) ea (ti_env inp 3 g2) = (st, g3)"
      by fastforce
    from client_envD [OF env g2, where i = 3] handle_client_steps(2) [OF st] have g3: "client_steps L S g0 g3"
      by (rule rtranclp_trans)
    from adm Some al st g2 g3 show ?thesis
      by (auto simp: recover_def cut_off_client_steps readmit_client_steps [OF env]
          split: option.split bool.split)
  qed
qed

lemma frame_turn_client_steps:
  assumes env: "client_env S inp"
  shows "client_steps L S g (snd (snd (frame_turn L ops R ctx inp (b, g))))"
proof -
  obtain ob g1 where ob: "handle_observe (ti_clock inp 0) (eb_admission b) (ti_env inp 0 g) = (ob, g1)"
    by fastforce
  from client_envD [OF env rtranclp.rtrancl_refl [of _ g], where i = 0 and L = L] handle_client_steps(1) [OF ob]
  have "client_steps L S g g1" by (rule rtranclp_trans)
  with ob show ?thesis
    by (auto simp: frame_turn_def cut_off_client_steps recover_client_steps [OF env]
        split: option.split observed.split)
qed


section \<open>Enforcement and recovery\<close>

lemma set_heap_simps [simp]:
  "gate_heap (set_heap h g) = h" "config (set_heap h g) = config g" "metrics (set_heap h g) = metrics g"
  "snapshot (set_heap h g) = snapshot g"
  by (simp_all add: set_heap_def)

lemma observed_fresh:
  assumes "cells h ea = Some e" "\<not> is_expired_at e (current_word e) now" "current_state e \<noteq> EPending"
  shows "with_entry ea (\<lambda>a. observed_at a now) None h =
    (Some (case current_state e of EAllowed \<Rightarrow> OAllowed | EDenied \<Rightarrow> ODenied | _ \<Rightarrow> OStale),
     h\<lparr>next_addr := Suc (next_addr h)\<rparr>)"
proof -
  from assms(1) have "(cells h)(ea \<mapsto> e) = cells h" by auto
  with assms show ?thesis
    by (cases "current_state e") (simp_all add: with_entry_heap observed_at_eq expire_fresh)
qed

lemma observed_expired:
  assumes "cells h ea = Some e" "is_expired_at e (current_word e) now"
  shows "fst (with_entry ea (\<lambda>a. observed_at a now) None h) = Some OExpired"
  using assms by (simp add: with_entry_heap observed_at_eq)

lemma is_allowed_fresh:
  assumes "fresh ea now DAllowed h"
  shows "with_entry ea (\<lambda>a. admission_is_allowed a now) None h = (Some True, h\<lparr>next_addr := Suc (next_addr h)\<rparr>)"
proof -
  from assms obtain e where e: "cells h ea = Some e" "\<not> is_expired_at e (current_word e) now"
    "current_state e = entry_state_of DAllowed" by (rule fresh_entry)
  then have "(cells h)(ea \<mapsto> e) = cells h" by auto
  with e show ?thesis
    by (simp add: with_entry_heap admission_is_allowed_def admission_state_at_def observed_at_eq expire_fresh)
qed

text \<open>A poll that finds the entry denied or expired cuts the stream off.\<close>

lemma poll_cuts_off:
  assumes "\<not> eb_ended b" "\<not> body_end ops (eb_inner b)"
    and e: "cells (gate_heap (ti_env inp 0 g)) (eb_admission b) = Some e"
    and st: "is_expired_at e (current_word e) (ti_clock inp 0) \<or> current_state e = EDenied"
  shows "\<exists>b' g'. poll_frame L ops R ctx (inp # inps) (b, g) =
      (case R (eb_side b) (rejection_message ctx) of
         Some r \<Rightarrow> TReturn (rejection_poll r) | None \<Rightarrow> TPanic, b', g')
    \<and> eb_inner b' = eb_inner b \<and> eb_ended b' \<and> metrics g' = StreamCutoff # metrics (ti_env inp 0 g)"
proof -
  let ?r = "handle_observe (ti_clock inp 0) (eb_admission b) (ti_env inp 0 g)"
  have "fst ?r = Some OExpired \<or> fst ?r = Some ODenied"
  proof (cases "is_expired_at e (current_word e) (ti_clock inp 0)")
    case True
    from observed_expired [OF e True] show ?thesis by (simp add: handle_observe_def case_prod_beta)
  next
    case False
    with st observed_fresh [OF e False] show ?thesis by (simp add: handle_observe_def case_prod_beta)
  qed
  moreover have "metrics (snd ?r) = metrics (ti_env inp 0 g)" by (simp add: handle_observe_def case_prod_beta)
  moreover obtain o' g1 where "?r = (o', g1)" by fastforce
  ultimately show ?thesis using assms(1,2)
    by (auto simp: poll_frame_def frame_turn_def cut_off_def log_def split: option.split)
qed

text \<open>
  C11: the wrapper enforces the decision at every poll. If the entry behind its handle is
  denied or past its deadline when the poll looks, the poll returns the rejection instead
  of a frame, does not touch the inner body, ends the wrapper and reports one cut-off; if
  the entry is allowed and fresh, the poll is exactly the inner body's poll.
\<close>

theorem stream_enforces:
  assumes "\<not> eb_ended b" "\<not> body_end ops (eb_inner b)"
    and e: "cells (gate_heap (ti_env inp 0 g)) (eb_admission b) = Some e"
    and st: "is_expired_at e (current_word e) (ti_clock inp 0) \<or> current_state e \<in> {EDenied, EAllowed}"
  shows "\<exists>b' g'. poll_frame L ops R ctx (inp # inps) (b, g) =
      (if is_expired_at e (current_word e) (ti_clock inp 0) \<or> current_state e = EDenied
       then case R (eb_side b) (rejection_message ctx) of
              Some r \<Rightarrow> TReturn (rejection_poll r) | None \<Rightarrow> TPanic
       else TReturn (fst (body_poll ops (eb_inner b))), b', g')
    \<and> (if is_expired_at e (current_word e) (ti_clock inp 0) \<or> current_state e = EDenied
       then eb_inner b' = eb_inner b \<and> eb_ended b' \<and> metrics g' = StreamCutoff # metrics (ti_env inp 0 g)
       else eb_inner b' = snd (body_poll ops (eb_inner b)) \<and> metrics g' = metrics (ti_env inp 0 g))"
proof (cases "is_expired_at e (current_word e) (ti_clock inp 0) \<or> current_state e = EDenied")
  case True
  from poll_cuts_off [OF assms(1,2) e this] True show ?thesis by simp
next
  case False
  with st observed_fresh [OF e, of "ti_clock inp 0"] assms(1,2) show ?thesis
    by (auto simp: poll_frame_def frame_turn_def handle_observe_def forward_def
        poll_inner_terminal_def Let_def split: prod.splits option.splits frame_poll.splits frame.splits)
qed


section \<open>A retry that completes at once\<close>

lemma readmission_done:
  assumes "poll_readmission L clk ins k r g = Some (Some res, r', g')"
  shows "r' = RFinished"
  using assms
  by (auto simp: poll_readmission_def begin_admit_def poll_sleep_def task_poll_def
      split: readmission.splits option.splits prod.splits bind_splits admit_pc.splits if_splits)

text \<open>A turn wakes its task only for a finished readmission that it keeps.\<close>

definition woken_ok ::
  "('b, 'k, 'p) enforced_body \<Rightarrow> ('d, 'h, 'x) frame_turn \<times> ('b, 'c, 'k, 'p) body_state \<Rightarrow> bool" where
  "woken_ok b = (\<lambda>(t, b', g).
     (t = TContinue \<longrightarrow> eb_woken b' = eb_woken b \<and> eb_ended b' = eb_ended b) \<and>
     (t = TReturn FPending \<longrightarrow> eb_ended b' = eb_ended b \<and>
        (eb_woken b' \<longrightarrow> eb_woken b \<or> eb_readmission b' = Some RFinished)))"

lemma forward_woken:
  assumes "eb_ended b' = eb_ended b" "eb_woken b' \<longrightarrow> eb_woken b \<or> eb_readmission b' = Some RFinished"
  shows "woken_ok b (forward ops (b', g))"
  using assms
  by (auto simp: woken_ok_def forward_def poll_inner_terminal_def Let_def
      split: prod.splits frame_poll.splits frame.splits)

lemma rejection_not_pending: "rejection_poll r \<noteq> FPending"
  by (cases r) simp_all

lemma cut_off_woken: "woken_ok b (cut_off R ctx (b', g))"
  by (simp add: woken_ok_def cut_off_def rejection_not_pending split: option.split)

lemma panic_woken: "woken_ok b (TPanic, s)"
  by (simp add: woken_ok_def split: prod.split)

lemma continue_woken:
  "eb_ended b' = eb_ended b \<Longrightarrow> eb_woken b' = eb_woken b \<Longrightarrow> woken_ok b (TContinue, b', g)"
  by (simp add: woken_ok_def)

lemmas wokens = forward_woken cut_off_woken panic_woken continue_woken

lemma retry_later_woken:
  assumes "eb_ended b' = eb_ended b" "eb_woken b' = eb_woken b"
  shows "woken_ok b (retry_later L ops inp (b', g))"
proof (cases "poll_readmission L (\<lambda>i. ti_clock inp (i + 12)) (ti_retry_polls inp) (eb_subject b')
    (RAfter (admission_timeout (config (ti_env inp 7 g)))) (ti_env inp 7 g)")
  case None
  then show ?thesis by (simp add: retry_later_def wokens)
next
  case (Some x)
  then obtain res r g1 where x: "x = (res, r, g1)" by (cases x) auto
  have "r = RFinished" if "res \<noteq> None"
    using that readmission_done Some x by fastforce
  with assms Some x show ?thesis
    by (auto simp: retry_later_def Let_def intro!: forward_woken)
qed

lemma readmitted_woken:
  assumes "eb_ended b' = eb_ended b" "eb_woken b' = eb_woken b"
  shows "woken_ok b (readmitted R ctx inp ea (b', g))"
  using assms by (simp add: readmitted_def wokens split: prod.split option.split bool.split)

lemma readmit_woken:
  assumes "eb_ended b' = eb_ended b" "eb_woken b' = eb_woken b"
  shows "woken_ok b (readmit L ops R ctx inp (b', g))"
  using assms
  by (simp add: readmit_def Let_def wokens retry_later_woken readmitted_woken split: prod.split option.split)

lemma recover_woken:
  assumes "eb_ended b' = eb_ended b" "eb_woken b' = eb_woken b"
  shows "woken_ok b (recover L ops R ctx inp (b', g))"
  using assms
  by (simp add: recover_def wokens readmit_woken split: prod.split option.split bool.split)

lemma frame_turn_woken: "woken_ok b (frame_turn L ops R ctx inp (b, g))"
  by (simp add: frame_turn_def wokens recover_woken split: prod.split option.split observed.split)

lemma frame_loop_woken: "woken_ok b (frame_loop L ops R ctx inps (b, g))"
proof (induction inps arbitrary: b g)
  case Nil
  then show ?case by (simp add: woken_ok_def)
next
  case (Cons inp inps)
  obtain t b' g' where turn: "frame_turn L ops R ctx inp (b, g) = (t, b', g')"
    by (cases "frame_turn L ops R ctx inp (b, g)") auto
  with frame_turn_woken [of b L ops R ctx inp g] have ok: "woken_ok b (t, b', g')" by simp
  show ?case
  proof (cases t)
    case TContinue
    with ok Cons.IH [of b' g'] show ?thesis by (simp add: turn woken_ok_def)
  qed (use ok in \<open>simp_all add: turn\<close>)
qed

text \<open>
  C32: a delayed retry that completes on its first poll is not picked up. When a poll that
  returned pending has woken its own task (it does so only because the delayed replacement
  of a failed readmission was ready at once), the completed future is what it kept, its
  result is lost, and the next poll that still finds the handle stale and no verdict in the
  snapshot polls the completed future again, which panics.
\<close>

theorem immediate_retry_panics:
  assumes "poll_frame L ops R ctx inps (b, g) = (TReturn FPending, b1, g1)"
    and "\<not> eb_woken b" "eb_woken b1"
    and "\<not> body_end ops (eb_inner b1)"
    and "handle_observe (ti_clock inp 0) (eb_admission b1) (ti_env inp 0 g1) = (Some OStale, g2)"
    and "check_without_refresh L (\<lambda>i. ti_clock inp (i + 1)) (eb_subject b1) (ti_env inp 1 g2) = (None, g3)"
  shows "eb_readmission b1 = Some RFinished
    \<and> fst (poll_frame L ops R ctx (inp # inps') (b1, g1)) = TPanic"
proof -
  from assms(1) have "\<not> eb_ended b" "frame_loop L ops R ctx inps (b, g) = (TReturn FPending, b1, g1)"
    by (auto simp: poll_frame_def split: if_splits)
  with frame_loop_woken [of b L ops R ctx inps g] assms(2,3)
  have r: "eb_readmission b1 = Some RFinished" and "\<not> eb_ended b1"
    by (simp_all add: woken_ok_def)
  then show ?thesis
    using assms(4-6)
    by (simp add: poll_frame_def frame_turn_def recover_def readmit_def poll_readmission_def)
qed

end
