(* ===== verification/Grpc_Status.thy ===== *)
theory Grpc_Status
  imports Main
begin

text \<open>
  gRPC statuses as the two transport adapters use them: the codes with the numbers the
  gRPC protocol gives them, and a status as a code with its message. What tonic does with
  a status (its text, its header encoding) is a parameter of the theories that use it.
\<close>

datatype grpc_code =
    GOk | GCancelled | GUnknown | GInvalidArgument | GDeadlineExceeded | GNotFound
  | GAlreadyExists | GPermissionDenied | GResourceExhausted | GFailedPrecondition | GAborted
  | GOutOfRange | GUnimplemented | GInternal | GUnavailable | GDataLoss | GUnauthenticated

fun grpc_code_number :: "grpc_code \<Rightarrow> nat" where
  "grpc_code_number GOk = 0"
| "grpc_code_number GCancelled = 1"
| "grpc_code_number GUnknown = 2"
| "grpc_code_number GInvalidArgument = 3"
| "grpc_code_number GDeadlineExceeded = 4"
| "grpc_code_number GNotFound = 5"
| "grpc_code_number GAlreadyExists = 6"
| "grpc_code_number GPermissionDenied = 7"
| "grpc_code_number GResourceExhausted = 8"
| "grpc_code_number GFailedPrecondition = 9"
| "grpc_code_number GAborted = 10"
| "grpc_code_number GOutOfRange = 11"
| "grpc_code_number GUnimplemented = 12"
| "grpc_code_number GInternal = 13"
| "grpc_code_number GUnavailable = 14"
| "grpc_code_number GDataLoss = 15"
| "grpc_code_number GUnauthenticated = 16"

record grpc_status =
  st_code :: grpc_code
  st_message :: string

end
