(* ===== verification/Rendering.thy ===== *)
theory Rendering
  imports Stream_Body Grpc_Status
begin

text \<open>
  How the layer renders its outcomes: the plain HTTP responses and the replacement of the
  unavailable response (\<open>src/src/layer.rs\<close>), and the gRPC status encoding
  (\<open>src/src/grpc.rs\<close>). A header map is a finite map from names to values. Rendering may
  panic (\<open>expect\<close> on tonic's header encoding), which is the result \<open>None\<close>.
\<close>

section \<open>Responses\<close>

type_synonym headers = "string \<rightharpoonup> string"

record 'b response =
  rs_status :: nat
  rs_headers :: headers
  rs_body :: 'b

text \<open>The error types the layer boxes for a body: its own, tonic's, and the inner body's.\<close>

datatype 'e box_error = LimitExceededError string | StatusError grpc_status | InnerError 'e

datatype admission_unavailable = AdmissionUnavailable

text \<open>\<open>RejectionResponse\<close>; the first argument is the adapter's \<open>make_body\<close>.\<close>

record ('b, 'e) rejection_response =
  rr_denied :: "(string \<Rightarrow> 'b) \<Rightarrow> string \<Rightarrow> 'b response option"
  rr_missing_subject :: "(string \<Rightarrow> 'b) \<Rightarrow> string \<Rightarrow> 'b response option"
  rr_unavailable :: "(string \<Rightarrow> 'b) \<Rightarrow> admission_unavailable \<Rightarrow> string \<Rightarrow> 'b response option"
  rr_stream_denied :: "(headers, 'e box_error) stream_denied"

section \<open>Plain HTTP\<close>

definition TOO_MANY_REQUESTS :: nat where "TOO_MANY_REQUESTS = 429"
definition BAD_REQUEST :: nat where "BAD_REQUEST = 400"
definition SERVICE_UNAVAILABLE :: nat where "SERVICE_UNAVAILABLE = 503"

definition http_response :: "(string \<Rightarrow> 'b) \<Rightarrow> nat \<Rightarrow> string \<Rightarrow> 'b response" where
  "http_response make_body status msg =
     \<lparr> rs_status = status, rs_headers = Map.empty, rs_body = make_body msg \<rparr>"

definition http_rejection :: "('b, 'e) rejection_response" where
  "http_rejection = \<lparr>
     rr_denied = (\<lambda>mk msg. Some (http_response mk TOO_MANY_REQUESTS msg)),
     rr_missing_subject = (\<lambda>mk msg. Some (http_response mk BAD_REQUEST msg)),
     rr_unavailable = (\<lambda>mk _ msg. Some (http_response mk SERVICE_UNAVAILABLE msg)),
     rr_stream_denied = (\<lambda>_ msg. Some (RejectError (LimitExceededError msg))) \<rparr>"

text \<open>\<open>UnavailableResponseAdapter\<close>: the callback replaces the unavailable response only.\<close>

definition with_unavailable_response ::
  "(admission_unavailable \<Rightarrow> 'b response option) \<Rightarrow> ('b, 'e) rejection_response
    \<Rightarrow> ('b, 'e) rejection_response" where
  "with_unavailable_response callback inner = \<lparr>
     rr_denied = (\<lambda>mk msg. rr_denied inner mk msg),
     rr_missing_subject = (\<lambda>mk msg. rr_missing_subject inner mk msg),
     rr_unavailable = (\<lambda>_ error _. callback error),
     rr_stream_denied = (\<lambda>side msg. rr_stream_denied inner side msg) \<rparr>"

section \<open>gRPC\<close>

text \<open>
  \<open>Status::add_header\<close> of tonic, a parameter: it adds a status to a header map, or fails.
\<close>

type_synonym add_header = "grpc_status \<Rightarrow> headers \<Rightarrow> headers option"

definition status_headers :: "add_header \<Rightarrow> grpc_code \<Rightarrow> string \<Rightarrow> headers option" where
  "status_headers add_header code msg =
     add_header \<lparr> st_code = code, st_message = msg \<rparr> Map.empty"

definition status_response ::
  "add_header \<Rightarrow> (string \<Rightarrow> 'b) \<Rightarrow> grpc_code \<Rightarrow> string \<Rightarrow> 'b response option" where
  "status_response add_header make_body code msg =
     do {
       hs \<leftarrow> add_header \<lparr> st_code = code, st_message = msg \<rparr> Map.empty;
       Some \<lparr> rs_status = 200, rs_headers = hs(''content-type'' \<mapsto> ''application/grpc''),
              rs_body = make_body '''' \<rparr>
     }"

definition tonic_stream_denied ::
  "add_header \<Rightarrow> body_side \<Rightarrow> string \<Rightarrow> (headers, 'e box_error) stream_rejection option" where
  "tonic_stream_denied add_header side msg =
     (case side of
        ResponseSide \<Rightarrow> map_option RejectTrailers (status_headers add_header GFailedPrecondition msg)
      | RequestSide \<Rightarrow>
          Some (RejectError (StatusError \<lparr> st_code = GFailedPrecondition, st_message = msg \<rparr>)))"

definition tonic_rejection :: "add_header \<Rightarrow> ('b, 'e) rejection_response" where
  "tonic_rejection add_header = \<lparr>
     rr_denied = (\<lambda>mk msg. status_response add_header mk GFailedPrecondition msg),
     rr_missing_subject = (\<lambda>mk msg. status_response add_header mk GFailedPrecondition msg),
     rr_unavailable = (\<lambda>mk _ msg. status_response add_header mk GUnavailable msg),
     rr_stream_denied = tonic_stream_denied add_header \<rparr>"

end
