(* ===== verification/Layer.thy ===== *)
theory Layer
  imports Rendering
begin

text \<open>
  The Tower middleware (\<open>src/src/layer.rs\<close>): how a request is admitted, rejected or passed
  to the inner service, the future of an admitted request's response, and the rate limit of
  the missing-subject log. The inner service, the request policy and the body adapter are
  parameters. A boxed future is a state that is polled; its steps end where the source
  awaits or where other threads may act in between.
\<close>

section \<open>Requests, policies, adapters and services\<close>

text \<open>A request is its body and everything else.\<close>

record ('q, 'b) request =
  rq_head :: 'q
  rq_body :: 'b

record ('q, 'b, 'k) request_policy =
  rp_subject :: "('q, 'b) request \<Rightarrow> 'k option"
  rp_enforce_request_body :: "('q, 'b) request \<Rightarrow> bool"
  rp_enforce_response_body :: "('q, 'b) request \<Rightarrow> bool"

text \<open>\<open>BodyAdapter\<close> at the types the middleware uses it with.\<close>

record ('b, 'r, 'k, 'p) body_adapter =
  ba_adapt_request :: "('b, 'k, 'p) enforced_body \<Rightarrow> 'b"
  ba_adapt_response :: "('r, 'k, 'p) enforced_body \<Rightarrow> 'b"
  ba_adapt_plain :: "'r \<Rightarrow> 'b"
  ba_make_body :: "string \<Rightarrow> 'b"

text \<open>The inner \<open>tower::Service\<close>, whose error type is \<open>Infallible\<close>, and its future.\<close>

record ('s, 'f, 'q, 'b, 'r) service =
  sv_clone :: "'s \<Rightarrow> 's"
  sv_call :: "'s \<Rightarrow> ('q, 'b) request \<Rightarrow> 'f \<times> 's"
  sv_poll :: "'f \<Rightarrow> 'r response option \<times> 'f"

text \<open>What \<open>PolicyGateMiddleware\<close> shares between requests.\<close>

record ('s, 'f, 'q, 'b, 'r, 'k, 'p, 'e) layer =
  ly_context :: gate_context
  ly_policy :: "('q, 'b, 'k) request_policy"
  ly_adapter :: "('b, 'r, 'k, 'p) body_adapter"
  ly_response :: "('b, 'e) rejection_response"
  ly_service :: "('s, 'f, 'q, 'b, 'r) service"

definition UNAVAILABLE_MESSAGE :: string where
  "UNAVAILABLE_MESSAGE = ''Policy decision source is unavailable; retry the request.''"

text \<open>\<open>PolicyGateLayerConfig\<close>: its two messages become the shared context.\<close>

record policy_gate_layer_config =
  denied_message :: string
  missing_subject_message :: string

definition layer_context :: "policy_gate_layer_config \<Rightarrow> gate_context" where
  "layer_context cfg =
     \<lparr> rejection_message = denied_message cfg,
       ctx_missing_subject_message = missing_subject_message cfg \<rparr>"

section \<open>The missing-subject log\<close>

definition MISSING_SUBJECT_LOG_INTERVAL_SECS :: u64 where
  "MISSING_SUBJECT_LOG_INTERVAL_SECS = 60"

text \<open>
  \<open>should_log_missing_subject\<close> at \<open>now\<close> seconds; \<open>loaded\<close> is the value the relaxed load
  returned and \<open>next\<close> the value the compare-and-exchange finds.
\<close>

definition should_log_missing_subject :: "u64 \<Rightarrow> u64 \<Rightarrow> u64 \<Rightarrow> bool \<times> u64" where
  "should_log_missing_subject now loaded next =
     (if now \<ge> loaded \<and> next = loaded
      then (True, u64_saturating_add now MISSING_SUBJECT_LOG_INTERVAL_SECS) else (False, next))"

section \<open>Passing a request on\<close>

record ('f, 'k) enforced_response_future =
  ef_inner :: 'f
  ef_subject :: 'k
  ef_admission :: "nat option"
  ef_enforce_response_body :: bool

definition pass_through ::
  "('s, 'f, 'q, 'b, 'r, 'k, 'p, 'e) layer \<Rightarrow> 's \<Rightarrow> ('q, 'b) request \<Rightarrow> 'k \<Rightarrow> nat
    \<Rightarrow> ('f, 'k) enforced_response_future \<times> 's" where
  "pass_through Y inner request k ea =
     (let enforce_request_body = rp_enforce_request_body (ly_policy Y) request;
          enforce_response_body = rp_enforce_response_body (ly_policy Y) request;
          request =
            (if enforce_request_body
             then request\<lparr>rq_body := ba_adapt_request (ly_adapter Y)
                    (enforced_body_new (rq_body request) k ea RequestSide)\<rparr>
             else request);
          (f, inner) = sv_call (ly_service Y) inner request
      in (\<lparr> ef_inner = f, ef_subject = k, ef_admission = Some ea,
            ef_enforce_response_body = enforce_response_body \<rparr>, inner))"

text \<open>
  \<open>EnforcedResponseFuture::poll\<close>: nothing yet, or the response; \<open>Some None\<close> is the panic of
  a future polled after it has completed.
\<close>

definition enforced_response_poll ::
  "('s, 'f, 'q, 'b, 'r, 'k, 'p, 'e) layer \<Rightarrow> ('f, 'k) enforced_response_future
    \<Rightarrow> 'b response option option \<times> ('f, 'k) enforced_response_future" where
  "enforced_response_poll Y f =
     (case sv_poll (ly_service Y) (ef_inner f) of
        (None, i) \<Rightarrow> (None, f\<lparr>ef_inner := i\<rparr>)
      | (Some response, i) \<Rightarrow>
          (let f' = f\<lparr>ef_inner := i, ef_admission := None\<rparr> in
           case ef_admission f of
             None \<Rightarrow> (Some None, f')
           | Some ea \<Rightarrow>
             (if ef_enforce_response_body f
              then (Some (Some \<lparr> rs_status = rs_status response,
                                 rs_headers = (rs_headers response)(''content-length'' := None),
                                 rs_body = ba_adapt_response (ly_adapter Y)
                                   (enforced_body_new (rs_body response) (ef_subject f) ea ResponseSide) \<rparr>), f')
              else (Some (Some \<lparr> rs_status = rs_status response, rs_headers = rs_headers response,
                                 rs_body = ba_adapt_plain (ly_adapter Y) (rs_body response) \<rparr>), f'))))"

definition deny ::
  "('s, 'f, 'q, 'b, 'r, 'k, 'p, 'e) layer \<Rightarrow> ('c, 'k, 'p) gate \<Rightarrow> 'b response option \<times> ('c, 'k, 'p) gate" where
  "deny Y g =
     (rr_denied (ly_response Y) (ba_make_body (ly_adapter Y)) (rejection_message (ly_context Y)),
      log Denial g)"

section \<open>The middleware\<close>

text \<open>
  The future of a call. \<open>LDone None\<close> is a panic; the middleware's inner service and the
  next log time are its own state.
\<close>

datatype ('s, 'f, 'q, 'b, 'k, 'p) layer_future =
    LCached 's "('q, 'b) request" 'k
  | LEnter 's "('q, 'b) request" 'k
  | LAdmitting 's "('q, 'b) request" "('k, 'p) admit_task"
  | LEnforced "('f, 'k) enforced_response_future"
  | LDone "'b response option"

record 's middleware =
  mw_inner :: 's
  mw_next_log :: u64

record ('c, 'k, 'p) layer_input =
  li_env :: "nat \<Rightarrow> ('c, 'k, 'p) gate \<Rightarrow> ('c, 'k, 'p) gate"
  li_clock :: clock
  li_sent :: bool
  li_admit :: admit_input
  li_secs :: u64
  li_loaded :: u64

text \<open>
  What a handle allows: pass the request on, deny it, or neither. \<open>Some None\<close> is neither,
  \<open>None\<close> the handle's panic.
\<close>

definition judge ::
  "('c, 'k, 'p) layer_input \<Rightarrow> nat \<Rightarrow> ('c, 'k, 'p) gate
    \<Rightarrow> decision option option \<times> ('c, 'k, 'p) gate" where
  "judge inp ea g =
     (case handle_is_allowed (li_clock inp 0) ea (li_env inp 0 g) of
        (None, g) \<Rightarrow> (None, g)
      | (Some True, g) \<Rightarrow> (Some (Some DAllowed), g)
      | (Some False, g) \<Rightarrow>
          (case handle_state (li_clock inp 1) ea (li_env inp 1 g) of
             (None, g) \<Rightarrow> (None, g)
           | (Some st, g) \<Rightarrow> (Some (if st = ADenied then Some DDenied else None), g)))"

text \<open>Judge a handle; \<open>otherwise\<close> continues when it is neither allowed nor denied.\<close>

definition on_admission ::
  "('s, 'f, 'q, 'b, 'r, 'k, 'p, 'e) layer \<Rightarrow> ('c, 'k, 'p) layer_input \<Rightarrow> 's \<Rightarrow> ('q, 'b) request
    \<Rightarrow> 'k \<Rightarrow> nat
    \<Rightarrow> (('c, 'k, 'p) gate \<Rightarrow> ('s, 'f, 'q, 'b, 'k, 'p) layer_future \<times> 's \<times> ('c, 'k, 'p) gate)
    \<Rightarrow> ('c, 'k, 'p) gate \<Rightarrow> ('s, 'f, 'q, 'b, 'k, 'p) layer_future \<times> 's \<times> ('c, 'k, 'p) gate" where
  "on_admission Y inp inner request k ea otherwise g =
     (case judge inp ea g of
        (None, g) \<Rightarrow> (LDone None, inner, g)
      | (Some (Some DAllowed), g) \<Rightarrow>
          (let (f, inner) = pass_through Y inner request k ea in (LEnforced f, inner, g))
      | (Some (Some DDenied), g) \<Rightarrow> (let (r, g) = deny Y g in (LDone r, inner, g))
      | (Some None, g) \<Rightarrow> otherwise g)"

text \<open>The boxed future takes the current inner service and leaves a clone in its place.\<close>

definition box_future ::
  "('s, 'f, 'q, 'b, 'r, 'k, 'p, 'e) layer \<Rightarrow> bool \<Rightarrow> ('q, 'b) request \<Rightarrow> 'k \<Rightarrow> 's
    \<Rightarrow> ('s, 'f, 'q, 'b, 'k, 'p) layer_future \<times> 's" where
  "box_future Y refresh_disabled request k inner =
     (let clone = sv_clone (ly_service Y) inner in
      (if refresh_disabled then LEnter inner request k else LCached inner request k, clone))"

text \<open>The cached check has failed: count it and go on to the boxed admission.\<close>

definition snapshot_missed ::
  "('s, 'f, 'q, 'b, 'r, 'k, 'p, 'e) layer \<Rightarrow> ('q, 'b) request \<Rightarrow> 'k \<Rightarrow> 's \<Rightarrow> ('c, 'k, 'p) gate
    \<Rightarrow> ('s, 'f, 'q, 'b, 'k, 'p) layer_future \<times> 's \<times> ('c, 'k, 'p) gate" where
  "snapshot_missed Y request k inner g =
     (let (fut, clone) = box_future Y True request k inner in (fut, clone, log SnapshotMiss g))"

definition layer_call ::
  "('c, 'k) slot_lru \<Rightarrow> ('s, 'f, 'q, 'b, 'r, 'k, 'p, 'e) layer \<Rightarrow> ('c, 'k, 'p) layer_input
    \<Rightarrow> ('q, 'b) request \<Rightarrow> 's middleware \<times> ('c, 'k, 'p) gate
    \<Rightarrow> ('s, 'f, 'q, 'b, 'k, 'p) layer_future \<times> 's middleware \<times> ('c, 'k, 'p) gate" where
  "layer_call L Y inp request = (\<lambda>(mw, g).
     (case rp_subject (ly_policy Y) request of
        None \<Rightarrow>
          (let g = log MissingSubjectRejection g;
               (_, next) = should_log_missing_subject (li_secs inp) (li_loaded inp) (mw_next_log mw)
           in (LDone (rr_missing_subject (ly_response Y) (ba_make_body (ly_adapter Y))
                 (ctx_missing_subject_message (ly_context Y))), mw\<lparr>mw_next_log := next\<rparr>, g))
      | Some k \<Rightarrow>
          (let missed = snapshot_missed Y request k (mw_inner mw);
               (fut, inner, g) =
                 (if refresh_before_expiry (config g) = 0
                  then case check_without_refresh L (\<lambda>i. li_clock inp (i + 2)) k g of
                      (Some ea, g) \<Rightarrow> on_admission Y inp (mw_inner mw) request k ea missed g
                    | (None, g) \<Rightarrow> missed g
                  else (let (fut, clone) = box_future Y False request k (mw_inner mw) in (fut, clone, g)))
           in (fut, mw\<lparr>mw_inner := inner\<rparr>, g))))"

text \<open>\<open>gate.admit\<close> has returned: \<open>None\<close> is \<open>AdmissionUnavailable\<close>.\<close>

definition admit_returned ::
  "('s, 'f, 'q, 'b, 'r, 'k, 'p, 'e) layer \<Rightarrow> ('c, 'k, 'p) layer_input \<Rightarrow> 's \<Rightarrow> ('q, 'b) request
    \<Rightarrow> 'k \<Rightarrow> nat option \<Rightarrow> ('c, 'k, 'p) gate
    \<Rightarrow> ('s, 'f, 'q, 'b, 'k, 'p) layer_future \<times> ('c, 'k, 'p) gate" where
  "admit_returned Y inp inner request k res g =
     (case res of
        Some ea \<Rightarrow>
          (let (fut, _, g) = on_admission Y inp inner request k ea (\<lambda>g. (LEnter inner request k, inner, g)) g
           in (fut, g))
      | None \<Rightarrow>
          (LDone (rr_unavailable (ly_response Y) (ba_make_body (ly_adapter Y)) AdmissionUnavailable
             UNAVAILABLE_MESSAGE), log UnavailableRejection g))"

definition layer_poll ::
  "('c, 'k) slot_lru \<Rightarrow> ('s, 'f, 'q, 'b, 'r, 'k, 'p, 'e) layer \<Rightarrow> ('c, 'k, 'p) layer_input
    \<Rightarrow> ('s, 'f, 'q, 'b, 'k, 'p) layer_future \<times> ('c, 'k, 'p) gate
    \<Rightarrow> ('s, 'f, 'q, 'b, 'k, 'p) layer_future \<times> ('c, 'k, 'p) gate" where
  "layer_poll L Y inp = (\<lambda>(fut, g).
     (case fut of
        LCached inner request k \<Rightarrow>
          (let missed = (\<lambda>g. (LEnter inner request k, inner, log SnapshotMiss g));
               (fut, _, g) =
                 (case gate_check L (\<lambda>i. li_clock inp (i + 2)) k (li_sent inp) g of
                    (Some ea, g) \<Rightarrow> on_admission Y inp inner request k ea missed g
                  | (None, g) \<Rightarrow> missed g)
           in (fut, g))
      | LEnter inner request k \<Rightarrow>
          (case admit_start k (li_clock inp 2) g of
             (Some t, g) \<Rightarrow> (LAdmitting inner request t, g)
           | (None, g) \<Rightarrow> admit_returned Y inp inner request k None g)
      | LAdmitting inner request t \<Rightarrow>
          (case admit_poll L (li_admit inp) (t, g) of
             None \<Rightarrow> (LDone None, g)
           | Some (t, g) \<Rightarrow>
               (case at_pc t of
                  ADone res \<Rightarrow> admit_returned Y inp inner request (at_subject t) res g
                | _ \<Rightarrow> (LAdmitting inner request t, g)))
      | LEnforced f \<Rightarrow>
          (let (r, f) = enforced_response_poll Y f in
           case r of None \<Rightarrow> (LEnforced f, g) | Some response \<Rightarrow> (LDone response, g))
      | LDone r \<Rightarrow> (LDone r, g)))"

section \<open>The inner service only sees allowed subjects\<close>

lemma handle_is_allowed_fresh:
  assumes "handle_is_allowed now ea g = (Some True, g')"
  shows "fresh ea now DAllowed (gate_heap g')"
proof -
  obtain e where e: "cells (gate_heap g) ea = Some e"
    using assms by (auto simp: handle_is_allowed_def with_entry_def split: option.splits)
  with assms have "fst (observed_at (next_addr (gate_heap g)) now e) = Some OAllowed"
    and g': "cells (gate_heap g') ea = Some (expire (next_addr (gate_heap g)) now e)"
    by (auto simp: handle_is_allowed_def with_entry_heap admission_is_allowed_def admission_state_at_def
        observed_at_eq Let_def split: if_splits entry_state.splits)
  then have "\<not> is_expired_at e (current_word e) now" "current_state e = EAllowed"
    by (auto simp: observed_at_eq split: if_splits entry_state.splits)
  with g' show ?thesis by (simp add: fresh_def expire_fresh)
qed

lemma judge_allowed:
  assumes "judge inp ea g = (Some (Some DAllowed), g')"
  shows "fresh ea (li_clock inp 0) DAllowed (gate_heap g')"
  using assms handle_is_allowed_fresh
  by (auto simp: judge_def split: prod.splits option.splits bool.splits if_splits)

lemma pass_through_admission [simp]: "ef_admission (fst (pass_through Y inner request k ea)) = Some ea"
  by (simp add: pass_through_def Let_def case_prod_beta)

lemma on_admission_enforced:
  assumes "on_admission Y inp inner request k ea otherwise g = (LEnforced f, inner', g')"
    and "\<And>g f. fst (otherwise g) \<noteq> LEnforced f"
  shows "ef_admission f = Some ea \<and> fresh ea (li_clock inp 0) DAllowed (gate_heap g')"
proof -
  obtain j g1 where j: "judge inp ea g = (j, g1)" by fastforce
  from assms j have allowed: "j = Some (Some DAllowed)" and g1: "g1 = g'"
    by (auto simp: on_admission_def deny_def case_prod_beta Let_def
        split: option.splits decision.splits) (metis fst_conv)+
  have "f = fst (pass_through Y inner request k ea)"
    using assms(1) j allowed by (simp add: on_admission_def case_prod_beta Let_def)
  with judge_allowed [of inp ea g g1] j allowed g1 show ?thesis by simp
qed

lemma admit_returned_enforced:
  assumes "admit_returned Y inp inner request k res g = (LEnforced f, g')"
  shows "\<exists>ea. ef_admission f = Some ea \<and> fresh ea (li_clock inp 0) DAllowed (gate_heap g')"
proof (cases res)
  case None
  with assms show ?thesis by (simp add: admit_returned_def)
next
  case (Some ea)
  obtain fut inner' g1 where on: "on_admission Y inp inner request k ea
      (\<lambda>g. (LEnter inner request k, inner, g)) g = (fut, inner', g1)"
    by (cases "on_admission Y inp inner request k ea (\<lambda>g. (LEnter inner request k, inner, g)) g") auto
  with assms Some have "fut = LEnforced f" "g1 = g'" by (simp_all add: admit_returned_def)
  with on_admission_enforced [OF on [unfolded this]] show ?thesis by simp
qed

lemma layer_call_enforced:
  assumes call: "layer_call L Y inp request (mw, g) = (LEnforced f, mw', g')"
  shows "\<exists>ea. ef_admission f = Some ea \<and> fresh ea (li_clock inp 0) DAllowed (gate_heap g')"
proof -
  from call obtain k where k: "rp_subject (ly_policy Y) request = Some k"
    by (auto simp: layer_call_def case_prod_beta Let_def split: option.splits)
  let ?missed = "snapshot_missed Y request k (mw_inner mw)"
  show ?thesis
  proof (cases "refresh_before_expiry (config g) = 0")
    case False
    with call k show ?thesis by (simp add: layer_call_def box_future_def Let_def)
  next
    case True
    obtain r g1 where r: "check_without_refresh L (\<lambda>i. li_clock inp (i + 2)) k g = (r, g1)"
      by fastforce
    show ?thesis
    proof (cases r)
      case None
      with call k True r show ?thesis
        by (simp add: layer_call_def snapshot_missed_def box_future_def Let_def)
    next
      case (Some ea)
      obtain fut inner g2 where on: "on_admission Y inp (mw_inner mw) request k ea ?missed g1 = (fut, inner, g2)"
        by (cases "on_admission Y inp (mw_inner mw) request k ea ?missed g1") auto
      with call k True r Some have "fut = LEnforced f" "g2 = g'"
        by (simp_all add: layer_call_def Let_def)
      with on_admission_enforced [OF on [unfolded this]] show ?thesis
        by (auto simp: snapshot_missed_def box_future_def)
    qed
  qed
qed

lemma layer_poll_enforced:
  assumes fut: "\<forall>f0. fut \<noteq> LEnforced f0" and poll: "layer_poll L Y inp (fut, g) = (LEnforced f, g')"
  shows "\<exists>ea. ef_admission f = Some ea \<and> fresh ea (li_clock inp 0) DAllowed (gate_heap g')"
proof (cases fut)
  case (LCached inner rq k)
  obtain r g1 where r: "gate_check L (\<lambda>i. li_clock inp (i + 2)) k (li_sent inp) g = (r, g1)" by fastforce
  show ?thesis
  proof (cases r)
    case None
    with poll LCached r show ?thesis by (simp add: layer_poll_def)
  next
    case (Some ea)
    obtain fut' inner' g2 where on: "on_admission Y inp inner rq k ea
        (\<lambda>g. (LEnter inner rq k, inner, log SnapshotMiss g)) g1 = (fut', inner', g2)"
      by (cases "on_admission Y inp inner rq k ea
        (\<lambda>g. (LEnter inner rq k, inner, log SnapshotMiss g)) g1") auto
    with poll LCached r Some have "fut' = LEnforced f" "g2 = g'"
      by (simp_all add: layer_poll_def Let_def)
    with on_admission_enforced [OF on [unfolded this]] show ?thesis by simp
  qed
next
  case (LEnter inner rq k)
  with poll admit_returned_enforced [of Y inp inner rq k None] show ?thesis
    by (auto simp: layer_poll_def split: prod.splits option.splits)
next
  case (LAdmitting inner rq t)
  with poll admit_returned_enforced [of Y inp inner rq] show ?thesis
    by (auto simp: layer_poll_def split: option.splits admit_pc.splits)
qed (use fut poll in \<open>simp_all add: layer_poll_def\<close>)

text \<open>
  C10: the inner service is called only for an allowed subject. Whenever a call or a poll of
  its future hands the request to the inner service, the admission handle's entry holds an
  allowed verdict that is fresh at the clock reading of that step.
\<close>

theorem inner_called_only_when_allowed:
  assumes "(\<exists>mw mw'. layer_call L Y inp request (mw, g) = (LEnforced f, mw', g'))
    \<or> (\<exists>fut. (\<forall>f0. fut \<noteq> LEnforced f0) \<and> layer_poll L Y inp (fut, g) = (LEnforced f, g'))"
  shows "\<exists>ea. ef_admission f = Some ea \<and> fresh ea (li_clock inp 0) DAllowed (gate_heap g')"
  using assms layer_call_enforced layer_poll_enforced by blast

section \<open>Outcomes\<close>

lemma is_allowed_denied:
  assumes "fresh ea now DDenied h"
  shows "with_entry ea (\<lambda>a. admission_is_allowed a now) None h = (Some False, h\<lparr>next_addr := Suc (next_addr h)\<rparr>)"
    and "with_entry ea (\<lambda>a. admission_state_at a now) None h = (Some ADenied, h\<lparr>next_addr := Suc (next_addr h)\<rparr>)"
proof -
  from assms obtain e where e: "cells h ea = Some e" "\<not> is_expired_at e (current_word e) now"
    "current_state e = entry_state_of DDenied" by (rule fresh_entry)
  then have "(cells h)(ea \<mapsto> e) = cells h" by auto
  with e show "with_entry ea (\<lambda>a. admission_is_allowed a now) None h = (Some False, h\<lparr>next_addr := Suc (next_addr h)\<rparr>)"
    "with_entry ea (\<lambda>a. admission_state_at a now) None h = (Some ADenied, h\<lparr>next_addr := Suc (next_addr h)\<rparr>)"
    by (simp_all add: with_entry_heap admission_is_allowed_def admission_state_at_def observed_at_eq expire_fresh)
qed

lemma judge_fresh:
  assumes "fresh ea (li_clock inp 0) d (gate_heap g)" "fresh ea (li_clock inp 1) d (gate_heap g)"
    and quiet: "li_env inp = (\<lambda>_ g. g)"
  shows "\<exists>g'. judge inp ea g = (Some (Some d), g') \<and> metrics g' = metrics g"
proof (cases d)
  case DAllowed
  with is_allowed_fresh [of ea "li_clock inp 0" "gate_heap g"] assms(1) quiet show ?thesis
    by (simp add: judge_def handle_is_allowed_def)
next
  case DDenied
  let ?g = "set_heap ((gate_heap g)\<lparr>next_addr := Suc (next_addr (gate_heap g))\<rparr>) g"
  have "fresh ea (li_clock inp 1) DDenied (gate_heap ?g)"
    using assms(2) DDenied fresh_cong [of "gate_heap ?g" ea "gate_heap g"] by simp
  from is_allowed_denied(2) [OF this] is_allowed_denied(1) [of ea "li_clock inp 0" "gate_heap g"]
    assms(1) DDenied quiet show ?thesis
    by (simp add: judge_def handle_is_allowed_def handle_state_def del: One_nat_def)
qed

text \<open>
  A cached decision is served synchronously. With refreshes disabled and a fresh
  verdict in the published snapshot, the call decides without admitting: an allowed
  subject's request goes to the inner service at once, a denied one is answered with the
  denial response and one denial is counted; no snapshot miss is.
\<close>

lemma layer_serves_cached:
  assumes cache: "subject_cache L valid" and inv: "gate_inv valid L g"
    and k: "rp_subject (ly_policy Y) request = Some k"
    and disabled: "refresh_before_expiry (config g) = 0"
    and snap: "snapshot g k = Some ea"
    and fresh: "\<forall>i \<in> {0, 1, 2, 4}. fresh ea (li_clock inp i) d (gate_heap g)"
    and quiet: "li_env inp = (\<lambda>_ g. g)"
  shows "\<exists>g'. layer_call L Y inp request (mw, g) =
    (case d of
       DAllowed \<Rightarrow> (LEnforced (fst (pass_through Y (mw_inner mw) request k ea)),
                     mw\<lparr>mw_inner := snd (pass_through Y (mw_inner mw) request k ea)\<rparr>, g')
     | DDenied \<Rightarrow> (LDone (rr_denied (ly_response Y) (ba_make_body (ly_adapter Y))
                       (rejection_message (ly_context Y))), mw, g'))
    \<and> metrics g' = (case d of DAllowed \<Rightarrow> metrics g | DDenied \<Rightarrow> Denial # metrics g)"
proof -
  have fresh_check: "fresh ea ((\<lambda>i. li_clock inp (i + 2)) 0) d (gate_heap g)"
    "fresh ea ((\<lambda>i. li_clock inp (i + 2)) 2) d (gate_heap g)"
    using fresh by (auto simp: eval_nat_numeral)
  obtain g1 where g1: "check_without_refresh L (\<lambda>i. li_clock inp (i + 2)) k g = (Some ea, g1)"
    "cells (gate_heap g1) ea = cells (gate_heap g) ea" "metrics g1 = metrics g"
    using subject_cache.check_hit [OF cache inv snap fresh_check] by auto
  have "fresh ea (li_clock inp 0) d (gate_heap g1)" "fresh ea (li_clock inp 1) d (gate_heap g1)"
    using fresh fresh_cong [OF g1(2)] by simp_all
  from judge_fresh [OF this quiet] obtain g2 where "judge inp ea g1 = (Some (Some d), g2)"
    "metrics g2 = metrics g1" by blast
  with g1(1,3) k disabled show ?thesis
    by (cases d) (simp_all add: layer_call_def on_admission_def deny_def case_prod_beta Let_def log_def)
qed

text \<open>
  A request without a subject is rejected before the gate is consulted: the response is
  the missing-subject one, the inner service is neither called nor replaced, and the gate
  changes by the one reported metric only.
\<close>

lemma layer_missing_subject:
  assumes "rp_subject (ly_policy Y) request = None"
  shows "\<exists>mw'. layer_call L Y inp request (mw, g) =
      (LDone (rr_missing_subject (ly_response Y) (ba_make_body (ly_adapter Y))
         (ctx_missing_subject_message (ly_context Y))), mw', log MissingSubjectRejection g)
    \<and> mw_inner mw' = mw_inner mw"
  using assms by (simp add: layer_call_def case_prod_beta Let_def)

text \<open>
  The service instance that was polled ready is the one that serves the request. A
  boxed future owns the middleware's current service and leaves a clone behind, a request
  passed on at once is given to the current service, and a rejected request touches none.
\<close>

lemma inner_taken_not_cloned:
  "let (fut, mw', g') = layer_call L Y inp request (mw, g)
   in case fut of
        LCached inner rq k \<Rightarrow> inner = mw_inner mw \<and> mw_inner mw' = sv_clone (ly_service Y) (mw_inner mw)
      | LEnter inner rq k \<Rightarrow> inner = mw_inner mw \<and> mw_inner mw' = sv_clone (ly_service Y) (mw_inner mw)
      | LAdmitting inner rq t \<Rightarrow> False
      | LEnforced f \<Rightarrow> (\<exists>k ea. (f, mw_inner mw') = pass_through Y (mw_inner mw) request k ea)
      | LDone r \<Rightarrow> mw_inner mw' = mw_inner mw"
proof -
  have missed: "\<exists>g'. snapshot_missed Y request k inner g =
      (LEnter inner request k, sv_clone (ly_service Y) inner, g')" for k inner and g :: "('g, 'e, 'f) gate"
    by (simp add: snapshot_missed_def box_future_def)
  have on: "(\<exists>f inner' g'. on_admission Y inp (mw_inner mw) request k ea (snapshot_missed Y request k (mw_inner mw)) g =
        (LEnforced f, inner', g') \<and> (f, inner') = pass_through Y (mw_inner mw) request k ea)
      \<or> (\<exists>r g'. on_admission Y inp (mw_inner mw) request k ea (snapshot_missed Y request k (mw_inner mw)) g =
        (LDone r, mw_inner mw, g'))
      \<or> (\<exists>g'. on_admission Y inp (mw_inner mw) request k ea (snapshot_missed Y request k (mw_inner mw)) g =
        (LEnter (mw_inner mw) request k, sv_clone (ly_service Y) (mw_inner mw), g'))" for k ea g
    using missed [of k "mw_inner mw"]
    by (auto simp: on_admission_def deny_def case_prod_beta Let_def split: option.split decision.split)
  show ?thesis
  proof (cases "rp_subject (ly_policy Y) request")
    case None
    then show ?thesis by (simp add: layer_call_def case_prod_beta Let_def)
  next
    case (Some k)
    show ?thesis
    proof (cases "refresh_before_expiry (config g) = 0")
      case False
      with Some show ?thesis by (simp add: layer_call_def box_future_def Let_def)
    next
      case True
      obtain r g1 where r: "check_without_refresh L (\<lambda>i. li_clock inp (i + 2)) k g = (r, g1)" by fastforce
      show ?thesis
      proof (cases r)
        case None
        with missed [of k "mw_inner mw" g1] r Some True show ?thesis by (auto simp: layer_call_def Let_def)
      next
        case (Some ea)
        with on [of k ea g1] r \<open>rp_subject (ly_policy Y) request = Some k\<close> True show ?thesis
          by (auto simp: layer_call_def Let_def) blast
      qed
    qed
  qed
qed

text \<open>
  An enforced response loses its \<open>content-length\<close> and nothing else: the status and
  every other header are the inner service's, and its body is wrapped with the subject and
  the handle of the admission; a response that is not enforced keeps all its headers.
\<close>

lemma enforced_response_headers:
  assumes "sv_poll (ly_service Y) (ef_inner f) = (Some response, i)" and "ef_admission f = Some ea"
  shows "\<exists>r. fst (enforced_response_poll Y f) = Some (Some r)
    \<and> rs_status r = rs_status response
    \<and> (\<forall>name. rs_headers r name =
        (if ef_enforce_response_body f \<and> name = ''content-length'' then None else rs_headers response name))
    \<and> rs_body r = (if ef_enforce_response_body f
        then ba_adapt_response (ly_adapter Y) (enforced_body_new (rs_body response) (ef_subject f) ea ResponseSide)
        else ba_adapt_plain (ly_adapter Y) (rs_body response))"
  using assms by (simp add: enforced_response_poll_def Let_def)

section \<open>Rendering\<close>

text \<open>
  What tonic documents of \<open>add_header\<close>: it succeeds, and the status code's decimal number is
  in the header \<open>grpc-status\<close>.
\<close>

definition code_text :: "grpc_code \<Rightarrow> string" where
  "code_text code =
     (let n = grpc_code_number code
      in if n < 10 then [char_of (48 + n)] else [char_of (48 + n div 10), char_of (48 + n mod 10)])"

definition adds_status :: "add_header \<Rightarrow> bool" where
  "adds_status add_header \<longleftrightarrow>
     (\<forall>status hs. \<exists>hs'. add_header status hs = Some hs' \<and>
        hs' ''grpc-status'' = Some (code_text (st_code status)))"

text \<open>
  Every gRPC rejection is an HTTP 200 response of type \<open>application/grpc\<close> with an empty
  body whose status is in the headers: failed precondition for a denial and for a missing
  subject, unavailable when no verdict could be had. A cut-off response body ends with
  failed-precondition trailers, a cut-off request body fails with that status. None of the
  renderings panics.
\<close>

lemma grpc_rendering:
  assumes "adds_status add_header"
  shows "(\<exists>r. rr_denied (tonic_rejection add_header) mk msg = Some r \<and> rs_status r = 200
      \<and> rs_headers r ''content-type'' = Some ''application/grpc'' \<and> rs_body r = mk []
      \<and> rs_headers r ''grpc-status'' = Some ''9'')
    \<and> rr_missing_subject (tonic_rejection add_header) mk msg = rr_denied (tonic_rejection add_header) mk msg
    \<and> (\<exists>r. rr_unavailable (tonic_rejection add_header) mk AdmissionUnavailable msg = Some r \<and> rs_status r = 200
      \<and> rs_headers r ''content-type'' = Some ''application/grpc'' \<and> rs_body r = mk []
      \<and> rs_headers r ''grpc-status'' = Some ''14'')
    \<and> (\<exists>hs. rr_stream_denied (tonic_rejection add_header) ResponseSide msg = Some (RejectTrailers hs)
      \<and> hs ''grpc-status'' = Some ''9'')
    \<and> rr_stream_denied (tonic_rejection add_header) RequestSide msg =
        Some (RejectError (StatusError \<lparr> st_code = GFailedPrecondition, st_message = msg \<rparr>))"
proof -
  have code: "code_text GFailedPrecondition = ''9''" "code_text GUnavailable = ''14''"
    by code_simp+
  have add: "\<exists>hs'. add_header \<lparr> st_code = c, st_message = msg \<rparr> Map.empty = Some hs' \<and>
      hs' ''grpc-status'' = Some (code_text c)" for c
    using assms unfolding adds_status_def by (metis grpc_status.select_convs(1))
  show ?thesis
    using add [of GFailedPrecondition] add [of GUnavailable]
    by (auto simp: tonic_rejection_def status_response_def status_headers_def tonic_stream_denied_def code)
qed

section \<open>Rate of the missing-subject log\<close>

text \<open>
  The operations of all threads on the shared log time, in its modification order; the
  result lists the times at which one of them decided to log.
\<close>

fun log_times :: "(u64 \<times> u64) list \<Rightarrow> u64 \<Rightarrow> u64 list" where
  "log_times [] next = []"
| "log_times ((now, loaded) # rest) next =
     (let (logged, next) = should_log_missing_subject now loaded next
      in if logged then now # log_times rest next else log_times rest next)"

lemma u64_le_max: "unat (a :: u64) \<le> 18446744073709551615"
  using unat_lt_64 [of a] by linarith

lemma log_times_ge: "t \<in> set (log_times ops next) \<Longrightarrow> next \<le> t"
proof (induction ops arbitrary: "next")
  case Nil
  then show ?case by simp
next
  case (Cons op ops)
  obtain now loaded where op: "op = (now, loaded)" by (cases op)
  show ?case
  proof (cases "now \<ge> loaded \<and> next = loaded")
    case True
    have "next \<le> t" if "u64_saturating_add now MISSING_SUBJECT_LOG_INTERVAL_SECS \<le> t"
      using that True u64_le_max [of loaded]
      by (auto simp: word_le_nat_alt unat_saturating_add min_def split: if_splits)
    with True Cons op show ?thesis by (auto simp: should_log_missing_subject_def)
  next
    case False
    with Cons op show ?thesis by (auto simp: should_log_missing_subject_def)
  qed
qed

text \<open>
  The missing-subject warning is rate limited across threads. Whatever the threads
  loaded before, any two decisions to log are at least sixty seconds apart, unless the
  clock has run to the end of its range.
\<close>

lemma missing_subject_log_rate:
  "sorted_wrt (\<lambda>s t. unat s + 60 \<le> unat t \<or> t = U64_MAX) (log_times ops next)"
proof (induction ops arbitrary: "next")
  case Nil
  then show ?case by simp
next
  case (Cons op ops)
  obtain now loaded where op: "op = (now, loaded)" by (cases op)
  have gap: "unat now + 60 \<le> unat t \<or> t = U64_MAX"
    if "t \<in> set (log_times ops (u64_saturating_add now MISSING_SUBJECT_LOG_INTERVAL_SECS))" for t
  proof -
    have "min (unat now + 60) (2 ^ 64 - 1) \<le> unat t"
      using log_times_ge [OF that]
      by (simp add: word_le_nat_alt unat_saturating_add MISSING_SUBJECT_LOG_INTERVAL_SECS_def)
    moreover have "t = U64_MAX" if "2 ^ 64 - 1 \<le> unat t"
      using that u64_le_max [of t] unat_U64_MAX by (simp add: word_unat_eq_iff)
    ultimately show ?thesis by (auto simp: min_def split: if_splits)
  qed
  with Cons op show ?case by (auto simp: should_log_missing_subject_def)
qed

end
