(* ===== verification/Transport_Scenario.thy ===== *)
theory Transport_Scenario
  imports Scenario Layer
begin

text \<open>
  A second concrete run, for the transport wrappers: a gate with refreshes disabled and a
  short admission timeout. Subject 7 is admitted and allowed, the watch is lost, comes
  back, and subject 7 is admitted again under a new entry, which is published. The handle
  of the first admission is stale, the snapshot holds a fresh verdict.
\<close>

definition tr_cfg :: policy_gate_config where
  "tr_cfg = candidate
     (set_decision_freshness_ttl 100 (set_refresh_before_expiry 0 (set_max_subjects 2
       (set_subject_ttl 1000 (set_snapshot_republish_interval 5
         (set_unary_timeout 2 (set_admission_timeout 3 builder)))))))"

definition tr_gate0 :: "((nat, subject_slot) lru_list, nat, string) gate" where
  "tr_gate0 = the (gate_new lru_list tr_cfg 0)"

definition tr_open :: "((nat, subject_slot) lru_list, nat, string) gate" where
  "tr_open = watch_connected lru_list tr_gate0"

definition tr_task :: "nat \<Rightarrow> instant \<Rightarrow> (nat, string) admit_task" where
  "tr_task k now = the (fst (admit_start k now tr_gate0))"

text \<open>The lookup of subject 7 for the entry at \<open>a\<close>, by the addresses the run gives it.\<close>

definition tr_lookup :: "nat \<Rightarrow> (nat, string) pending_fetch arc" where
  "tr_lookup a = Arc (a + 2) \<lparr> generation = a + 1, fetch_entry = a, fetch_subject = 7, fetch_delay = None,
     fetch_refresh_from = None \<rparr>"

definition tr_fetched ::
  "instant \<Rightarrow> nat \<Rightarrow> ((nat, subject_slot) lru_list, nat, string) gate
    \<Rightarrow> ((nat, subject_slot) lru_list, nat, string) gate" where
  "tr_fetched now a g = snd (the (run_fetch lru_list (\<lambda>_. now) (tr_lookup a)
     (LookupReturned (Inr (Some \<lparr> decision = DAllowed, payload = Some ''p'', valid_until = None \<rparr>))) g))"

definition tr_admitted :: "((nat, subject_slot) lru_list, nat, string) gate" where
  "tr_admitted = snd (the (admit_poll lru_list (ex_input 2) (goto AInsert (tr_task 7 1), tr_open)))"

definition tr_allowed :: "((nat, subject_slot) lru_list, nat, string) gate" where
  "tr_allowed = tr_fetched 3 0 tr_admitted"

definition tr_lost :: "((nat, subject_slot) lru_list, nat, string) gate" where
  "tr_lost = watch_disconnected lru_list 10 tr_allowed"

definition tr_back :: "((nat, subject_slot) lru_list, nat, string) gate" where
  "tr_back = watch_connected lru_list tr_lost"

definition tr_readmitted :: "((nat, subject_slot) lru_list, nat, string) gate" where
  "tr_readmitted = snd (the (admit_poll lru_list (ex_input 21) (goto AInsert (tr_task 7 20), tr_back)))"

definition tr_addr :: nat where
  "tr_addr = 6"

definition tr_ready :: "((nat, subject_slot) lru_list, nat, string) gate" where
  "tr_ready = tr_fetched 22 tr_addr tr_readmitted"

section \<open>The invariant along the run\<close>

abbreviation list_inv :: "((nat, subject_slot) lru_list, nat, string) gate \<Rightarrow> bool" where
  "list_inv \<equiv> gate_inv lru_list_valid lru_list"

lemma poll_inv:
  assumes "list_inv g" and "case admit_poll lru_list inp (t, g) of None \<Rightarrow> False | Some y \<Rightarrow> True"
  shows "list_inv (snd (the (admit_poll lru_list inp (t, g))))"
  using list_cache.gate_step_keeps [OF gate_step.admit assms(1)] some_the [OF assms(2)]
  by (metis surjective_pairing)

lemma lookup_issued:
  assumes "list_inv g" "Option.bind (cells (gate_heap g) a) pending = Some f"
  shows "fetch_issued (gate_heap g) f"
proof -
  from assms(1) have ok: "heap_ok (gate_heap g)" by (rule gate_invD(2))
  from assms(2) obtain e where e: "cells (gate_heap g) a = Some e" "pending e = Some f"
    by (cases "cells (gate_heap g) a") auto
  with heap_ok_entry_lt [OF ok e] ok show ?thesis
    unfolding fetch_issued_def heap_ok_def by (metis option.inject)
qed

lemma fetched_inv:
  assumes inv: "list_inv g"
    and p: "Option.bind (cells (gate_heap g) a) pending = Some (tr_lookup a)"
    and r: "case run_fetch lru_list (\<lambda>_. now) (tr_lookup a)
       (LookupReturned (Inr (Some \<lparr> decision = DAllowed, payload = Some ''p'', valid_until = None \<rparr>))) g of
       None \<Rightarrow> False | Some y \<Rightarrow> True"
  shows "list_inv (tr_fetched now a g)"
  using list_cache.gate_step_keeps [OF fetch_gate_step [OF lookup_issued [OF inv p] r] inv]
  by (simp add: tr_fetched_def)

lemma tr_gate0_new: "gate_new lru_list tr_cfg 0 = Some tr_gate0"
  unfolding tr_gate0_def by (rule some_the) code_simp

lemma tr_open_inv: "list_inv tr_open"
  using list_cache.watch_connected_keeps [OF list_cache.gate_new_inv [OF tr_gate0_new]]
  by (simp add: tr_open_def)

lemma tr_allowed_inv: "list_inv tr_allowed"
proof -
  have "list_inv tr_admitted"
    unfolding tr_admitted_def by (rule poll_inv [OF tr_open_inv]) code_simp
  then show ?thesis
    unfolding tr_allowed_def by (rule fetched_inv) code_simp+
qed

lemma tr_lost_inv: "list_inv tr_lost"
  using list_cache.watch_disconnected_keeps [OF tr_allowed_inv] by (simp add: tr_lost_def)

lemma tr_ready_inv: "list_inv tr_ready"
proof -
  have "list_inv tr_back"
    using list_cache.watch_connected_keeps [OF tr_lost_inv] by (simp add: tr_back_def)
  then have "list_inv tr_readmitted"
    unfolding tr_readmitted_def by (rule poll_inv) code_simp
  then show ?thesis
    unfolding tr_ready_def by (rule fetched_inv) code_simp+
qed

section \<open>A body and a service\<close>

text \<open>A body that is a list of results, pending for ever at its end.\<close>

definition tr_body :: "((nat, string, nat) frame_poll list, nat, string, nat) body_ops" where
  "tr_body = \<lparr> body_poll = (\<lambda>ps. case ps of [] \<Rightarrow> (FPending, []) | p # ps \<Rightarrow> (p, ps)),
               body_end = (\<lambda>_. False) \<rparr>"

definition tr_rejection :: "(string, nat) stream_denied" where
  "tr_rejection side msg = Some (RejectTrailers msg)"

definition tr_context :: gate_context where
  "tr_context = \<lparr> rejection_message = ''denied'', ctx_missing_subject_message = ''who'' \<rparr>"

definition tr_stream :: "((nat, string, nat) frame_poll list, nat, string) enforced_body" where
  "tr_stream = enforced_body_new [FFrame (DataFrame 1), FFrame (DataFrame 2)] 7 0 ResponseSide"

definition tr_turn :: "instant \<Rightarrow> ((nat, subject_slot) lru_list, nat, string) turn_input" where
  "tr_turn now = \<lparr> ti_env = (\<lambda>_ g. g), ti_clock = (\<lambda>_. now), ti_polls = [], ti_retry_polls = [] \<rparr>"

end
