(* ===== verification/Stream_Properties.thy ===== *)
theory Stream_Properties
  imports Transport_Scenario
begin

text \<open>
  The stream wrapper's properties (theory \<open>Stream_Body\<close>) applied to the concrete run of
  theory \<open>Transport_Scenario\<close>.
\<close>

lemma pair_fst: "fst x = a \<Longrightarrow> x = (a, snd x)"
  by (cases x) simp

text \<open>Two polls while the subject is allowed deliver the body's two frames.\<close>

definition tr_run where
  "tr_run = the (run_body lru_list tr_body tr_rejection tr_context [[tr_turn 5], [tr_turn 6]]
     (tr_stream, tr_allowed))"

theorem body_delivers_prefix_witness:
  "\<exists>n m cut. n \<le> length [[tr_turn 5], [tr_turn 6]]
    \<and> fst tr_run = fst (inner_run tr_body n (eb_inner tr_stream)) @ cut @ replicate m FEnd
    \<and> eb_inner (fst (snd tr_run)) = snd (inner_run tr_body n (eb_inner tr_stream))
    \<and> (cut = [] \<or> (\<exists>r. tr_rejection (eb_side tr_stream) (rejection_message tr_context) = Some r
        \<and> cut = [rejection_poll r]))"
proof (rule body_delivers_prefix)
  show "run_body lru_list tr_body tr_rejection tr_context [[tr_turn 5], [tr_turn 6]] (tr_stream, tr_allowed) =
      Some (fst tr_run, fst (snd tr_run), snd (snd tr_run))"
    unfolding tr_run_def prod.collapse by (rule some_the) code_simp
qed

text \<open>A poll during which the watch is lost.\<close>

definition tr_losing :: "((nat, subject_slot) lru_list, nat, string) turn_input" where
  "tr_losing = (tr_turn 10)\<lparr>ti_env := \<lambda>_. watch_disconnected lru_list 10\<rparr>"


definition tr_entry :: "(nat, string) entry" where
  "tr_entry = \<lparr> current = Arc 4 \<lparr> snap_word = 405, snap_payload = Some ''p'', snap_refresh_after = 0 \<rparr>,
     epoch = 2, pending = None, refresh_before = 0, refresh_not_before = 0 \<rparr>"

lemma tr_allowed_cell: "cells (gate_heap tr_allowed) 0 = Some tr_entry"
  by code_simp

lemma tr_entry_expires: "is_expired_at tr_entry (current_word tr_entry) 200"
  by code_simp

lemma tr_stream_live: "\<not> eb_ended tr_stream" "\<not> body_end tr_body (eb_inner tr_stream)"
  by (simp_all add: tr_stream_def tr_body_def enforced_body_new_def)

theorem stream_enforces_witness:
  "\<exists>b' g'. poll_frame lru_list tr_body tr_rejection tr_context [tr_turn 200] (tr_stream, tr_allowed) =
      (TReturn (FFrame (TrailersFrame ''denied'')), b', g')
    \<and> eb_inner b' = eb_inner tr_stream \<and> eb_ended b' \<and> metrics g' = StreamCutoff # metrics tr_allowed"
  using stream_enforces [OF tr_stream_live, of "tr_turn 200" tr_allowed tr_entry lru_list tr_rejection tr_context "[]"]
    tr_allowed_cell tr_entry_expires
  by (simp add: tr_turn_def tr_stream_def enforced_body_new_def tr_rejection_def tr_context_def)

section \<open>Recovery\<close>

text \<open>The two entries of subject 7 once the watch is back.\<close>

definition tr_old :: "(nat, string) entry" where
  "tr_old = \<lparr> current = Arc 5 \<lparr> snap_word = 407, snap_payload = None, snap_refresh_after = 0 \<rparr>,
     epoch = 2, pending = None, refresh_before = 0, refresh_not_before = 0 \<rparr>"

definition tr_new :: "(nat, string) entry" where
  "tr_new = \<lparr> current = Arc 10 \<lparr> snap_word = 405, snap_payload = Some ''p'', snap_refresh_after = 0 \<rparr>,
     epoch = 21, pending = None, refresh_before = 0, refresh_not_before = 0 \<rparr>"

definition tr_view where
  "tr_view g = (cells (gate_heap g) 0, cells (gate_heap g) tr_addr, snapshot g 7, refresh_before_expiry (config g))"

lemma tr_ready_view: "tr_view tr_ready = (Some tr_old, Some tr_new, Some tr_addr, 0)"
  by code_simp

lemmas tr_ready_facts = tr_ready_view [unfolded tr_view_def prod.inject]

lemma tr_new_fresh: "fresh tr_addr 30 DAllowed (gate_heap tr_ready)"
proof -
  have "\<not> is_expired_at tr_new (current_word tr_new) 30" "current_state tr_new = entry_state_of DAllowed"
    by code_simp+
  then show ?thesis by (simp add: fresh_def tr_ready_facts)
qed

lemma tr_old_stale: "current_state tr_old = EStale" "\<not> is_expired_at tr_old (current_word tr_old) 30"
  by code_simp+


section \<open>A retry that completes at once\<close>

text \<open>
  The watch is lost and the readmission times out. Before the delayed replacement is polled
  for the first time its delay and its own admission have run out as well.
\<close>

definition tr_late :: "((nat, subject_slot) lru_list, nat, string) turn_input" where
  "tr_late = \<lparr> ti_env = (\<lambda>_ g. g), ti_clock = (\<lambda>i. if i < 12 then 11 else if i = 12 then 14 else 17),
     ti_polls = [ex_input 14], ti_retry_polls = [ex_input 20] \<rparr>"

definition tr_idle :: "((nat, string, nat) frame_poll list, nat, string) enforced_body" where
  "tr_idle = enforced_body_new [] 7 0 ResponseSide"

definition tr_polled where
  "tr_polled = poll_frame lru_list tr_body tr_rejection tr_context [tr_late] (tr_idle, tr_lost)"

text \<open>What the next poll reads.\<close>

definition tr_observed where
  "tr_observed s = handle_observe (ti_clock (tr_turn 21) 0) (eb_admission (fst s)) (ti_env (tr_turn 21) 0 (snd s))"

definition tr_checked where
  "tr_checked s = check_without_refresh lru_list (\<lambda>i. ti_clock (tr_turn 21) (i + 1)) (eb_subject (fst s))
     (ti_env (tr_turn 21) 1 (snd (tr_observed s)))"

definition tr_outcome where
  "tr_outcome r = (fst r, eb_woken (fst (snd r)), fst (tr_observed (snd r)), fst (tr_checked (snd r)))"

lemma tr_polled_outcome: "tr_outcome tr_polled = (TReturn FPending, True, Some OStale, None)"
  by code_simp

lemmas tr_polled_facts = tr_polled_outcome [unfolded tr_outcome_def prod.inject]

theorem immediate_retry_panics_witness:
  "eb_readmission (fst (snd tr_polled)) = Some RFinished
    \<and> fst (poll_frame lru_list tr_body tr_rejection tr_context [tr_turn 21] (fst (snd tr_polled), snd (snd tr_polled))) = TPanic"
proof (rule immediate_retry_panics)
  show "poll_frame lru_list tr_body tr_rejection tr_context [tr_late] (tr_idle, tr_lost) =
      (TReturn FPending, fst (snd tr_polled), snd (snd tr_polled))"
    unfolding tr_polled_def [symmetric] prod.collapse using tr_polled_facts by (intro pair_fst) simp
  show "\<not> eb_woken tr_idle" by code_simp
  show "eb_woken (fst (snd tr_polled))" using tr_polled_facts by simp
  show "\<not> body_end tr_body (eb_inner (fst (snd tr_polled)))" by (simp add: tr_body_def)
  show "handle_observe (ti_clock (tr_turn 21) 0) (eb_admission (fst (snd tr_polled)))
      (ti_env (tr_turn 21) 0 (snd (snd tr_polled))) = (Some OStale, snd (tr_observed (snd tr_polled)))"
    unfolding tr_observed_def [symmetric] using tr_polled_facts by (intro pair_fst) simp
  show "check_without_refresh lru_list (\<lambda>i. ti_clock (tr_turn 21) (i + 1)) (eb_subject (fst (snd tr_polled)))
      (ti_env (tr_turn 21) 1 (snd (tr_observed (snd tr_polled)))) = (None, snd (tr_checked (snd tr_polled)))"
    unfolding tr_checked_def [symmetric] using tr_polled_facts by (intro pair_fst) simp
qed

end
