(* ===== verification/Proto.thy ===== *)
theory Proto
  imports Prelude Grpc_Status
begin

text \<open>
  The policy-authority protocol (\<open>src/src/policy_proto.rs\<close>): the messages, the decision
  enumeration with its names, and the service's client and server, which are checked in as
  prost and tonic generated them. What those two libraries do with a message on the wire
  is a parameter: a channel for the client, a codec and HTTP layer for the server.
\<close>

section \<open>Messages\<close>

type_synonym i32 = "32 word"

record get_subject_decision_request =
  req_subject_id :: string
  req_scope :: string

record get_subject_decision_response =
  resp_decision :: i32
  resp_scope :: string
  resp_payload :: string

record watch_subject_decisions_request =
  watch_scope :: string

record subject_decision_change =
  chg_subject_id :: string
  chg_decision :: i32
  chg_scope :: string

section \<open>The decision enumeration\<close>

datatype proto_decision = PUnspecified | PAllowed | PDenied

text \<open>The discriminants of \<open>#[repr(i32)] enum Decision\<close>.\<close>

fun proto_code :: "proto_decision \<Rightarrow> i32" where
  "proto_code PUnspecified = 0"
| "proto_code PAllowed = 1"
| "proto_code PDenied = 2"

fun as_str_name :: "proto_decision \<Rightarrow> string" where
  "as_str_name PUnspecified = ''DECISION_UNSPECIFIED''"
| "as_str_name PAllowed = ''DECISION_ALLOWED''"
| "as_str_name PDenied = ''DECISION_DENIED''"

definition from_str_name :: "string \<Rightarrow> proto_decision option" where
  "from_str_name value =
     (if value = ''DECISION_UNSPECIFIED'' then Some PUnspecified
      else if value = ''DECISION_ALLOWED'' then Some PAllowed
      else if value = ''DECISION_DENIED'' then Some PDenied
      else None)"

text \<open>
  The conversion from \<open>i32\<close> that prost derives is a parameter. It is documented to accept
  exactly the listed discriminants.
\<close>

locale enumeration =
  fixes try_from :: "i32 \<Rightarrow> proto_decision option"
  assumes try_from: "try_from n = Some d \<longleftrightarrow> n = proto_code d"
begin

lemma try_from_code [simp]: "try_from (proto_code d) = Some d"
  by (simp add: try_from)

lemma try_from_None: "try_from n = None \<longleftrightarrow> (\<forall>d. n \<noteq> proto_code d)"
  using try_from by (metis not_None_eq)

end

definition listed_try_from :: "i32 \<Rightarrow> proto_decision option" where
  "listed_try_from n =
     (if n = 0 then Some PUnspecified else if n = 1 then Some PAllowed
      else if n = 2 then Some PDenied else None)"

interpretation listed: enumeration listed_try_from
proof
  fix n d
  show "listed_try_from n = Some d \<longleftrightarrow> n = proto_code d"
    by (cases d) (auto simp: listed_try_from_def)
qed

text \<open>
  The names of the decisions round-trip: a string is read as a decision exactly when it
  is that decision's name.
\<close>

lemma decision_names_roundtrip:
  "from_str_name s = Some d \<longleftrightarrow> s = as_str_name d"
  by (cases d) (auto simp: from_str_name_def)

section \<open>The client\<close>

definition GET_SUBJECT_DECISION_PATH :: string where
  "GET_SUBJECT_DECISION_PATH = ''/aspect.policy.gate.v1.PolicyAuthority/GetSubjectDecision''"

definition WATCH_SUBJECT_DECISIONS_PATH :: string where
  "WATCH_SUBJECT_DECISIONS_PATH = ''/aspect.policy.gate.v1.PolicyAuthority/WatchSubjectDecisions''"

text \<open>
  \<open>tonic::client::Grpc\<close>: \<open>ready\<close> (the error's text when it fails), and the two kinds of
  call the service has.
\<close>

record 'st grpc_client =
  gc_ready :: "string option"
  gc_unary :: "string \<Rightarrow> get_subject_decision_request \<Rightarrow> grpc_status + get_subject_decision_response"
  gc_server_streaming :: "string \<Rightarrow> watch_subject_decisions_request \<Rightarrow> grpc_status + 'st"

definition not_ready :: "string \<Rightarrow> grpc_status" where
  "not_ready e = \<lparr> st_code = GUnknown, st_message = ''Service was not ready: '' @ e \<rparr>"

definition client_get_subject_decision ::
  "'st grpc_client \<Rightarrow> get_subject_decision_request \<Rightarrow> grpc_status + get_subject_decision_response" where
  "client_get_subject_decision inner request =
     (case gc_ready inner of
        Some e \<Rightarrow> Inl (not_ready e)
      | None \<Rightarrow> gc_unary inner GET_SUBJECT_DECISION_PATH request)"

definition client_watch_subject_decisions ::
  "'st grpc_client \<Rightarrow> watch_subject_decisions_request \<Rightarrow> grpc_status + 'st" where
  "client_watch_subject_decisions inner request =
     (case gc_ready inner of
        Some e \<Rightarrow> Inl (not_ready e)
      | None \<Rightarrow> gc_server_streaming inner WATCH_SUBJECT_DECISIONS_PATH request)"

section \<open>The server\<close>

text \<open>The \<open>PolicyAuthority\<close> trait.\<close>

record 'st policy_authority =
  pa_get_subject_decision ::
    "get_subject_decision_request \<Rightarrow> grpc_status + get_subject_decision_response"
  pa_watch_subject_decisions :: "watch_subject_decisions_request \<Rightarrow> grpc_status + 'st"

text \<open>
  The server: the authority it serves and what tonic is told about compression and message
  sizes. The encodings are tonic's.
\<close>

record ('e, 'st) policy_authority_server =
  ps_inner :: "'st policy_authority"
  ps_accept_compression_encodings :: "'e set"
  ps_send_compression_encodings :: "'e set"
  ps_max_decoding_message_size :: "u64 option"
  ps_max_encoding_message_size :: "u64 option"

definition server_from_arc :: "'st policy_authority \<Rightarrow> ('e, 'st) policy_authority_server" where
  "server_from_arc inner =
     \<lparr> ps_inner = inner, ps_accept_compression_encodings = {}, ps_send_compression_encodings = {},
       ps_max_decoding_message_size = None, ps_max_encoding_message_size = None \<rparr>"

definition accept_compressed ::
  "'e \<Rightarrow> ('e, 'st) policy_authority_server \<Rightarrow> ('e, 'st) policy_authority_server" where
  "accept_compressed encoding s =
     s\<lparr>ps_accept_compression_encodings := insert encoding (ps_accept_compression_encodings s)\<rparr>"

definition send_compressed ::
  "'e \<Rightarrow> ('e, 'st) policy_authority_server \<Rightarrow> ('e, 'st) policy_authority_server" where
  "send_compressed encoding s =
     s\<lparr>ps_send_compression_encodings := insert encoding (ps_send_compression_encodings s)\<rparr>"

definition max_decoding_message_size ::
  "u64 \<Rightarrow> ('e, 'st) policy_authority_server \<Rightarrow> ('e, 'st) policy_authority_server" where
  "max_decoding_message_size limit s = s\<lparr>ps_max_decoding_message_size := Some limit\<rparr>"

definition max_encoding_message_size ::
  "u64 \<Rightarrow> ('e, 'st) policy_authority_server \<Rightarrow> ('e, 'st) policy_authority_server" where
  "max_encoding_message_size limit s = s\<lparr>ps_max_encoding_message_size := Some limit\<rparr>"

text \<open>The configuration handed to \<open>tonic::server::Grpc\<close> for a call.\<close>

record 'e grpc_config =
  compression_config :: "'e set \<times> 'e set"
  max_message_size_config :: "u64 option \<times> u64 option"

definition grpc_config_of :: "('e, 'st) policy_authority_server \<Rightarrow> 'e grpc_config" where
  "grpc_config_of s =
     \<lparr> compression_config = (ps_accept_compression_encodings s, ps_send_compression_encodings s),
       max_message_size_config = (ps_max_decoding_message_size s, ps_max_encoding_message_size s) \<rparr>"

text \<open>
  \<open>tonic::server::Grpc\<close> with the request's path and the construction of a response from
  headers.
\<close>

record ('e, 'h, 'r, 'st) grpc_server =
  gs_path :: "'h \<Rightarrow> string"
  gs_unary :: "'e grpc_config \<Rightarrow>
    (get_subject_decision_request \<Rightarrow> grpc_status + get_subject_decision_response) \<Rightarrow> 'h \<Rightarrow> 'r"
  gs_server_streaming :: "'e grpc_config \<Rightarrow>
    (watch_subject_decisions_request \<Rightarrow> grpc_status + 'st) \<Rightarrow> 'h \<Rightarrow> 'r"
  gs_response :: "(string \<times> string) list \<Rightarrow> 'r"

definition server_call ::
  "('e, 'h, 'r, 'st) grpc_server \<Rightarrow> ('e, 'st) policy_authority_server \<Rightarrow> 'h \<Rightarrow> 'r" where
  "server_call gs s req =
     (if gs_path gs req = ''/aspect.policy.gate.v1.PolicyAuthority/GetSubjectDecision''
      then gs_unary gs (grpc_config_of s) (pa_get_subject_decision (ps_inner s)) req
      else if gs_path gs req = ''/aspect.policy.gate.v1.PolicyAuthority/WatchSubjectDecisions''
      then gs_server_streaming gs (grpc_config_of s) (pa_watch_subject_decisions (ps_inner s)) req
      else gs_response gs [(''grpc-status'', ''12''), (''content-type'', ''application/grpc'')])"

text \<open>
  A client connected to a server: the documented behaviour of the transport. The HTTP
  request carries the client's path, and the reply to a handled call is the handler's.
\<close>

definition connected_to ::
  "'st grpc_client \<Rightarrow> ('e, 'h, 'r, 'st) grpc_server \<Rightarrow> ('e, 'st) policy_authority_server \<Rightarrow> bool" where
  "connected_to client gs server \<longleftrightarrow>
     gc_ready client = None \<and>
     (\<forall>path request. \<exists>h reply. gs_path gs h = path \<and>
        gc_unary client path request = reply (server_call gs server h) \<and>
        (\<forall>f. reply (gs_unary gs (grpc_config_of server) f h) = f request)) \<and>
     (\<forall>path request. \<exists>h reply. gs_path gs h = path \<and>
        gc_server_streaming client path request = reply (server_call gs server h) \<and>
        (\<forall>f. reply (gs_server_streaming gs (grpc_config_of server) f h) = f request))"

lemma client_get_reaches:
  assumes "connected_to client gs server"
  shows "client_get_subject_decision client request = pa_get_subject_decision (ps_inner server) request"
proof -
  from assms obtain h reply where "gs_path gs h = GET_SUBJECT_DECISION_PATH"
    "gc_unary client GET_SUBJECT_DECISION_PATH request = reply (server_call gs server h)"
    "reply (gs_unary gs (grpc_config_of server) (pa_get_subject_decision (ps_inner server)) h) =
      pa_get_subject_decision (ps_inner server) request"
    unfolding connected_to_def by metis
  with assms show ?thesis
    by (simp add: client_get_subject_decision_def connected_to_def server_call_def
        GET_SUBJECT_DECISION_PATH_def)
qed

lemma client_watch_reaches:
  assumes "connected_to client gs server"
  shows "client_watch_subject_decisions client request =
    pa_watch_subject_decisions (ps_inner server) request"
proof -
  from assms obtain h reply where "gs_path gs h = WATCH_SUBJECT_DECISIONS_PATH"
    "gc_server_streaming client WATCH_SUBJECT_DECISIONS_PATH request = reply (server_call gs server h)"
    "reply (gs_server_streaming gs (grpc_config_of server) (pa_watch_subject_decisions (ps_inner server)) h) =
      pa_watch_subject_decisions (ps_inner server) request"
    unfolding connected_to_def by metis
  with assms show ?thesis
    by (simp add: client_watch_subject_decisions_def connected_to_def server_call_def
        WATCH_SUBJECT_DECISIONS_PATH_def)
qed

end
