(* ===== verification/Tonic_Source.thy ===== *)
theory Tonic_Source
  imports System Proto
begin

text \<open>
  The tonic adapter of the decision source (\<open>src/src/tonic_source.rs\<close>): its configuration,
  the lookups and the watch it sends to the authority, and the decoding and classification
  of what comes back. The subject's \<open>Display\<close> and \<open>FromStr\<close>, the text of a status, the
  endpoint parser and the channel are parameters.
\<close>

section \<open>Configuration\<close>

record tonic_decision_source_config =
  tc_endpoint :: string
  tc_scope :: string
  tc_connect_timeout :: duration

definition tonic_config_new :: "string \<Rightarrow> string \<Rightarrow> tonic_decision_source_config" where
  "tonic_config_new endpoint scope =
     \<lparr> tc_endpoint = endpoint, tc_scope = scope, tc_connect_timeout = from_secs 2 \<rparr>"

definition with_connect_timeout ::
  "duration \<Rightarrow> tonic_decision_source_config \<Rightarrow> tonic_decision_source_config" where
  "with_connect_timeout d c = c\<lparr>tc_connect_timeout := d\<rparr>"

datatype tonic_config_error = InvalidEndpoint string

fun tonic_config_error_message :: "tonic_config_error \<Rightarrow> string" where
  "tonic_config_error_message (InvalidEndpoint e) = ''invalid policy authority endpoint: '' @ e"

text \<open>The settings of tonic's \<open>Endpoint\<close> that the source makes.\<close>

record 'u endpoint =
  ep_uri :: 'u
  ep_http2_keep_alive_interval :: "duration option"
  ep_keep_alive_timeout :: "duration option"
  ep_keep_alive_while_idle :: "bool option"
  ep_tcp_keepalive :: "duration option"
  ep_connect_timeout :: "duration option"

record 'ch tonic_source =
  ts_client :: 'ch
  ts_scope :: string

definition from_channel :: "'ch \<Rightarrow> string \<Rightarrow> 'ch tonic_source" where
  "from_channel channel scope = \<lparr> ts_client = channel, ts_scope = scope \<rparr>"

definition connect_lazy ::
  "(string \<Rightarrow> string + 'u) \<Rightarrow> ('u endpoint \<Rightarrow> 'ch) \<Rightarrow> tonic_decision_source_config
    \<Rightarrow> tonic_config_error + 'ch tonic_source" where
  "connect_lazy parse_uri lazy_channel c =
     (case parse_uri (tc_endpoint c) of
        Inl e \<Rightarrow> Inl (InvalidEndpoint e)
      | Inr uri \<Rightarrow>
          Inr (from_channel
            (lazy_channel \<lparr> ep_uri = uri,
               ep_http2_keep_alive_interval = Some (from_secs 10),
               ep_keep_alive_timeout = Some (from_secs 5),
               ep_keep_alive_while_idle = Some True,
               ep_tcp_keepalive = Some (from_secs 30),
               ep_connect_timeout = Some (tc_connect_timeout c) \<rparr>)
            (tc_scope c)))"

section \<open>Decoding\<close>

definition wire :: "string \<Rightarrow> source_error" where
  "wire msg = \<lparr> kind = Wire, message = msg \<rparr>"

definition validate_scope_echo :: "string \<Rightarrow> string \<Rightarrow> source_error + unit" where
  "validate_scope_echo expected actual =
     (if actual = expected then Inr () else Inl (wire ''decision source returned a mismatched scope''))"

definition decode_decision ::
  "(i32 \<Rightarrow> proto_decision option) \<Rightarrow> i32 \<Rightarrow> source_error + decision option" where
  "decode_decision try_from state =
     (case try_from state of
        Some PUnspecified \<Rightarrow> Inr None
      | Some PAllowed \<Rightarrow> Inr (Some DAllowed)
      | Some PDenied \<Rightarrow> Inr (Some DDenied)
      | None \<Rightarrow> Inl (wire ''decision source returned an unknown decision''))"

definition decode_response ::
  "(i32 \<Rightarrow> proto_decision option) \<Rightarrow> get_subject_decision_response \<Rightarrow> string
    \<Rightarrow> source_error + decision option" where
  "decode_response try_from response scope =
     (case validate_scope_echo scope (resp_scope response) of
        Inl e \<Rightarrow> Inl e
      | Inr _ \<Rightarrow> decode_decision try_from (resp_decision response))"

definition decode_change ::
  "(i32 \<Rightarrow> proto_decision option) \<Rightarrow> (string \<Rightarrow> 'k option) \<Rightarrow> subject_decision_change \<Rightarrow> string
    \<Rightarrow> source_error + 'k Entry.decision_change" where
  "decode_change try_from from_str change scope =
     (case validate_scope_echo scope (chg_scope change) of
        Inl e \<Rightarrow> Inl e
      | Inr _ \<Rightarrow>
        (case from_str (chg_subject_id change) of
           None \<Rightarrow> Inl (wire ''decision source returned an invalid subject identifier'')
         | Some k \<Rightarrow>
           (case decode_decision try_from (chg_decision change) of
              Inl e \<Rightarrow> Inl e
            | Inr d \<Rightarrow> Inr \<lparr> change_subject = k, change_decision = d \<rparr>)))"

definition source_error_of :: "(grpc_status \<Rightarrow> string) \<Rightarrow> grpc_status \<Rightarrow> source_error" where
  "source_error_of status_text status =
     \<lparr> kind =
         (case st_code status of
            GNotFound \<Rightarrow> Permanent
          | GInvalidArgument \<Rightarrow> Permanent
          | GPermissionDenied \<Rightarrow> Permanent
          | GUnauthenticated \<Rightarrow> Permanent
          | GUnimplemented \<Rightarrow> Permanent
          | GDataLoss \<Rightarrow> Permanent
          | _ \<Rightarrow> Transient),
       message = status_text status \<rparr>"

section \<open>Lookups and the watch\<close>

text \<open>What the adapter uses of the subject type, prost and tonic.\<close>

record 'k codec =
  cd_display :: "'k \<Rightarrow> string"
  cd_from_str :: "string \<Rightarrow> 'k option"
  cd_try_from :: "i32 \<Rightarrow> proto_decision option"
  cd_status_text :: "grpc_status \<Rightarrow> string"

definition get_subject_decision ::
  "'k codec \<Rightarrow> 'st grpc_client tonic_source \<Rightarrow> 'k \<Rightarrow> source_error + decision option" where
  "get_subject_decision cd src k =
     (case client_get_subject_decision (ts_client src)
             \<lparr> req_subject_id = cd_display cd k, req_scope = ts_scope src \<rparr> of
        Inl status \<Rightarrow> Inl (source_error_of (cd_status_text cd) status)
      | Inr response \<Rightarrow> decode_response (cd_try_from cd) response (ts_scope src))"

definition get_subject_decision_with_payload ::
  "'k codec \<Rightarrow> 'st grpc_client tonic_source \<Rightarrow> 'k
    \<Rightarrow> source_error + string decision_result option" where
  "get_subject_decision_with_payload cd src k =
     (case client_get_subject_decision (ts_client src)
             \<lparr> req_subject_id = cd_display cd k, req_scope = ts_scope src \<rparr> of
        Inl status \<Rightarrow> Inl (source_error_of (cd_status_text cd) status)
      | Inr response \<Rightarrow>
          (case decode_response (cd_try_from cd) response (ts_scope src) of
             Inl e \<Rightarrow> Inl e
           | Inr d \<Rightarrow>
               Inr (map_option (\<lambda>d.
                 \<lparr> decision = d,
                   payload = (if resp_payload response \<noteq> [] then Some (resp_payload response) else None),
                   valid_until = None \<rparr>) d)))"

text \<open>\<open>DecisionSource::get_subject_decision_result\<close>, the default adapter of the trait.\<close>

definition get_subject_decision_result ::
  "('k \<Rightarrow> source_error + decision option) \<Rightarrow> 'k \<Rightarrow> source_error + 'p decision_result option" where
  "get_subject_decision_result get k =
     map_sum id (map_option (\<lambda>d. \<lparr> decision = d, payload = None, valid_until = None \<rparr>)) (get k)"

record 'st tonic_stream =
  str_inner :: 'st
  str_scope :: string

definition watch_subject_decisions ::
  "'k codec \<Rightarrow> 'st grpc_client tonic_source \<Rightarrow> source_error + 'st tonic_stream" where
  "watch_subject_decisions cd src =
     (case client_watch_subject_decisions (ts_client src) \<lparr> watch_scope = ts_scope src \<rparr> of
        Inl status \<Rightarrow> Inl (source_error_of (cd_status_text cd) status)
      | Inr stream \<Rightarrow> Inr \<lparr> str_inner = stream, str_scope = ts_scope src \<rparr>)"

text \<open>
  \<open>TonicDecisionStream::poll_next\<close> over the poll of the inner stream: pending, the end, a
  status, or a message.
\<close>

definition stream_poll_next ::
  "('st \<Rightarrow> (grpc_status + subject_decision_change) option option \<times> 'st) \<Rightarrow> 'k codec
    \<Rightarrow> 'st tonic_stream
    \<Rightarrow> (source_error + 'k Entry.decision_change) option option \<times> 'st tonic_stream" where
  "stream_poll_next poll cd s =
     (let (result, inner) = poll (str_inner s); s = s\<lparr>str_inner := inner\<rparr> in
      (map_option (map_option (\<lambda>result.
         case result of
           Inl status \<Rightarrow> Inl (source_error_of (cd_status_text cd) status)
         | Inr change \<Rightarrow> decode_change (cd_try_from cd) (cd_from_str cd) change (str_scope s))) result, s))"

section \<open>What decoding accepts\<close>

text \<open>The wire form of a decision, \<open>None\<close> being withdrawn.\<close>

fun decision_code :: "decision option \<Rightarrow> i32" where
  "decision_code None = proto_code PUnspecified"
| "decision_code (Some DAllowed) = proto_code PAllowed"
| "decision_code (Some DDenied) = proto_code PDenied"

lemma decode_decision_Inr:
  assumes "enumeration try_from"
  shows "decode_decision try_from n = Inr d \<longleftrightarrow> n = decision_code d"
proof (cases "try_from n")
  case None
  with enumeration.try_from_None [OF assms, of n] show ?thesis
    by (cases d rule: decision_code.cases) (simp_all add: decode_decision_def del: proto_code.simps)
next
  case (Some c)
  with enumeration.try_from [OF assms, of n c] show ?thesis
    by (cases d rule: decision_code.cases; cases c) (simp_all add: decode_decision_def)
qed

lemma decode_change_Inr:
  assumes "enumeration try_from"
  shows "decode_change try_from from_str m scope = Inr c \<longleftrightarrow>
    chg_scope m = scope \<and> from_str (chg_subject_id m) = Some (change_subject c)
    \<and> chg_decision m = decision_code (change_decision c)"
  unfolding decode_decision_Inr [OF assms, symmetric]
  by (cases c) (auto simp: decode_change_def validate_scope_echo_def split: option.splits sum.splits)

lemma decode_decision_Inl: "decode_decision try_from n = Inl e \<Longrightarrow> kind e = Wire"
  by (auto simp: decode_decision_def wire_def split: option.splits proto_decision.splits)

text \<open>
  Decoding a change is exact and scope-bound. A message decodes to a change if and only
  if its scope is the one the source is bound to, its subject identifier parses to the
  change's subject and its decision is the change's; everything else is a wire error.
\<close>

lemma change_decoding_exact:
  assumes "enumeration try_from"
  shows "(decode_change try_from from_str m scope = Inr c \<longleftrightarrow>
      chg_scope m = scope \<and> from_str (chg_subject_id m) = Some (change_subject c)
      \<and> chg_decision m = decision_code (change_decision c))
    \<and> (case decode_change try_from from_str m scope of Inl e \<Rightarrow> kind e = Wire | Inr _ \<Rightarrow> True)"
proof -
  have "kind e = Wire" if "decode_change try_from from_str m scope = Inl e" for e
    using that decode_decision_Inl [of try_from "chg_decision m"]
    by (auto simp: decode_change_def validate_scope_echo_def wire_def split: option.splits sum.splits if_splits)
  with decode_change_Inr [OF assms, of from_str m scope c] show ?thesis by (auto split: sum.split)
qed

text \<open>
  C20: a lookup over a channel to the authority's own server answers with the authority's
  decision for exactly this subject in exactly this scope. A reply that echoes another
  scope or carries an unknown decision is a wire error, a failed call is classified by its
  status, and the gate is given neither payload nor deadline.
\<close>

theorem lookup_asks_the_authority:
  assumes "connected_to (ts_client src) gs server" and "enumeration (cd_try_from cd)"
  shows "get_subject_decision_result (get_subject_decision cd src) k =
    (case pa_get_subject_decision (ps_inner server) \<lparr> req_subject_id = cd_display cd k, req_scope = ts_scope src \<rparr> of
       Inl status \<Rightarrow> Inl (source_error_of (cd_status_text cd) status)
     | Inr r \<Rightarrow>
         if resp_scope r \<noteq> ts_scope src then Inl (wire ''decision source returned a mismatched scope'')
         else if resp_decision r = 0 then Inr None
         else if resp_decision r = 1
         then Inr (Some \<lparr> decision = DAllowed, payload = None, valid_until = None \<rparr>)
         else if resp_decision r = 2
         then Inr (Some \<lparr> decision = DDenied, payload = None, valid_until = None \<rparr>)
         else Inl (wire ''decision source returned an unknown decision''))"
proof -
  have dec: "decode_decision (cd_try_from cd) n =
      (if n = 0 then Inr None else if n = 1 then Inr (Some DAllowed)
       else if n = 2 then Inr (Some DDenied)
       else Inl (wire ''decision source returned an unknown decision''))" for n
  proof (cases "cd_try_from cd n")
    case None
    with enumeration.try_from_None [OF assms(2), of n] have "n \<noteq> proto_code PUnspecified"
      "n \<noteq> proto_code PAllowed" "n \<noteq> proto_code PDenied" by blast+
    with None show ?thesis by (simp add: decode_decision_def)
  next
    case (Some c)
    with enumeration.try_from [OF assms(2), of n c] show ?thesis
      by (cases c) (simp_all add: decode_decision_def)
  qed
  show ?thesis
    by (simp add: get_subject_decision_result_def get_subject_decision_def client_get_reaches [OF assms(1)]
        decode_response_def validate_scope_echo_def dec split: sum.split)
qed

lemma watch_disconnected_effect:
  "\<not> connected (watch_disconnected L now g)" "snapshot (watch_disconnected L now g) = Map.empty"
  "set (metrics g) \<subseteq> set (metrics (watch_disconnected L now g))"
  by (auto simp: watch_disconnected_def publish_empty_def clear_subjects_def mark_disconnected_def log_def
      Let_def split: option.splits)

text \<open>
  C33: a change of another scope never reaches the cache, it ends the watch. When the inner
  stream yields a message whose scope is not the source's, the watch loop counts a wire
  failure, disconnects the gate and empties its published snapshot.
\<close>

theorem foreign_scope_disconnects:
  assumes "poll (str_inner s) = (Some (Some (Inr m)), st)" and "chg_scope m \<noteq> str_scope s"
  shows "\<exists>it w' g'. fst (stream_poll_next poll cd s) = Some it
    \<and> watch_item L clk rng it timer settled refreshes (w, g) = Some (w', g')
    \<and> \<not> connected g' \<and> snapshot g' = Map.empty \<and> WireFailure \<in> set (metrics g')"
proof -
  have item: "fst (stream_poll_next poll cd s) = Some (Some (Inl (wire ''decision source returned a mismatched scope'')))"
    using assms by (simp add: stream_poll_next_def decode_change_def validate_scope_echo_def)
  moreover have "watch_item L clk rng (Some (Inl (wire ''decision source returned a mismatched scope'')))
      timer settled refreshes (w, g) =
    Some (watch_closed L clk rng (w, log WatchDisconnect (log WireFailure g)))"
    by (simp add: watch_item_def wire_metric_def wire_def)
  ultimately show ?thesis
    by (auto simp: watch_closed_def log_def watch_disconnected_effect
        intro!: subsetD [OF watch_disconnected_effect(3)])
qed

end
