(* ===== verification/Publish.thy ===== *)
theory Publish
  imports Scenario
begin

text \<open>
  The publication race (\<open>republish_if_due\<close>, \<open>watch_connected\<close> and \<open>watch_disconnected\<close> in
  \<open>src/src/gate.rs\<close>) at the grain of the locks. The system of theory \<open>System\<close> runs a
  rebuild and a watch transition as one step each; here every lock section is a step of
  its own, rebuilds of several threads overlap each other and the watcher's transitions,
  and an admission that has passed its connection check inserts its entry later.
\<close>

section \<open>The machine\<close>

text \<open>
  A thread has passed the connection check of \<open>admit\<close>, is about to read the dirty flag, has
  claimed a rebuild of a generation, has cleared the flag, or has copied the map.
\<close>

datatype 'k rebuild_pc =
    TChecked 'k
  | TRepublish
  | TClaimed nat
  | TCleared nat
  | TCollected nat "'k \<rightharpoonup> nat"

text \<open>Where the watcher is inside a transition.\<close>

datatype watch_phase = PIdle | PConnectEmptied | PConnectCleared | PDisconnectEmptied

record ('c, 'k, 'p) race =
  ra_gate :: "('c, 'k, 'p) gate"
  ra_threads :: "'k rebuild_pc list"
  ra_phase :: watch_phase

inductive race_step ::
  "('c, 'k) slot_lru \<Rightarrow> ('c, 'k, 'p) race \<Rightarrow> ('c, 'k, 'p) race \<Rightarrow> bool"
  for L :: "('c, 'k) slot_lru" where
  client: "gate_step L (ra_gate s) g' \<Longrightarrow> race_step L s (s\<lparr>ra_gate := g'\<rparr>)"
| checked: "connected (ra_gate s) \<Longrightarrow>
    race_step L s (s\<lparr>ra_threads := TChecked k # ra_threads s\<rparr>)"
| lookup: "ra_threads s = xs @ TChecked k # ys \<Longrightarrow>
    race_step L s (s\<lparr>ra_gate := snd (admit_lookup L k now (ra_gate s)),
                     ra_threads := xs @ TRepublish # ys\<rparr>)"
| republish: "race_step L s (s\<lparr>ra_threads := TRepublish # ra_threads s\<rparr>)"
| clean: "ra_threads s = xs @ TRepublish # ys \<Longrightarrow> \<not> sm_shape_dirty (subjects (ra_gate s)) \<Longrightarrow>
    race_step L s (s\<lparr>ra_threads := xs @ ys\<rparr>)"
| claimed: "ra_threads s = xs @ TRepublish # ys \<Longrightarrow> sm_shape_dirty (subjects (ra_gate s)) \<Longrightarrow>
    republish_claim now (ra_gate s) = Some (Some gen, g') \<Longrightarrow>
    race_step L s (s\<lparr>ra_gate := g', ra_threads := xs @ TClaimed gen # ys\<rparr>)"
| early: "ra_threads s = xs @ TRepublish # ys \<Longrightarrow> sm_shape_dirty (subjects (ra_gate s)) \<Longrightarrow>
    republish_claim now (ra_gate s) = Some (None, g') \<Longrightarrow>
    race_step L s (s\<lparr>ra_gate := g', ra_threads := xs @ ys\<rparr>)"
| cleared: "ra_threads s = xs @ TClaimed gen # ys \<Longrightarrow>
    race_step L s (s\<lparr>ra_gate := republish_clear_dirty (ra_gate s), ra_threads := xs @ TCleared gen # ys\<rparr>)"
| collected: "ra_threads s = xs @ TCleared gen # ys \<Longrightarrow>
    race_step L s (s\<lparr>ra_threads := xs @ TCollected gen (map_collect L (subjects (ra_gate s))) # ys\<rparr>)"
| stored: "ra_threads s = xs @ TCollected gen entries # ys \<Longrightarrow>
    race_step L s (s\<lparr>ra_gate := republish_store gen entries (ra_gate s), ra_threads := xs @ ys\<rparr>)"
| connect_empty: "ra_phase s = PIdle \<Longrightarrow> \<not> connected (ra_gate s) \<Longrightarrow>
    race_step L s (s\<lparr>ra_gate := publish_empty (\<lambda>g. g) (ra_gate s), ra_phase := PConnectEmptied\<rparr>)"
| connect_clear: "ra_phase s = PConnectEmptied \<Longrightarrow>
    race_step L s (s\<lparr>ra_gate := clear_subjects L (ra_gate s), ra_phase := PConnectCleared\<rparr>)"
| connect_send: "ra_phase s = PConnectCleared \<Longrightarrow>
    race_step L s (s\<lparr>ra_gate := log (SetWatchConnected True) ((ra_gate s)\<lparr>connected := True\<rparr>),
                     ra_phase := PIdle\<rparr>)"
| disconnect_empty: "ra_phase s = PIdle \<Longrightarrow>
    race_step L s (s\<lparr>ra_gate := publish_empty
        (\<lambda>g. mark_disconnected now (log (SetWatchConnected False) (g\<lparr>connected := False\<rparr>))) (ra_gate s),
      ra_phase := PDisconnectEmptied\<rparr>)"
| disconnect_clear: "ra_phase s = PDisconnectEmptied \<Longrightarrow>
    race_step L s (s\<lparr>ra_gate := clear_subjects L (ra_gate s), ra_phase := PIdle\<rparr>)"
| change: "connected (ra_gate s) \<Longrightarrow> apply_change L clk ch (ra_gate s) = Some g' \<Longrightarrow>
    race_step L s (s\<lparr>ra_gate := g'\<rparr>)"

inductive race_reachable ::
  "('c, 'k) slot_lru \<Rightarrow> policy_gate_config \<Rightarrow> ('c, 'k, 'p) race \<Rightarrow> bool"
  for L :: "('c, 'k) slot_lru" and cfg :: policy_gate_config where
  start: "gate_new L cfg now = Some g \<Longrightarrow>
    race_reachable L cfg \<lparr> ra_gate = g, ra_threads = [], ra_phase = PIdle \<rparr>"
| step: "race_reachable L cfg s \<Longrightarrow> race_step L s s' \<Longrightarrow> race_reachable L cfg s'"

text \<open>The watcher's transitions of theory \<open>Gate\<close> are these steps in a row.\<close>

lemma watch_transitions_split:
  "watch_connected L g =
     log (SetWatchConnected True) ((clear_subjects L (publish_empty (\<lambda>g. g) g))\<lparr>connected := True\<rparr>)"
  "watch_disconnected L now g = clear_subjects L (publish_empty
     (\<lambda>g. mark_disconnected now (log (SetWatchConnected False) (g\<lparr>connected := False\<rparr>))) g)"
  by (simp_all add: watch_connected_def watch_disconnected_def)

section \<open>The invariant\<close>

text \<open>
  A copied map only holds entries of the heap and never files an entry under another
  subject than the map does. Copies keep that while the map moves on.
\<close>

definition entries_ok ::
  "('c, 'k) slot_lru \<Rightarrow> ('k \<rightharpoonup> nat) \<Rightarrow> ('c, 'k, 'p) gate \<Rightarrow> bool" where
  "entries_ok L entries g \<longleftrightarrow>
     (\<forall>k a. entries k = Some a \<longrightarrow> a \<in> dom (cells (gate_heap g)) \<and>
        (\<forall>k'. (k', a) \<in> slot_pairs L (sm_entries (subjects g)) \<longrightarrow> k' = k))"

definition race_inv ::
  "('c \<Rightarrow> bool) \<Rightarrow> ('c, 'k) slot_lru \<Rightarrow> ('c, 'k, 'p) race \<Rightarrow> bool" where
  "race_inv valid L s \<longleftrightarrow>
     gate_inv valid L (ra_gate s) \<and>
     (\<forall>gen entries. TCollected gen entries \<in> set (ra_threads s) \<longrightarrow> entries_ok L entries (ra_gate s)) \<and>
     (connected (ra_gate s) \<longrightarrow> ra_phase s = PIdle)"

lemma entries_ok_evolves:
  assumes ok: "entries_ok L entries g" and ev: "gate_evolves L g g'"
  shows "entries_ok L entries g'"
  unfolding entries_ok_def
proof (intro allI impI conjI)
  fix k a assume "entries k = Some a"
  with ok have a: "a \<in> dom (cells (gate_heap g))"
    and k: "\<And>k'. (k', a) \<in> slot_pairs L (sm_entries (subjects g)) \<Longrightarrow> k' = k"
    by (auto simp: entries_ok_def)
  from ev have m: "map_evolves L (subjects g) (subjects g')" by (simp add: gate_evolves_def)
  from a heap_evolves_dom [OF map_evolves_heap [OF m]] show "a \<in> dom (cells (gate_heap g'))" by blast
  fix k' assume "(k', a) \<in> slot_pairs L (sm_entries (subjects g'))"
  with m a have "(k', a) \<in> slot_pairs L (sm_entries (subjects g))" unfolding map_evolves_def by blast
  then show "k' = k" by (rule k)
qed

text \<open>The four shapes of a step that keeps the gate's invariant.\<close>

lemma race_inv_gate:
  assumes "race_inv valid L s" "gate_keeps valid L (ra_gate s) g'"
    and "connected g' \<Longrightarrow> ra_phase s = PIdle"
  shows "race_inv valid L (s\<lparr>ra_gate := g'\<rparr>)"
  using assms entries_ok_evolves by (fastforce simp: race_inv_def)

lemma race_inv_threads:
  assumes "race_inv valid L s"
    and "\<And>gen entries. TCollected gen entries \<in> set ts \<Longrightarrow>
      TCollected gen entries \<in> set (ra_threads s) \<or> entries_ok L entries (ra_gate s)"
  shows "race_inv valid L (s\<lparr>ra_threads := ts\<rparr>)"
  using assms by (fastforce simp: race_inv_def)

lemma race_inv_gate_threads:
  assumes "race_inv valid L s" "gate_keeps valid L (ra_gate s) g'"
    and "connected g' \<Longrightarrow> ra_phase s = PIdle"
    and "\<And>gen entries. TCollected gen entries \<in> set ts \<Longrightarrow> TCollected gen entries \<in> set (ra_threads s)"
  shows "race_inv valid L (s\<lparr>ra_gate := g', ra_threads := ts\<rparr>)"
  using assms entries_ok_evolves by (fastforce simp: race_inv_def)

lemma race_inv_gate_phase:
  assumes "race_inv valid L s" "gate_keeps valid L (ra_gate s) g'"
    and "connected g' \<Longrightarrow> p = PIdle"
  shows "race_inv valid L (s\<lparr>ra_gate := g', ra_phase := p\<rparr>)"
  using assms entries_ok_evolves by (fastforce simp: race_inv_def)

lemma republish_claim_keeps:
  "republish_claim now g = Some (r, g') \<Longrightarrow> gate_inv valid L g \<Longrightarrow>
    gate_keeps valid L g g' \<and> connected g' = connected g"
  by (auto simp: republish_claim_def gate_frame split: if_splits bind_splits)

context subject_cache
begin

lemma race_step_inv:
  assumes "race_step L s s'" "race_inv valid L s"
  shows "race_inv valid L s'"
  using assms
proof (induction rule: race_step.induct)
  case (client s g')
  then have g: "gate_inv valid L (ra_gate s)" and ph: "connected (ra_gate s) \<Longrightarrow> ra_phase s = PIdle"
    by (simp_all add: race_inv_def)
  from gate_step_same_watch [OF client(1)] have "connected g' = connected (ra_gate s)"
    by (simp add: same_watch_def)
  with ph show ?case
    by (intro race_inv_gate [OF client(2) gate_step_keeps [OF client(1) g]]) auto
next
  case (checked s k)
  then show ?case by (simp add: race_inv_def)
next
  case (lookup s xs k ys now)
  then have g: "gate_inv valid L (ra_gate s)" and ph: "connected (ra_gate s) \<Longrightarrow> ra_phase s = PIdle"
    by (simp_all add: race_inv_def)
  have "connected (snd (admit_lookup L k now (ra_gate s))) = connected (ra_gate s)"
    using admit_lookup_same_watch [of "ra_gate s" L k now "ra_gate s"] by (simp add: same_watch_def)
  with ph lookup(1) show ?case
    by (intro race_inv_gate_threads [OF lookup(2) admit_lookup_keeps [OF g]]) auto
next
  case (republish s)
  then show ?case by (simp add: race_inv_def)
next
  case (clean s xs ys)
  then show ?case by (simp add: race_inv_def)
next
  case (claimed s xs ys now gen g')
  then have g: "gate_inv valid L (ra_gate s)" and ph: "connected (ra_gate s) \<Longrightarrow> ra_phase s = PIdle"
    by (simp_all add: race_inv_def)
  note C = republish_claim_keeps [OF claimed(3) g]
  from C ph claimed(1) show ?case
    by (intro race_inv_gate_threads [OF claimed(4) conjunct1 [OF C]]) auto
next
  case (early s xs ys now g')
  then have g: "gate_inv valid L (ra_gate s)" and ph: "connected (ra_gate s) \<Longrightarrow> ra_phase s = PIdle"
    by (simp_all add: race_inv_def)
  note C = republish_claim_keeps [OF early(3) g]
  from C ph early(1) show ?case
    by (intro race_inv_gate_threads [OF early(4) conjunct1 [OF C]]) auto
next
  case (cleared s xs gen ys)
  then have g: "gate_inv valid L (ra_gate s)" and ph: "connected (ra_gate s) \<Longrightarrow> ra_phase s = PIdle"
    by (simp_all add: race_inv_def)
  have "gate_keeps valid L (ra_gate s) (republish_clear_dirty (ra_gate s))"
    using g by (simp add: gate_frame)
  with ph cleared(1) show ?case
    by (intro race_inv_gate_threads [OF cleared(2)]) (auto simp: republish_clear_dirty_def)
next
  case (collected s xs gen ys)
  then have g: "gate_inv valid L (ra_gate s)" and ph: "connected (ra_gate s) \<Longrightarrow> ra_phase s = PIdle"
    by (simp_all add: race_inv_def)
  have "entries_ok L (map_collect L (subjects (ra_gate s))) (ra_gate s)"
    using collect_ok [OF g] by (auto simp: entries_ok_def)
  with collected(1) ph g show ?case
    by (intro race_inv_threads [OF collected(2)]) auto
next
  case (stored s xs gen entries ys)
  then have g: "gate_inv valid L (ra_gate s)" and ph: "connected (ra_gate s) \<Longrightarrow> ra_phase s = PIdle"
    and ok: "entries_ok L entries (ra_gate s)"
    by (auto simp: race_inv_def)
  have "gate_keeps valid L (ra_gate s) (republish_store gen entries (ra_gate s))"
    by (rule store_keeps [OF g]) (use ok in \<open>auto simp: entries_ok_def\<close>)
  with ph stored(1) show ?case
    by (intro race_inv_gate_threads [OF stored(2)]) (auto simp: republish_store_def log_def split: if_splits)
next
  case (connect_empty s)
  then have g: "gate_inv valid L (ra_gate s)" by (simp add: race_inv_def)
  from publish_empty_keeps [OF g] connect_empty(2) show ?case
    by (intro race_inv_gate_phase [OF connect_empty(3)]) (auto simp: publish_empty_def)
next
  case (connect_clear s)
  then have g: "gate_inv valid L (ra_gate s)" and "\<not> connected (ra_gate s)"
    by (auto simp: race_inv_def)
  with clear_subjects_keeps [OF g] show ?case
    by (intro race_inv_gate_phase [OF connect_clear(2)]) (auto simp: clear_subjects_def)
next
  case (connect_send s)
  then have g: "gate_inv valid L (ra_gate s)" by (simp add: race_inv_def)
  with connected_keeps [OF g, of True] show ?case
    by (intro race_inv_gate_phase [OF connect_send(2)]) (auto simp: gate_frame)
next
  case (disconnect_empty s now)
  then have g: "gate_inv valid L (ra_gate s)" by (simp add: race_inv_def)
  note E = publish_empty_keeps [OF g]
  let ?g = "(ra_gate s)\<lparr>publish_generation := publish_generation (ra_gate s) + 1, snapshot := Map.empty\<rparr>"
  from E connected_keeps [of ?g False] have "gate_keeps valid L (ra_gate s) (?g\<lparr>connected := False\<rparr>)"
    using gate_evolves_trans by fastforce
  then have "gate_keeps valid L (ra_gate s) (publish_empty
      (\<lambda>g. mark_disconnected now (log (SetWatchConnected False) (g\<lparr>connected := False\<rparr>))) (ra_gate s))"
    by (simp add: publish_empty_def gate_frame)
  then show ?case
    by (intro race_inv_gate_phase [OF disconnect_empty(2)])
      (auto simp: publish_empty_def mark_disconnected_def log_def split: option.splits)
next
  case (disconnect_clear s)
  then have g: "gate_inv valid L (ra_gate s)" by (simp add: race_inv_def)
  with clear_subjects_keeps [OF g] show ?case
    by (intro race_inv_gate_phase [OF disconnect_clear(2)]) auto
next
  case (change s clk ch g')
  then have g: "gate_inv valid L (ra_gate s)" and ph: "connected (ra_gate s) \<Longrightarrow> ra_phase s = PIdle"
    by (simp_all add: race_inv_def)
  from apply_change_same_watch [OF change(2)] have "connected g' = connected (ra_gate s)"
    by (simp add: same_watch_def)
  with ph show ?case
    by (intro race_inv_gate [OF change(3) apply_change_keeps [OF g change(2)]]) auto
qed

lemma race_reachable_inv:
  assumes "race_reachable L cfg s"
  shows "race_inv valid L s"
  using assms
proof (induction rule: race_reachable.induct)
  case (start now g)
  from gate_new_inv [OF start] start show ?case
    by (auto simp: race_inv_def gate_new_def split: bind_splits)
next
  case (step s s')
  then show ?case by (blast intro: race_step_inv)
qed

lemma published_entry:
  assumes inv: "gate_inv valid L g" and snap: "snapshot g k = Some a"
  shows "(k, a) \<in> slot_pairs L (sm_entries (subjects g)) \<or> (\<exists>e. cells (gate_heap g) a = Some e \<and> retired e)"
proof (cases "a \<in> slot_refs L (sm_entries (subjects g))")
  case True
  then obtain k' where k': "(k', a) \<in> slot_pairs L (sm_entries (subjects g))" by (auto simp: slot_refs_pairs)
  with inv snap have "k' = k" by (auto simp: gate_inv_def)
  with k' show ?thesis by simp
next
  case False
  from gate_invD(3) [OF inv snap] obtain e where "cells (gate_heap g) a = Some e" by auto
  with map_invD(5) [OF gate_invD(1) [OF inv] this False] show ?thesis by blast
qed

end

text \<open>
  C13: the publication race is harmless. Whatever the interleaving of overlapping rebuilds,
  late admissions and the watcher's transitions at the grain of the locks, the published
  snapshot is empty while the gate is disconnected, and an entry it publishes for a
  subject is the map's current entry of that same subject or is stale for ever.
\<close>

theorem published_snapshot_safe:
  assumes "subject_cache L valid" and "race_reachable L cfg s"
  shows "(connected (ra_gate s) \<or> snapshot (ra_gate s) = Map.empty)
    \<and> (\<forall>k. case snapshot (ra_gate s) k of None \<Rightarrow> True
        | Some a \<Rightarrow> (k, a) \<in> slot_pairs L (sm_entries (subjects (ra_gate s)))
            \<or> (\<exists>e. cells (gate_heap (ra_gate s)) a = Some e \<and> retired e))"
proof -
  from subject_cache.race_reachable_inv [OF assms] have inv: "gate_inv valid L (ra_gate s)"
    by (simp add: race_inv_def)
  then show ?thesis
    using subject_cache.published_entry [OF assms(1) inv]
    by (auto simp: gate_inv_def split: option.split)
qed

end
