(* ===== verification/Transport_Properties.thy ===== *)
theory Transport_Properties
  imports Stream_Properties Tonic_Source Publish
begin

text \<open>
  The properties of the middleware, the authority adapter and the publication race applied
  to concrete instances of their parameters.
\<close>

section \<open>The middleware\<close>

text \<open>
  A service whose state counts its calls and whose future returns a response at once. The
  head of a request is its subject, head 0 has none.
\<close>

definition tr_service :: "(nat, nat, nat, string, string) service" where
  "tr_service = \<lparr> sv_clone = (\<lambda>s. s), sv_call = (\<lambda>s rq. (s, Suc s)),
     sv_poll = (\<lambda>f. (Some \<lparr> rs_status = 200, rs_headers = [''content-length'' \<mapsto> ''3''], rs_body = ''abc'' \<rparr>, f)) \<rparr>"

definition tr_layer :: "(nat, nat, nat, string, string, nat, string, nat) layer" where
  "tr_layer = \<lparr> ly_context = tr_context,
     ly_policy = \<lparr> rp_subject = (\<lambda>rq. if rq_head rq = 0 then None else Some (rq_head rq)),
       rp_enforce_request_body = (\<lambda>_. True), rp_enforce_response_body = (\<lambda>_. True) \<rparr>,
     ly_adapter = \<lparr> ba_adapt_request = eb_inner, ba_adapt_response = eb_inner,
       ba_adapt_plain = (\<lambda>b. b), ba_make_body = (\<lambda>b. b) \<rparr>,
     ly_response = http_rejection, ly_service = tr_service \<rparr>"

definition tr_request :: "nat \<Rightarrow> (nat, string) request" where
  "tr_request k = \<lparr> rq_head = k, rq_body = ''q'' \<rparr>"

definition tr_middleware :: "nat middleware" where
  "tr_middleware = \<lparr> mw_inner = 5, mw_next_log = 0 \<rparr>"

definition tr_input :: "((nat, subject_slot) lru_list, nat, string) layer_input" where
  "tr_input = \<lparr> li_env = (\<lambda>_ g. g), li_clock = (\<lambda>_. 30), li_sent = True, li_admit = ex_input 30,
     li_secs = 30, li_loaded = 0 \<rparr>"

definition tr_called where
  "tr_called = layer_call lru_list tr_layer tr_input (tr_request 7) (tr_middleware, tr_ready)"

definition tr_future :: "(nat, nat) enforced_response_future" where
  "tr_future = \<lparr> ef_inner = 5, ef_subject = 7, ef_admission = Some tr_addr, ef_enforce_response_body = True \<rparr>"

lemma tr_called_future: "fst tr_called = LEnforced tr_future"
proof -
  have "case fst tr_called of LEnforced f \<Rightarrow> f = tr_future | _ \<Rightarrow> False"
    by code_simp
  then show ?thesis by (simp split: layer_future.splits)
qed

theorem inner_called_only_when_allowed_witness:
  "\<exists>ea. ef_admission tr_future = Some ea \<and> fresh ea 30 DAllowed (gate_heap (snd (snd tr_called)))"
proof -
  have "layer_call lru_list tr_layer tr_input (tr_request 7) (tr_middleware, tr_ready) =
      (LEnforced tr_future, fst (snd tr_called), snd (snd tr_called))"
    unfolding tr_called_def [symmetric] prod.collapse by (rule pair_fst [OF tr_called_future])
  then have "\<exists>ea. ef_admission tr_future = Some ea
      \<and> fresh ea (li_clock tr_input 0) DAllowed (gate_heap (snd (snd tr_called)))"
    by (intro inner_called_only_when_allowed) blast
  then show ?thesis by (simp add: tr_input_def)
qed

section \<open>The authority\<close>

text \<open>An in-process transport: the client's call is the server's own.\<close>

type_synonym tr_http = "string \<times> (get_subject_decision_request + watch_subject_decisions_request)"
type_synonym tr_reply = "(grpc_status + get_subject_decision_response) + (grpc_status + unit)"

definition tr_refused :: grpc_status where
  "tr_refused = \<lparr> st_code = GUnimplemented, st_message = [] \<rparr>"

definition tr_grpc :: "(nat, tr_http, tr_reply, unit) grpc_server" where
  "tr_grpc = \<lparr> gs_path = fst,
     gs_unary = (\<lambda>_ f h. case snd h of Inl r \<Rightarrow> Inl (f r) | Inr _ \<Rightarrow> Inl (Inl tr_refused)),
     gs_server_streaming = (\<lambda>_ f h. case snd h of Inl _ \<Rightarrow> Inr (Inl tr_refused) | Inr r \<Rightarrow> Inr (f r)),
     gs_response = (\<lambda>_. Inl (Inl tr_refused)) \<rparr>"

definition tr_authority :: "unit policy_authority" where
  "tr_authority = \<lparr>
     pa_get_subject_decision = (\<lambda>r. Inr \<lparr> resp_decision = (if req_subject_id r = ''a'' then 1 else 2),
       resp_scope = req_scope r, resp_payload = ''p'' \<rparr>),
     pa_watch_subject_decisions = (\<lambda>_. Inr ()) \<rparr>"

definition tr_server :: "(nat, unit) policy_authority_server" where
  "tr_server = max_decoding_message_size 100 (accept_compressed 1 (server_from_arc tr_authority))"

definition tr_unary_reply :: "tr_reply \<Rightarrow> grpc_status + get_subject_decision_response" where
  "tr_unary_reply r = (case r of Inl x \<Rightarrow> x | Inr _ \<Rightarrow> Inl tr_refused)"

definition tr_stream_reply :: "tr_reply \<Rightarrow> grpc_status + unit" where
  "tr_stream_reply r = (case r of Inr x \<Rightarrow> x | Inl _ \<Rightarrow> Inl tr_refused)"

definition tr_client :: "unit grpc_client" where
  "tr_client = \<lparr> gc_ready = None,
     gc_unary = (\<lambda>path r. tr_unary_reply (server_call tr_grpc tr_server (path, Inl r))),
     gc_server_streaming = (\<lambda>path r. tr_stream_reply (server_call tr_grpc tr_server (path, Inr r))) \<rparr>"

lemma tr_connected: "connected_to tr_client tr_grpc tr_server"
  unfolding connected_to_def
proof (intro conjI allI)
  fix path and request :: get_subject_decision_request
  show "\<exists>h reply. gs_path tr_grpc h = path \<and> gc_unary tr_client path request =
      reply (server_call tr_grpc tr_server h) \<and> (\<forall>f. reply (gs_unary tr_grpc (grpc_config_of tr_server) f h) = f request)"
    by (intro exI [of _ "(path, Inl request)"] exI [of _ tr_unary_reply])
      (simp add: tr_grpc_def tr_client_def tr_unary_reply_def)
next
  fix path and request :: watch_subject_decisions_request
  show "\<exists>h reply. gs_path tr_grpc h = path \<and> gc_server_streaming tr_client path request =
      reply (server_call tr_grpc tr_server h) \<and> (\<forall>f. reply (gs_server_streaming tr_grpc (grpc_config_of tr_server) f h) = f request)"
    by (intro exI [of _ "(path, Inr request)"] exI [of _ tr_stream_reply])
      (simp add: tr_grpc_def tr_client_def tr_stream_reply_def)
qed (simp add: tr_client_def)

definition tr_codec :: "string codec" where
  "tr_codec = \<lparr> cd_display = (\<lambda>s. s), cd_from_str = Some, cd_try_from = listed_try_from,
     cd_status_text = st_message \<rparr>"

theorem lookup_asks_the_authority_witness:
  "get_subject_decision_result (get_subject_decision tr_codec (from_channel tr_client ''s'')) ''a'' =
      Inr (Some \<lparr> decision = DAllowed, payload = None :: string option, valid_until = None \<rparr>)"
  using lookup_asks_the_authority [of "from_channel tr_client ''s''" tr_grpc tr_server tr_codec "''a''"]
    tr_connected listed.enumeration_axioms
  by (simp add: from_channel_def tr_codec_def tr_authority_def tr_server_def server_from_arc_def
      max_decoding_message_size_def accept_compressed_def)

definition tr_nat_codec :: "nat codec" where
  "tr_nat_codec = \<lparr> cd_display = (\<lambda>n. replicate n CHR ''1''), cd_from_str = (\<lambda>s. Some (length s)),
     cd_try_from = listed_try_from, cd_status_text = st_message \<rparr>"

theorem foreign_scope_disconnects_witness:
  "\<exists>it w' g'. fst (stream_poll_next (\<lambda>_. (Some (Some (Inr \<lparr> chg_subject_id = ''a'', chg_decision = 1, chg_scope = ''t'' \<rparr>)), ()))
        tr_nat_codec \<lparr> str_inner = (), str_scope = ''s'' \<rparr>) = Some it
    \<and> watch_item lru_list (\<lambda>_. 5) 0 it None False [] (fst ex_open, snd ex_open) = Some (w', g')
    \<and> \<not> connected g' \<and> snapshot g' = Map.empty \<and> WireFailure \<in> set (metrics g')"
  by (rule foreign_scope_disconnects
      [where m = "\<lparr> chg_subject_id = ''a'', chg_decision = 1, chg_scope = ''t'' \<rparr>" and st = "()"]) simp_all

section \<open>The publication race\<close>

text \<open>The watch opens in the three steps of \<open>watch_connected\<close>.\<close>

definition tr_race :: "((nat, subject_slot) lru_list, nat, string) race" where
  "tr_race = \<lparr> ra_gate = watch_connected lru_list tr_gate0, ra_threads = [TRepublish], ra_phase = PIdle \<rparr>"

lemma tr_race_reachable: "race_reachable lru_list tr_cfg tr_race"
proof -
  let ?s0 = "\<lparr> ra_gate = tr_gate0, ra_threads = [], ra_phase = PIdle \<rparr>"
  let ?s1 = "?s0\<lparr>ra_gate := publish_empty (\<lambda>g. g) tr_gate0, ra_phase := PConnectEmptied\<rparr>"
  let ?s2 = "?s1\<lparr>ra_gate := clear_subjects lru_list (ra_gate ?s1), ra_phase := PConnectCleared\<rparr>"
  let ?s3 = "?s2\<lparr>ra_gate := log (SetWatchConnected True) ((ra_gate ?s2)\<lparr>connected := True\<rparr>), ra_phase := PIdle\<rparr>"
  have off: "\<not> connected tr_gate0" by code_simp
  have "race_reachable lru_list tr_cfg ?s0"
    by (rule race_reachable.start [OF tr_gate0_new])
  moreover have "race_step lru_list ?s0 ?s1"
    using race_step.connect_empty [of ?s0 lru_list] off by simp
  moreover have "race_step lru_list ?s1 ?s2"
    by (rule race_step.connect_clear) simp
  moreover have "race_step lru_list ?s2 ?s3"
    by (rule race_step.connect_send) simp
  moreover have "race_step lru_list ?s3 (?s3\<lparr>ra_threads := TRepublish # ra_threads ?s3\<rparr>)"
    by (rule race_step.republish)
  ultimately have "race_reachable lru_list tr_cfg (?s3\<lparr>ra_threads := TRepublish # ra_threads ?s3\<rparr>)"
    by (meson race_reachable.step)
  then show ?thesis by (simp add: tr_race_def watch_transitions_split)
qed

theorem published_snapshot_safe_witness:
  "(connected (ra_gate tr_race) \<or> snapshot (ra_gate tr_race) = Map.empty)
    \<and> (\<forall>k. case snapshot (ra_gate tr_race) k of None \<Rightarrow> True
        | Some a \<Rightarrow> (k, a) \<in> slot_pairs lru_list (sm_entries (subjects (ra_gate tr_race)))
            \<or> (\<exists>e. cells (gate_heap (ra_gate tr_race)) a = Some e \<and> retired e))"
  by (rule published_snapshot_safe [OF list_cache.subject_cache_axioms tr_race_reachable])

section \<open>A rebuild that overlaps a reconnect\<close>

text \<open>
  An admission of subject 7 passes the connection check, then the watch is lost and cleared,
  and the admission inserts its entry late. While the watch reconnects, after its empty
  publish and before its clear, a rebuild claims the current generation and copies the map;
  it stores its copy when the connection is up again.
\<close>

type_synonym list_gate = "((nat, subject_slot) lru_list, nat, string) gate"

definition rb_late :: list_gate where
  "rb_late = snd (admit_lookup lru_list 7 4 (watch_disconnected lru_list 3 tr_open))"

definition rb_claim :: "nat option \<times> list_gate" where
  "rb_claim = the (republish_claim 8 (publish_empty (\<lambda>g. g) rb_late))"

definition rb_copied :: list_gate where
  "rb_copied = republish_clear_dirty (snd rb_claim)"

definition rb_entries :: "nat \<rightharpoonup> nat" where
  "rb_entries = map_collect lru_list (subjects rb_copied)"

definition rb_open :: list_gate where
  "rb_open = log (SetWatchConnected True) ((clear_subjects lru_list rb_copied)\<lparr>connected := True\<rparr>)"

definition rb_gate :: list_gate where
  "rb_gate = republish_store 3 rb_entries rb_open"

lemma rb_claimed: "republish_claim 8 (publish_empty (\<lambda>g. g) rb_late) = Some (Some 3, snd rb_claim)"
proof -
  have "republish_claim 8 (publish_empty (\<lambda>g. g) rb_late) = Some rb_claim"
    unfolding rb_claim_def by (rule some_the) code_simp
  moreover have "fst rb_claim = Some 3" by code_simp
  ultimately show ?thesis by (metis prod.collapse)
qed

lemma rb_dirty: "sm_shape_dirty (subjects (publish_empty (\<lambda>g. g) rb_late))"
  by code_simp

lemma rb_off: "\<not> connected rb_late"
  by code_simp

lemma rb_reachable:
  "race_reachable lru_list tr_cfg \<lparr> ra_gate = rb_gate, ra_threads = [TRepublish], ra_phase = PIdle \<rparr>"
proof -
  let ?st = "\<lambda>g ts ph. \<lparr> ra_gate = g, ra_threads = ts, ra_phase = ph \<rparr> :: ((nat, subject_slot) lru_list, nat, string) race"
  let ?lost = "publish_empty (\<lambda>g. mark_disconnected 3 (log (SetWatchConnected False) (g\<lparr>connected := False\<rparr>))) tr_open"
  let ?empty = "publish_empty (\<lambda>g. g) rb_late"
  have "connected tr_open" by (simp add: tr_open_def)
  then have "race_step lru_list (?st tr_open [TRepublish] PIdle) (?st tr_open [TChecked 7, TRepublish] PIdle)"
    using race_step.checked [of "?st tr_open [TRepublish] PIdle" lru_list 7] by simp
  moreover have "race_step lru_list (?st tr_open [TChecked 7, TRepublish] PIdle)
      (?st ?lost [TChecked 7, TRepublish] PDisconnectEmptied)"
    using race_step.disconnect_empty [of "?st tr_open [TChecked 7, TRepublish] PIdle" lru_list 3] by simp
  moreover have "race_step lru_list (?st ?lost [TChecked 7, TRepublish] PDisconnectEmptied)
      (?st (watch_disconnected lru_list 3 tr_open) [TChecked 7, TRepublish] PIdle)"
    using race_step.disconnect_clear [of "?st ?lost [TChecked 7, TRepublish] PDisconnectEmptied" lru_list]
    by (simp add: watch_transitions_split)
  moreover have "race_step lru_list (?st (watch_disconnected lru_list 3 tr_open) [TChecked 7, TRepublish] PIdle)
      (?st rb_late [TRepublish, TRepublish] PIdle)"
    using race_step.lookup [of "?st (watch_disconnected lru_list 3 tr_open) [TChecked 7, TRepublish] PIdle"
        "[]" 7 "[TRepublish]" lru_list 4] by (simp add: rb_late_def)
  moreover have "race_step lru_list (?st rb_late [TRepublish, TRepublish] PIdle)
      (?st ?empty [TRepublish, TRepublish] PConnectEmptied)"
    using race_step.connect_empty [of "?st rb_late [TRepublish, TRepublish] PIdle" lru_list] rb_off by simp
  moreover have "race_step lru_list (?st ?empty [TRepublish, TRepublish] PConnectEmptied)
      (?st (snd rb_claim) [TClaimed 3, TRepublish] PConnectEmptied)"
    using race_step.claimed [of "?st ?empty [TRepublish, TRepublish] PConnectEmptied" "[]" "[TRepublish]" 8 3
        "snd rb_claim" lru_list] rb_dirty rb_claimed by simp
  moreover have "race_step lru_list (?st (snd rb_claim) [TClaimed 3, TRepublish] PConnectEmptied)
      (?st rb_copied [TCleared 3, TRepublish] PConnectEmptied)"
    using race_step.cleared [of "?st (snd rb_claim) [TClaimed 3, TRepublish] PConnectEmptied" "[]" 3
        "[TRepublish]" lru_list] by (simp add: rb_copied_def)
  moreover have "race_step lru_list (?st rb_copied [TCleared 3, TRepublish] PConnectEmptied)
      (?st rb_copied [TCollected 3 rb_entries, TRepublish] PConnectEmptied)"
    using race_step.collected [of "?st rb_copied [TCleared 3, TRepublish] PConnectEmptied" "[]" 3
        "[TRepublish]" lru_list] by (simp add: rb_entries_def)
  moreover have "race_step lru_list (?st rb_copied [TCollected 3 rb_entries, TRepublish] PConnectEmptied)
      (?st (clear_subjects lru_list rb_copied) [TCollected 3 rb_entries, TRepublish] PConnectCleared)"
    using race_step.connect_clear [of "?st rb_copied [TCollected 3 rb_entries, TRepublish] PConnectEmptied" lru_list]
    by simp
  moreover have "race_step lru_list (?st (clear_subjects lru_list rb_copied) [TCollected 3 rb_entries, TRepublish] PConnectCleared)
      (?st rb_open [TCollected 3 rb_entries, TRepublish] PIdle)"
    using race_step.connect_send [of "?st (clear_subjects lru_list rb_copied) [TCollected 3 rb_entries, TRepublish] PConnectCleared" lru_list]
    by (simp add: rb_open_def)
  moreover have "race_step lru_list (?st rb_open [TCollected 3 rb_entries, TRepublish] PIdle)
      (?st rb_gate [TRepublish] PIdle)"
    using race_step.stored [of "?st rb_open [TCollected 3 rb_entries, TRepublish] PIdle" "[]" 3 rb_entries
        "[TRepublish]" lru_list] by (simp add: rb_gate_def)
  moreover have "race_reachable lru_list tr_cfg (?st tr_open [TRepublish] PIdle)"
    using tr_race_reachable by (simp add: tr_race_def tr_open_def)
  ultimately show ?thesis by (meson race_reachable.step)
qed

definition rb_view where
  "rb_view g = (connected g, snapshot g 7, lru_iter lru_list (sm_entries (subjects g)),
     case cells (gate_heap g) 0 of None \<Rightarrow> False | Some e \<Rightarrow> retired e)"

lemma rb_gate_view: "rb_view rb_gate = (True, Some 0, [], True)"
  by code_simp


end
