(* ===== verification/Lifecycle.thy ===== *)
theory Lifecycle
  imports Scenario Effects
begin

text \<open>
  Properties of whole runs and of the shared state they pass through: what is left when the
  watcher is dropped, how often the read snapshot is rebuilt, what every pointer of a
  reachable state refers to, and what an insertion into the full cache evicts.
\<close>

section \<open>A dropped watcher\<close>

text \<open>An admission task next to the rest of the system.\<close>

inductive admit_step ::
  "('c, 'k) slot_lru
    \<Rightarrow> (('k, 'p) watcher \<times> ('c, 'k, 'p) gate) \<times> ('k, 'p) admit_task
    \<Rightarrow> (('k, 'p) watcher \<times> ('c, 'k, 'p) gate) \<times> ('k, 'p) admit_task \<Rightarrow> bool"
  for L :: "('c, 'k) slot_lru" where
  others: "sys_step L s s' \<Longrightarrow> admit_step L (s, t) (s', t)"
| own: "admit_poll L inp (t, g) = Some (t', g') \<Longrightarrow> admit_step L ((w, g), t) ((w, g'), t')"

inductive_cases admit_stepE: "admit_step L ((w, g), t) ((w', g'), t')"

lemma admit_step_sys: "admit_step L x y \<Longrightarrow> (sys_step L)\<^sup>*\<^sup>* (fst x) (fst y)"
  by (induction rule: admit_step.induct)
    (auto intro!: r_into_rtranclp sys_step.client gate_step.admit)

lemma admit_run_sys: "(admit_step L)\<^sup>*\<^sup>* x y \<Longrightarrow> (sys_step L)\<^sup>*\<^sup>* (fst x) (fst y)"
  by (induction rule: rtranclp_induct) (auto dest: admit_step_sys intro: rtranclp_trans)

inductive_cases watch_step_fromE: "watch_step L (w, g) s'"

lemma dropped_stays:
  assumes "sys_step L (w, g) (w', g')" "w_pc w = WDropped" "\<not> connected g"
  shows "w_pc w' = WDropped \<and> \<not> connected g'"
  using assms
  by (auto elim!: sys_step.cases watch_step_fromE simp: same_watch_def watch_item_def
      dest!: gate_step_same_watch)

lemma dropped_run:
  "(sys_step L)\<^sup>*\<^sup>* s s' \<Longrightarrow> w_pc (fst s) = WDropped \<Longrightarrow> \<not> connected (snd s) \<Longrightarrow>
    w_pc (fst s') = WDropped \<and> \<not> connected (snd s')"
  by (induction rule: rtranclp_induct) (auto dest: dropped_stays)

text \<open>
  What a task may be doing after the drop: it holds no handle yet, and a lookup it has
  joined belongs to an entry of \<open>D\<close>, those that existed at the drop.
\<close>

definition empty_handed :: "nat set \<Rightarrow> ('k, 'p) admit_task \<Rightarrow> bool" where
  "empty_handed D t \<longleftrightarrow>
     (case at_pc t of AJoin ea f \<Rightarrow> ea \<in> D | ADone r \<Rightarrow> r = None | _ \<Rightarrow> True)"

lemma retired_not_authoritative:
  "cells h ea = Some e \<Longrightarrow> retired e \<Longrightarrow> \<not> authoritative ea now h"
  by (auto simp: authoritative_def retired_def)

lemma admit_poll_empty_handed:
  assumes p: "admit_poll L inp (t, g) = Some (t', g')" and off: "\<not> connected g" and t: "empty_handed D t"
    and D: "\<And>ea. ea \<in> D \<Longrightarrow> \<exists>e. cells (gate_heap g') ea = Some e \<and> retired e"
  shows "empty_handed D t'"
proof (cases "at_pc t")
  case (AJoin ea f)
  with t D have "\<not> authoritative ea now (gate_heap g')" for now
    using retired_not_authoritative by (fastforce simp: empty_handed_def)
  then have "at_pc t' \<noteq> ADone (Some eb)" for eb
    using admit_done_authoritative [OF p, of eb] AJoin by auto
  moreover have "(\<exists>r. at_pc t' = ADone r) \<or> at_pc t' = at_pc t \<or> at_pc t' = AConnect"
    using p AJoin off
    by (auto simp: admit_poll_def admit_joined_def admit_access_def Let_def
        split: if_splits prod.splits join_event.splits option.splits)
  ultimately show ?thesis using t by (auto simp: empty_handed_def) (metis not_None_eq)
qed (use p off t in \<open>auto simp: admit_poll_def admit_entry_def empty_handed_def Let_def
    split: if_splits prod.splits Option.bind_splits\<close>)

text \<open>
  C16: dropping the watcher fails closed for good. From the drop on, whatever the rest of the
  system does, the gate never reconnects and answers no cached read, every handle given out
  before is stale, and no admission, whether already running or started later, ever
  returns a handle.
\<close>

theorem dropped_watcher_fails_closed:
  assumes "subject_cache L valid" "config_valid now0 cfg" "max_reconnect_delay cfg \<le> DURATION_MAX"
    and "sys_reachable L cfg (w, g)" "sys_step L (w, g) (w1, g1)" "w_pc w \<noteq> WDropped" "w_pc w1 = WDropped"
    and "empty_handed (dom (cells (gate_heap g))) t"
    and "(admit_step L)\<^sup>*\<^sup>* ((w1, g1), t) ((w2, g2), t')"
  shows "\<not> connected g2 \<and> fst (gate_check L clk k sent g2) = None
    \<and> (\<forall>ea e. cells (gate_heap g) ea = Some e \<longrightarrow>
        (\<exists>e'. cells (gate_heap g2) ea = Some e' \<and> current_state e' = EStale))
    \<and> (\<forall>ea. at_pc t' \<noteq> ADone (Some ea))"
proof -
  let ?D = "dom (cells (gate_heap g))"
  have r1: "sys_reachable L cfg (w1, g1)" by (rule sys_reachable.step [OF assms(4,5)])
  from assms(5-7) obtain now where g1: "g1 = watch_disconnected L now g"
    by (auto elim!: sys_step.cases watch_step_fromE simp: watch_opened_def watch_open_failed_def
        watch_closed_def watch_item_def Let_def split: option.splits sum.splits if_splits Option.bind_splits)
  then have off1: "\<not> connected g1" and c: "subjects g1 = map_clear L (subjects g)"
    by (simp_all add: watch_disconnected_subjects)
  have retired: "\<exists>e. cells (gate_heap (snd s)) ea = Some e \<and> retired e"
    if "(sys_step L)\<^sup>*\<^sup>* (w1, g1) s" "ea \<in> ?D" for s ea
    using subject_cache.cleared_forever [OF assms(1,4) _ r1 that(1) assms(2,3), of ea] c that(2) by auto
  have "empty_handed ?D t'"
    using assms(9)
  proof (induction "((w2, g2), t')" arbitrary: w2 g2 t' rule: rtranclp_induct)
    case base
    show ?case by (rule assms(8))
  next
    case (step y)
    obtain w3 g3 t3 where y: "y = ((w3, g3), t3)" by (metis surj_pair)
    from step(1) have run: "(sys_step L)\<^sup>*\<^sup>* (w1, g1) (w3, g3)" using admit_run_sys y by fastforce
    from step(2) [unfolded y] consider "t' = t3" | inp where "admit_poll L inp (t3, g3) = Some (t', g2)"
      by (auto elim: admit_stepE)
    then show ?case
    proof cases
      case (2 inp)
      have "(sys_step L)\<^sup>*\<^sup>* (w1, g1) (w2, g2)"
        using run admit_step_sys [OF step(2)] y by simp
      from retired [OF this] dropped_run [OF run] off1 assms(7) 2 step(3) [OF y]
      show ?thesis by (intro admit_poll_empty_handed [OF 2]) auto
    qed (use step(3) y in auto)
  qed
  moreover have run: "(sys_step L)\<^sup>*\<^sup>* (w1, g1) (w2, g2)" using admit_run_sys [OF assms(9)] by simp
  moreover from dropped_run [OF run] off1 assms(7) have "\<not> connected g2" by simp
  moreover have "gate_inv valid L g2"
    using subject_cache.run_evolves [OF assms(1) run r1 assms(2,3)] by simp
  ultimately show ?thesis
    using retired [OF run] by (fastforce simp: empty_handed_def gate_inv_def gate_check_def retired_def)
qed

section \<open>The rate of rebuilds\<close>

lemma next_allowed_frame [simp]:
  "next_allowed (watch_connected L g) = next_allowed g"
  "next_allowed (watch_disconnected L now g) = next_allowed g"
  "next_allowed (watch_stable g) = next_allowed g" "next_allowed (log x g) = next_allowed g"
  "next_allowed (wire_metric err g) = next_allowed g"
  by (simp_all add: watch_connected_def watch_disconnected_def watch_stable_def publish_empty_def
      clear_subjects_def mark_disconnected_def log_def wire_metric_def Let_def split: option.split)

text \<open>The configuration stays, and the time of the next rebuild is never brought forward.\<close>

definition paced :: "('c, 'k, 'p) gate \<Rightarrow> ('c, 'k, 'p) gate \<Rightarrow> bool" where
  "paced g g' \<longleftrightarrow> config g' = config g \<and> next_allowed g \<le> next_allowed g'"

lemma paced_trans: "paced g g' \<Longrightarrow> paced g' g'' \<Longrightarrow> paced g g''"
  by (auto simp: paced_def)

lemma same_watch_paced: "same_watch g g' \<Longrightarrow> paced g g'"
  by (simp add: same_watch_def paced_def)

lemma watch_item_paced:
  "watch_item L clk rng it timer settled refreshes (w, g) = Some s' \<Longrightarrow> paced g (snd s')"
  by (auto simp: watch_item_def watch_closed_def paced_def Let_def same_watch_def
      split: option.splits sum.splits if_splits Option.bind_splits dest!: apply_change_same_watch)

lemma watch_step_paced:
  assumes "watch_step L s s'"
  shows "paced (snd s) (snd s')"
  using assms
proof (induction rule: watch_step.induct)
  case (refresh_done w timer settled refreshes f clk outcome g r g')
  from same_watch_paced [OF run_fetch_same_watch [OF this(3)]] show ?case by simp
next
  case (item w timer settled refreshes clk rng it g s')
  from watch_item_paced [OF item(2)] show ?case by simp
qed (simp_all add: watch_opened_def watch_open_failed_def watch_closed_def watch_stable_def paced_def
    Let_def split: option.split)

lemma sys_run_paced: "(sys_step L)\<^sup>*\<^sup>* s s' \<Longrightarrow> paced (snd s) (snd s')"
proof (induction rule: rtranclp_induct)
  case (step u v)
  from step(2) have "paced (snd u) (snd v)"
    by (cases rule: sys_step.cases)
      (auto intro: watch_step_paced same_watch_paced gate_step_same_watch)
  with step(3) show ?case by (rule paced_trans)
qed (simp add: paced_def)

lemma republish_reported:
  assumes "republish_if_due L now g = Some g'" "metrics g' \<noteq> metrics g"
  shows "next_allowed g \<le> now" "next_allowed g' = now + int (snapshot_republish_interval (config g))"
  using assms
  by (auto simp: republish_if_due_def republish_claim_def republish_clear_dirty_def republish_store_def
      log_def Let_def instant_checked_add_def split: if_splits Option.bind_splits)

text \<open>
  C37: the read snapshot is rebuilt at a bounded rate. Between two published rebuilds, whoever
  triggers them and whatever the system does in between, at least the configured interval
  passes on the clock.
\<close>

theorem rebuilds_are_spaced:
  assumes "republish_if_due L now g = Some g1" "metrics g1 \<noteq> metrics g"
    and "(sys_step L)\<^sup>*\<^sup>* (w, g1) (w', g2)"
    and "republish_if_due L now' g2 = Some g3" "metrics g3 \<noteq> metrics g2"
  shows "now + int (snapshot_republish_interval (config g)) \<le> now'"
  using republish_reported [OF assms(1,2)] republish_reported(1) [OF assms(4,5)] sys_run_paced [OF assms(3)]
  by (simp add: paced_def)

section \<open>Typed states\<close>

text \<open>
  C18: every reachable state is well-typed. Each pointer held by a cache slot, the read
  snapshot, the refresh queue or the watcher leads to an allocated object of its kind: slots
  refer to distinct entries, entries without a slot are stale with nothing in flight, a
  pending entry has an unexpiring state word and its own live lookup, no two entries share
  a lookup, and a queued or running refresh reports to the entry that holds it, if any does.
\<close>

theorem reachable_state_typed:
  assumes "subject_cache L valid" "config_valid now0 cfg" "max_reconnect_delay cfg \<le> DURATION_MAX"
    and "sys_reachable L cfg (w, g)"
  shows "map_inv valid L (sm_entries (subjects g)) (gate_heap g)
    \<and> ran (snapshot g) \<subseteq> dom (cells (gate_heap g))
    \<and> list_all (fetch_issued (gate_heap g)) (refresh_queue g @ w_refreshes (w_pc w))"
  using subject_cache.reachable_inv [OF assms(1,4,2,3)]
  by (auto simp: gate_inv_def watch_inv_def list_all_iff ran_def)

section \<open>Eviction\<close>

lemma create_entry_pending:
  "create_entry cfg k now h = (ea, h') \<Longrightarrow>
    ea = next_addr h \<and> (\<exists>e. cells h' = (cells h)(ea \<mapsto> e) \<and> current_state e = EPending)"
  by (auto simp: create_entry_def new_fetch_after_def entry_pending_def Let_def)

context subject_cache
begin

lemma admit_lookup_full:
  assumes inv: "gate_inv valid L g"
    and iter: "lru_iter L (sm_entries (subjects g)) = ps @ [(k', s')]"
    and full: "length ps + 1 = max_subjects (config g)"
    and new: "k \<notin> fst ` set (ps @ [(k', s')])"
    and busy: "\<And>p. p \<in> set (ps @ [(k', s')]) \<Longrightarrow>
      \<not> slot_idle (ttl_ticks (subjects g)) (map_tick (subjects g) now) (snd p)"
    and r: "admit_lookup L k now g = (ea, g')"
  shows "lru_iter L (sm_entries (subjects g')) =
      (k, \<lparr> slot_entry = ea, last_touched = map_tick (subjects g) now \<rparr>) # ps
    \<and> map_option current_state (cells (gate_heap g') ea) = Some EPending
    \<and> map_option current_state (cells (gate_heap g') (slot_entry s')) = Some EStale
    \<and> (\<forall>a. a \<noteq> ea \<and> a \<noteq> slot_entry s' \<longrightarrow> cells (gate_heap g') a = cells (gate_heap g) a)
    \<and> sm_shape_dirty (subjects g')"
proof -
  note minv = gate_invD(1) [OF inv]
  obtain eb h where cr: "create_entry (config g) k now (gate_heap g) = (eb, h)" by fastforce
  obtain r m' where res: "get_or_insert_with L k now (create_entry (config g) k now) (subjects g) = (r, m')"
    by fastforce
  have cap: "length (ps @ [(k', s')]) = lru_cap L (sm_entries (subjects g))"
    using inv full by (simp add: gate_inv_def)
  note F = insert_full_effect [OF minv create_entry_creation cr cap iter new busy res]
  have g': "ea = eb" "subjects g' = m'\<lparr>sm_shape_dirty := True\<rparr>"
    using r F(1) res by (auto simp: admit_lookup_def mark_dirty_def Let_def)
  from create_entry_pending [OF cr] obtain e where
    e: "cells h = (cells (gate_heap g))(eb \<mapsto> e)" "current_state e = EPending" by blast
  have "slot_entry s' \<in> slot_refs L (sm_entries (subjects g))"
    by (simp add: slot_refs_def iter)
  with map_invD(4) [OF minv] obtain e' where e': "cells (gate_heap g) (slot_entry s') = Some e'" by blast
  have "cells (gate_heap g) eb = None"
    using entry_creationD(2) [OF create_entry_creation gate_invD(2) [OF inv] cr] by (simp add: domIff)
  with e' have neq: "slot_entry s' \<noteq> eb" by auto
  from heap_invalidate_effect(1) [of h "slot_entry s'" e'] e' neq e(1) obtain e2 where
    "cells (heap_invalidate (slot_entry s') h) (slot_entry s') = Some e2" "retired e2" by auto
  with F(2,4) g' e neq show ?thesis
    by (simp add: heap_invalidate_frame retired_def)
qed

end

text \<open>
  C38: admitting a new subject into the full cache evicts exactly the least recently used
  one. The new subject becomes the most recent with a pending entry of its own, the evicted
  subject's handles read as stale, the others keep their slots, their order and their
  entries, and the read snapshot is marked for a rebuild.
\<close>

theorem capacity_evicts_least_recent:
  assumes "subject_cache L valid" "gate_inv valid L g"
    and "lru_iter L (sm_entries (subjects g)) = ps @ [(k', s')]" "length ps + 1 = max_subjects (config g)"
    and "k \<notin> fst ` set (ps @ [(k', s')])"
    and "\<forall>p \<in> set (ps @ [(k', s')]).
      \<not> slot_idle (ttl_ticks (subjects g)) (map_tick (subjects g) now) (snd p)"
    and "admit_lookup L k now g = (ea, g')"
  shows "lru_iter L (sm_entries (subjects g')) =
      (k, \<lparr> slot_entry = ea, last_touched = map_tick (subjects g) now \<rparr>) # ps
    \<and> map_option current_state (cells (gate_heap g') ea) = Some EPending
    \<and> map_option current_state (cells (gate_heap g') (slot_entry s')) = Some EStale
    \<and> (\<forall>a. a \<noteq> ea \<and> a \<noteq> slot_entry s' \<longrightarrow> cells (gate_heap g') a = cells (gate_heap g) a)
    \<and> sm_shape_dirty (subjects g')"
  using subject_cache.admit_lookup_full [OF assms(1-5) _ assms(7)] assms(6) by blast

section \<open>Witnesses\<close>

text \<open>The watcher is dropped after subject 7 was allowed; an admission that had found its entry goes on.\<close>

definition ex_lost :: "((nat, subject_slot) lru_list, nat, string) gate" where
  "ex_lost = watch_disconnected lru_list 80 ex_allowed"

definition ex_late where
  "ex_late = the (admit_poll lru_list (ex_input 5) (goto (AEntry 0) (ex_task 7), ex_lost))"

lemma ex_late_poll: "admit_poll lru_list (ex_input 5) (goto (AEntry 0) (ex_task 7), ex_lost) = Some ex_late"
  unfolding ex_late_def by (rule some_the) code_simp

lemma ex_open_pc: "w_pc (fst ex_open) \<noteq> WDropped"
  by (simp add: ex_open_def watch_opened_def)

lemma ex_allowed_entry: "map_option current_state (cells (gate_heap ex_allowed) 0) = Some EAllowed"
  by code_simp

theorem dropped_watcher_fails_closed_witness:
  "\<not> connected (snd ex_late) \<and> fst (gate_check lru_list (\<lambda>_. 6) 7 True (snd ex_late)) = None
    \<and> (\<exists>e'. cells (gate_heap (snd ex_late)) 0 = Some e' \<and> current_state e' = EStale)
    \<and> (\<forall>ea. at_pc (fst ex_late) \<noteq> ADone (Some ea))"
proof -
  let ?w = "(fst ex_open)\<lparr>w_pc := WDropped\<rparr>"
  have drop: "sys_step lru_list (fst ex_open, ex_allowed) (?w, ex_lost)"
    unfolding ex_lost_def by (rule sys_step.watch [OF watch_step.dropped [OF ex_open_pc]])
  have "admit_step lru_list ((?w, ex_lost), goto (AEntry 0) (ex_task 7)) ((?w, snd ex_late), fst ex_late)"
    using ex_late_poll by (intro admit_step.own) simp
  then have run: "(admit_step lru_list)\<^sup>*\<^sup>* ((?w, ex_lost), goto (AEntry 0) (ex_task 7)) ((?w, snd ex_late), fst ex_late)"
    by (rule r_into_rtranclp)
  obtain e where e: "cells (gate_heap ex_allowed) 0 = Some e" using ex_allowed_entry by auto
  have t: "empty_handed (dom (cells (gate_heap ex_allowed))) (goto (AEntry 0) (ex_task 7))"
    by (simp add: empty_handed_def)
  have "w_pc ?w = WDropped" by simp
  from dropped_watcher_fails_closed [OF list_cache.subject_cache_axioms ex_cfg_valid ex_cfg_duration
      ex_allowed_reachable drop ex_open_pc this t run] e
  show ?thesis by blast
qed

text \<open>A rebuild is published, an eviction makes the next one due, and it follows.\<close>

definition ex_rebuilt :: "((nat, subject_slot) lru_list, nat, string) gate" where
  "ex_rebuilt = the (republish_if_due lru_list 100 (mark_dirty ex_allowed))"

definition ex_dirty :: "((nat, subject_slot) lru_list, nat, string) gate" where
  "ex_dirty = refresh_entry lru_list (\<lambda>_. 2000) 8 99 True ex_rebuilt"

definition ex_rebuilt_again :: "((nat, subject_slot) lru_list, nat, string) gate" where
  "ex_rebuilt_again = the (republish_if_due lru_list 2000 ex_dirty)"

lemma ex_reports:
  "length (metrics ex_allowed) = 3" "length (metrics ex_dirty) = 4"
  "map_option (length \<circ> metrics) (republish_if_due lru_list 100 (mark_dirty ex_allowed)) = Some 4"
  "map_option (length \<circ> metrics) (republish_if_due lru_list 2000 ex_dirty) = Some 5"
  by code_simp+

theorem rebuilds_are_spaced_witness:
  "100 + int (snapshot_republish_interval (config (mark_dirty ex_allowed))) \<le> (2000 :: instant)"
proof -
  have run: "(sys_step lru_list)\<^sup>*\<^sup>* (fst ex_open, ex_rebuilt) (fst ex_open, ex_dirty)"
    unfolding ex_dirty_def by (intro r_into_rtranclp sys_step.client gate_step.refresh)
  have 1: "republish_if_due lru_list 100 (mark_dirty ex_allowed) = Some ex_rebuilt"
    and 2: "republish_if_due lru_list 2000 ex_dirty = Some ex_rebuilt_again"
    unfolding ex_rebuilt_def ex_rebuilt_again_def using ex_reports(3,4) by auto
  have "length (metrics ex_rebuilt) = 4" "length (metrics ex_rebuilt_again) = 5"
    "length (metrics (mark_dirty ex_allowed)) = 3"
    using ex_reports 1 2 by (simp_all add: mark_dirty_def)
  then have "metrics ex_rebuilt \<noteq> metrics (mark_dirty ex_allowed)" "metrics ex_rebuilt_again \<noteq> metrics ex_dirty"
    using ex_reports(2) by auto
  from rebuilds_are_spaced [OF 1 this(1) run 2 this(2)] show ?thesis .
qed

theorem reachable_state_typed_witness:
  "map_inv lru_list_valid lru_list (sm_entries (subjects (snd ex_two))) (gate_heap (snd ex_two))
    \<and> ran (snapshot (snd ex_two)) \<subseteq> dom (cells (gate_heap (snd ex_two)))
    \<and> list_all (fetch_issued (gate_heap (snd ex_two))) (refresh_queue (snd ex_two) @ w_refreshes (w_pc (fst ex_open)))"
  by (rule reachable_state_typed [OF list_cache.subject_cache_axioms ex_cfg_valid ex_cfg_duration ex_two_reachable])

text \<open>Subject 9 is admitted into the cache that holds the subjects 8 and 7.\<close>

definition ex_cache_view where
  "ex_cache_view g =
     (lru_iter lru_list (sm_entries (subjects g)), max_subjects (config g),
      map (slot_idle (ttl_ticks (subjects g)) 20)
        [\<lparr> slot_entry = 5, last_touched = 10 \<rparr>, \<lparr> slot_entry = 0, last_touched = 2 \<rparr>],
      map_tick (subjects g) 20, fst (admit_lookup lru_list 9 20 g))"

lemma ex_two_cache:
  "ex_cache_view (snd ex_two) =
   ([(8, \<lparr> slot_entry = 5, last_touched = 10 \<rparr>), (7, \<lparr> slot_entry = 0, last_touched = 2 \<rparr>)], 2,
    [False, False], 20, 9)"
  by code_simp

theorem capacity_evicts_least_recent_witness:
  "\<exists>g'. admit_lookup lru_list 9 20 (snd ex_two) = (9, g')
    \<and> lru_iter lru_list (sm_entries (subjects g')) =
        [(9, \<lparr> slot_entry = 9, last_touched = 20 \<rparr>), (8, \<lparr> slot_entry = 5, last_touched = 10 \<rparr>)]
    \<and> map_option current_state (cells (gate_heap g') 9) = Some EPending
    \<and> map_option current_state (cells (gate_heap g') 0) = Some EStale
    \<and> cells (gate_heap g') 5 = cells (gate_heap (snd ex_two)) 5"
proof -
  note V = ex_two_cache [unfolded ex_cache_view_def prod.inject]
  have inv: "gate_inv lru_list_valid lru_list (snd ex_two)"
    using list_cache.reachable_inv [OF ex_two_reachable ex_cfg_valid ex_cfg_duration] by simp
  obtain g' where r: "admit_lookup lru_list 9 20 (snd ex_two) = (9, g')"
    using V by (metis prod.collapse)
  let ?ps = "[(8 :: nat, \<lparr> slot_entry = 5, last_touched = 10 \<rparr> :: subject_slot)]"
    and ?s = "\<lparr> slot_entry = 0, last_touched = 2 \<rparr> :: subject_slot"
  have "lru_iter lru_list (sm_entries (subjects (snd ex_two))) = ?ps @ [(7, ?s)]"
    "length ?ps + 1 = max_subjects (config (snd ex_two))" "9 \<notin> fst ` set (?ps @ [(7, ?s)])"
    "\<forall>p \<in> set (?ps @ [(7, ?s)]). \<not> slot_idle (ttl_ticks (subjects (snd ex_two)))
      (map_tick (subjects (snd ex_two)) 20) (snd p)"
    using V by simp_all
  from capacity_evicts_least_recent [OF list_cache.subject_cache_axioms inv this r] V r show ?thesis by simp
qed

end
