(* ===== verification/Failures.thy ===== *)
theory Failures
  imports Tonic_Source Effects Scenario
begin

text \<open>
  How a failed call to the authority reaches the gate: the status of the gRPC call is
  classified by the tonic adapter (\<open>source_error\<close> in \<open>src/src/tonic_source.rs\<close>), the
  lookup applies the failure to the subject's entry and the admissions that joined it act on
  it (\<open>apply_fetch_result\<close> and \<open>admit\<close> in \<open>src/src/gate.rs\<close>).
\<close>

section \<open>Classification\<close>

definition permanent_codes :: "grpc_code set" where
  "permanent_codes =
     {GNotFound, GInvalidArgument, GPermissionDenied, GUnauthenticated, GUnimplemented, GDataLoss}"

lemma status_permanent:
  "is_permanent_status (source_error_of status_text status) \<longleftrightarrow> st_code status \<in> permanent_codes"
  by (cases "st_code status") (simp_all add: source_error_of_def is_permanent_status_def permanent_codes_def)

section \<open>What the gate does with it\<close>

text \<open>The failure of a first lookup, applied to the entry whose lookup it is.\<close>

lemma run_failed_fetch:
  assumes "gate_inv valid L g" and e: "cells (gate_heap g) ea = Some e" "current_state e = EPending" "pending e = Some f"
  shows "run_fetch L clk f (LookupReturned (Inl err)) g =
    map_option (\<lambda>g. (Some (Inl err), log UnaryFailure (if kind err = Wire then log WireFailure g else g)))
      (let g = log UnaryCall g in
       if is_permanent_status err
       then Some (set_heap (apply_permanent_failure (config g) (clk 3) (fetch_subject (deref f)) ea
              (generation (deref f)) (gate_heap g)) g)
       else let (removed, m) = map_remove_if L (fetch_subject (deref f)) (clk 3)
                  (fail_pending ea (generation (deref f))) (subjects g)
            in republish_if_due L (clk 4) (if removed then mark_dirty (g\<lparr>subjects := m\<rparr>) else g\<lparr>subjects := m\<rparr>))"
proof -
  note P = pending_entry_fetch [OF gate_invD(2) [OF assms(1)] e]
  have "pending_generation e (generation (deref f)) = Some f"
    using e(3) by (simp add: pending_generation_def)
  with P e show ?thesis
    by (simp add: run_fetch_def apply_fetch_result_def prepare_result_def lookup_result_def Let_def log_def
        eval_nat_numeral map_conv_bind_option o_def split: prod.split)
qed

lemma failed_pending_holds:
  assumes "cells h ea = Some e" "current_state e = EPending" "pending e = Some f"
  shows "fst (fail_pending ea (generation (deref f)) ea h)"
  using assms by (simp add: fail_pending_def with_entry_heap [OF assms(1)] pending_generation_def
      compare_exchange_quiet split: sum.split)

context subject_cache
begin

lemma failed_fetch_effect:
  assumes inv: "gate_inv valid L g" and s: "(k, s) \<in> set (lru_iter L (sm_entries (subjects g)))"
    and e: "cells (gate_heap g) (slot_entry s) = Some e" "current_state e = EPending" "pending e = Some f"
    and k: "fetch_subject (deref f) = k"
    and active: "\<not> slot_idle (ttl_ticks (subjects g)) (map_tick (subjects g) (clk 3)) s"
    and r: "run_fetch L clk f (LookupReturned (Inl err)) g = Some (r, g')"
  shows "r = Some (Inl err)" and "connected g' = connected g"
    and "\<exists>e'. cells (gate_heap g') (slot_entry s) = Some e' \<and>
      (if is_permanent_status err
       then current_state e' = EPending \<and> (\<forall>now. \<not> is_expired_at e' (current_word e') now)
         \<and> map_option (fetch_delay \<circ> deref) (pending e') = Some (Some (permanent_failure_cooldown (config g)))
         \<and> pending e' \<noteq> Some f
         \<and> lru_iter L (sm_entries (subjects g')) = lru_iter L (sm_entries (subjects g))
       else retired e' \<and> lru_peek L k (sm_entries (subjects g')) = None)"
proof -
  note R = run_failed_fetch [OF inv e, of clk err, unfolded r, symmetric]
  then show "r = Some (Inl err)" by (auto simp: Let_def split: if_splits prod.splits)
  show "connected g' = connected g" using run_fetch_same_watch [OF r] by (simp add: same_watch_def)
  note P = pending_entry_fetch [OF gate_invD(2) [OF inv] e]
  show "\<exists>e'. cells (gate_heap g') (slot_entry s) = Some e' \<and>
      (if is_permanent_status err
       then current_state e' = EPending \<and> (\<forall>now. \<not> is_expired_at e' (current_word e') now)
         \<and> map_option (fetch_delay \<circ> deref) (pending e') = Some (Some (permanent_failure_cooldown (config g)))
         \<and> pending e' \<noteq> Some f
         \<and> lru_iter L (sm_entries (subjects g')) = lru_iter L (sm_entries (subjects g))
       else retired e' \<and> lru_peek L k (sm_entries (subjects g')) = None)"
  proof (cases "is_permanent_status err")
    case True
    have gen: "pending_generation e (generation (deref f)) \<noteq> None" by (simp add: pending_generation_def e(3))
    from R True have g': "gate_heap g' = apply_permanent_failure (config g) (clk 3) k (slot_entry s)
        (generation (deref f)) (gate_heap g)" "sm_entries (subjects g') = sm_entries (subjects g)"
      by (auto simp: Let_def set_heap_def log_def k)
    then show ?thesis
      using P e True apply_permanent_failure_eq [OF e(1) gen, of "config g" "clk 3" k]
      by (auto simp: is_expired_at_def entry_tick_def)
  next
    case False
    let ?g = "log UnaryCall g"
    obtain removed m where rm: "map_remove_if L k (clk 3) (fail_pending (slot_entry s) (generation (deref f)))
        (subjects g) = (removed, m)" by fastforce
    have holds: "fst (fail_pending (slot_entry s) (generation (deref f)) (slot_entry s) h)"
      if "cells h (slot_entry s) = cells (gate_heap g) (slot_entry s)" for h
      using failed_pending_holds that e by simp
    note E = remove_if_effect [OF gate_invD(1) [OF inv] fail_action.entry_action_axioms s active _ rm, OF holds]
    from R False rm obtain g1 where g1: "republish_if_due L (clk 4)
        (if removed then mark_dirty (?g\<lparr>subjects := m\<rparr>) else ?g\<lparr>subjects := m\<rparr>) = Some g1"
      "subjects g' = subjects g1"
      by (auto simp: Let_def k log_def split: if_splits)
    from republish_subjects [OF g1(1)] E g1(2) False show ?thesis
      by (auto simp: mark_dirty_def split: if_splits)
  qed
qed

end

lemma observe_failed:
  assumes "cells (gate_heap g) ea = Some e" "current_state e \<in> {EPending, EStale}"
    and "current_state e = EPending \<longrightarrow> \<not> is_expired_at e (current_word e) now"
  shows "fst (observe_state now ea g) \<in> {EPending, EStale}" "connected (snd (observe_state now ea g)) = connected g"
  using assms by (auto simp: observe_state_def with_entry_heap [OF assms(1)] state_at_eq set_heap_def)

lemma admit_joined_failed:
  assumes "connected g" "fst (observe_state (clk 0) ea g) \<in> {EPending, EStale}"
  shows "at_pc (fst (admit_joined clk sent ea (Inl err) (t, g))) =
    (if is_permanent_status err then ADone None else ABackoff (instant_checked_add (clk 1) (at_retry_delay t)))"
  using assms by (auto simp: admit_joined_def Let_def case_prod_beta)

text \<open>
  C39: how a failed call to the authority ends. When a subject's first lookup fails with one of
  the six statuses that say the request can never succeed, the subject stays tracked and
  pending, a retry delayed by the configured cooldown takes the place of the lookup, and an
  admission that had joined it gives up at once. After any other status the subject is
  forgotten, its entry is stale with nothing in flight, and the admission retries after its
  backoff delay.
\<close>

theorem failed_call_ends_lookup:
  assumes "subject_cache L valid" "gate_inv valid L g" "connected g"
    and "(k, s) \<in> set (lru_iter L (sm_entries (subjects g)))"
    and "\<not> slot_idle (ttl_ticks (subjects g)) (map_tick (subjects g) (clk 3)) s"
    and "cells (gate_heap g) (slot_entry s) = Some e" "current_state e = EPending" "pending e = Some f"
    and "fetch_subject (deref f) = k"
    and "run_fetch L clk f (LookupReturned (Inl (source_error_of status_text status))) g = Some (r, g')"
  shows "\<exists>e'. cells (gate_heap g') (slot_entry s) = Some e'
    \<and> (if st_code status \<in> {GNotFound, GInvalidArgument, GPermissionDenied, GUnauthenticated,
             GUnimplemented, GDataLoss}
       then current_state e' = EPending \<and> pending e' \<noteq> Some f
         \<and> map_option (fetch_delay \<circ> deref) (pending e') = Some (Some (permanent_failure_cooldown (config g)))
         \<and> lru_iter L (sm_entries (subjects g')) = lru_iter L (sm_entries (subjects g))
         \<and> at_pc (fst (admit_joined clk' sent (slot_entry s)
               (Inl (source_error_of status_text status)) (t, g'))) = ADone None
       else current_state e' = EStale \<and> pending e' = None \<and> lru_peek L k (sm_entries (subjects g')) = None
         \<and> at_pc (fst (admit_joined clk' sent (slot_entry s)
               (Inl (source_error_of status_text status)) (t, g'))) =
             ABackoff (instant_checked_add (clk' 1) (at_retry_delay t)))"
proof -
  let ?err = "source_error_of status_text status"
  note F = subject_cache.failed_fetch_effect [OF assms(1,2,4,6-9,5,10)]
  from F(3) obtain e' where e': "cells (gate_heap g') (slot_entry s) = Some e'"
    "current_state e' \<in> {EPending, EStale}"
    "current_state e' = EPending \<longrightarrow> \<not> is_expired_at e' (current_word e') (clk' 0)"
    by (fastforce simp: retired_def split: if_splits)
  from admit_joined_failed [of g' clk' "slot_entry s" sent ?err t] observe_failed(1) [OF e'] assms(3) F(2)
  show ?thesis using F(3) e'(1)
    by (auto simp: status_permanent permanent_codes_def [symmetric] retired_def)
qed

text \<open>The pending lookup of subject 7 fails with \<open>NOT_FOUND\<close>.\<close>

definition ex_status :: grpc_status where
  "ex_status = \<lparr> st_code = GNotFound, st_message = ''no such scope'' \<rparr>"

definition ex_failed where
  "ex_failed = the (run_fetch lru_list (\<lambda>_. 3) ex_fetch
     (LookupReturned (Inl (source_error_of st_message ex_status))) (snd ex_admitted))"

text \<open>What the property reads of the state before the failure, evaluated once.\<close>

definition ex_pending_view where
  "ex_pending_view g = (connected g, lru_iter lru_list (sm_entries (subjects g)),
     slot_idle (ttl_ticks (subjects g)) (map_tick (subjects g) 3) \<lparr> slot_entry = 0, last_touched = 2 \<rparr>,
     map_option current_state (cells (gate_heap g) 0),
     case run_fetch lru_list (\<lambda>_. 3) ex_fetch
       (LookupReturned (Inl (source_error_of st_message ex_status))) g of None \<Rightarrow> False | Some _ \<Rightarrow> True)"

lemma ex_pending_facts:
  "ex_pending_view (snd ex_admitted) =
     (True, [(7, \<lparr> slot_entry = 0, last_touched = 2 \<rparr>)], False, Some EPending, True)"
  by code_simp

theorem failed_call_ends_lookup_witness:
  "\<exists>e'. cells (gate_heap (snd ex_failed)) 0 = Some e' \<and> current_state e' = EPending \<and> pending e' \<noteq> Some ex_fetch
     \<and> map_option (fetch_delay \<circ> deref) (pending e') = Some (Some (permanent_failure_cooldown (config (snd ex_admitted))))
     \<and> lru_iter lru_list (sm_entries (subjects (snd ex_failed))) = lru_iter lru_list (sm_entries (subjects (snd ex_admitted)))
     \<and> at_pc (fst (admit_joined (\<lambda>_. 3) True 0 (Inl (source_error_of st_message ex_status)) (ex_task 7, snd ex_failed))) =
         ADone None"
proof -
  let ?s = "\<lparr> slot_entry = 0, last_touched = 2 \<rparr> :: subject_slot" and ?g = "snd ex_admitted"
  note V = ex_pending_facts [unfolded ex_pending_view_def prod.inject]
  have inv: "gate_inv lru_list_valid lru_list ?g"
    using list_cache.reachable_inv [OF ex_admitted_reachable ex_cfg_valid ex_cfg_duration] by simp
  obtain e where e: "cells (gate_heap ?g) 0 = Some e" "pending e = Some ex_fetch" "current_state e = EPending"
    using ex_fetch_pending V by (cases "cells (gate_heap ?g) 0") auto
  have run: "run_fetch lru_list (\<lambda>_. 3) ex_fetch
      (LookupReturned (Inl (source_error_of st_message ex_status))) ?g = Some (fst ex_failed, snd ex_failed)"
    unfolding ex_failed_def prod.collapse by (rule some_the) (use V in simp)
  have "(7, ?s) \<in> set (lru_iter lru_list (sm_entries (subjects ?g)))"
    "\<not> slot_idle (ttl_ticks (subjects ?g)) (map_tick (subjects ?g) 3) ?s" "connected ?g"
    using V by simp_all
  from failed_call_ends_lookup [OF list_cache.subject_cache_axioms inv this(3,1,2) _ e(3,2) _ run,
      where clk' = "\<lambda>_. 3" and sent = True and t = "ex_task 7"] e(1)
  show ?thesis by (simp add: ex_fetch_def ex_status_def)
qed

end
