(* ===== verification/Denial.thy ===== *)
theory Denial
  imports Transport_Scenario Tonic_Source Effects
begin

text \<open>
  A denial from the wire to the open streams: the adapter's watch stream (theory
  \<open>Tonic_Source\<close>), the watch loop, the shared gate state and the stream wrapper composed.
\<close>

lemma denial_decoded:
  assumes "enumeration (cd_try_from cd)"
    and "poll (str_inner S) = (Some (Some (Inr m)), st)" "chg_scope m = str_scope S"
    and "cd_from_str cd (chg_subject_id m) = Some k" "chg_decision m = proto_code PDenied"
  shows "fst (stream_poll_next poll cd S) =
    Some (Some (Inr \<lparr> change_subject = k, change_decision = Some DDenied \<rparr>))"
  using assms(2-) decode_change_Inr [OF assms(1), of "cd_from_str cd" m "str_scope S"
      "\<lparr> change_subject = k, change_decision = Some DDenied \<rparr>"]
  by (simp add: stream_poll_next_def)

lemma watch_item_change:
  assumes "watch_item L clk rng (Some (Inr ch)) timer settled refreshes (w, g) = Some (w', g')"
  shows "\<exists>g1. apply_change L clk ch g = Some g1 \<and> gate_heap g' = gate_heap g1"
  using assms by (auto simp: watch_item_def Let_def log_def split: Option.bind_splits if_splits)


text \<open>The authority denies subject 7, whose response is streaming and whose refresh is in flight.\<close>

definition dn_codec :: "nat codec" where
  "dn_codec = \<lparr> cd_display = (\<lambda>n. replicate n CHR ''1''), cd_from_str = (\<lambda>s. Some (length s)),
     cd_try_from = listed_try_from, cd_status_text = st_message \<rparr>"

definition dn_message :: subject_decision_change where
  "dn_message = \<lparr> chg_subject_id = ''1111111'', chg_decision = 2, chg_scope = ''s'' \<rparr>"

definition dn_poll :: "unit \<Rightarrow> (grpc_status + subject_decision_change) option option \<times> unit" where
  "dn_poll s = (Some (Some (Inr dn_message)), s)"

definition dn_changes :: "unit tonic_stream" where
  "dn_changes = \<lparr> str_inner = (), str_scope = ''s'' \<rparr>"

definition dn_handled where
  "dn_handled = the (watch_item lru_list (\<lambda>_. 72) 0 (Some (Inr ex_denial)) None False [] (fst ex_open, ex_refreshing))"

lemma dn_handled_item:
  "watch_item lru_list (\<lambda>_. 72) 0 (Some (Inr ex_denial)) None False [] (fst ex_open, ex_refreshing) =
    Some (fst dn_handled, snd dn_handled)"
proof -
  obtain g where "apply_change lru_list (\<lambda>_. 72) ex_denial ex_refreshing = Some g"
    using ex_view_facts by (simp split: option.splits)
  then show ?thesis
    unfolding dn_handled_def prod.collapse by (intro some_the) (simp add: watch_item_def Let_def)
qed

lemma dn_item_decoded: "fst (stream_poll_next dn_poll dn_codec dn_changes) = Some (Some (Inr ex_denial))"
  by code_simp


end
