(* ===== verification/Service.thy ===== *)
theory Service
  imports Scenario Effects
begin

text \<open>
  That the gate serves: an entry with a fresh verdict gives out handles whether or not a
  refresh is due, a published one answers cached reads, and an admission that waits for a
  lookup ends with the authority's answer.
\<close>

section \<open>Access to a fresh entry\<close>

text \<open>The entry at \<open>ea\<close> has a fresh verdict at every reading of a clock.\<close>

definition fresh_throughout :: "nat \<Rightarrow> clock \<Rightarrow> decision \<Rightarrow> ('k, 'p) heap \<Rightarrow> bool" where
  "fresh_throughout ea clk d h \<longleftrightarrow> (\<forall>i. fresh ea (clk i) d h)"

lemma fresh_update:
  assumes "cells h ea = Some e" "cells h' ea = Some e'" "current e' = current e" "epoch e' = epoch e"
  shows "fresh ea now d h' = fresh ea now d h"
  using assms by (simp add: fresh_def is_expired_at_def entry_tick_def)

text \<open>The heap still holds the verdict of \<open>e\<close>; its refresh slot may differ.\<close>

definition holds_verdict :: "('k, 'p) entry \<Rightarrow> nat \<Rightarrow> ('k, 'p) heap \<Rightarrow> bool" where
  "holds_verdict e ea h \<longleftrightarrow>
     (case cells h ea of None \<Rightarrow> False | Some e' \<Rightarrow> current e' = current e \<and> epoch e' = epoch e)"

lemma holds_fresh:
  assumes "cells h ea = Some e" "holds_verdict e ea h'"
  shows "fresh ea now d h' = fresh ea now d h"
proof -
  obtain e' where "cells h' ea = Some e'" "current e' = current e" "epoch e' = epoch e"
    using assms(2) by (auto simp: holds_verdict_def split: option.splits)
  with assms(1) show ?thesis by (simp add: fresh_def is_expired_at_def entry_tick_def)
qed

lemma claim_fresh:
  assumes fresh: "fresh ea (clk 0) d h" and e: "cells h ea = Some e"
    and c: "access_claim cfg clk k ea dl h = (r, h')"
  shows "(case r of Inl admitted \<Rightarrow> admitted | Inr (refresh, cur, qd) \<Rightarrow> cur = current e)"
    and "holds_verdict e ea h'"
  using c by (auto simp: access_claim_def admission_fresh [OF fresh] e new_fetch_after_def Let_def
      holds_verdict_def split: if_splits option.splits)

lemma release_holds: "holds_verdict e ea h \<Longrightarrow> holds_verdict e ea (release_claim gen ea h)"
  by (auto simp: release_claim_def with_entry_heap replace_pending_eq holds_verdict_def split: option.splits)

lemma revalidate_fresh:
  assumes e: "holds_verdict e ea h" and fresh: "fresh ea (clk 1) d h"
    and r: "access_revalidate clk ea refresh (current e) h = (answer, h')"
  shows "answer \<in> {None, Some True}" and "holds_verdict e ea h'"
proof -
  let ?h = "h\<lparr>next_addr := Suc (next_addr h)\<rparr>"
  have h: "holds_verdict e ea ?h" using e by (simp add: holds_verdict_def)
  obtain e' where e': "cells h ea = Some e'" "current e' = current e"
    using e by (auto simp: holds_verdict_def split: option.splits)
  with r have "answer \<in> {None, Some True} \<and>
      h' \<in> {h, release_claim (generation (deref refresh)) ea ?h}"
    by (auto simp: access_revalidate_def admission_fresh [OF fresh] simp del: One_nat_def split: if_splits)
  with e release_holds [OF h] show "answer \<in> {None, Some True}" "holds_verdict e ea h'" by auto
qed

lemma finish_fresh:
  assumes e: "holds_verdict e ea (gate_heap g)" and fresh: "fresh ea (clk 0) d (gate_heap g)"
    and r: "access_finish clk ea refresh sent g = (admitted, g')"
  shows "admitted" and "holds_verdict e ea (gate_heap g')"
proof -
  let ?h = "(gate_heap g)\<lparr>next_addr := Suc (next_addr (gate_heap g))\<rparr>"
  let ?queued = "sent \<and> length (refresh_queue g) < refresh_queue_capacity (config g)"
  have h: "holds_verdict e ea ?h" using e by (simp add: holds_verdict_def)
  have heap: "gate_heap (if ?queued then g\<lparr>refresh_queue := q\<rparr> else g) = gate_heap g" for q
    by simp
  from r have "admitted"
    "gate_heap g' = (if ?queued then ?h else release_claim (generation (deref refresh)) ea ?h)"
    by (auto simp: access_finish_def Let_def set_heap_def heap admission_fresh [OF fresh])
  with h release_holds [OF h] show "admitted" "holds_verdict e ea (gate_heap g')" by simp_all
qed

lemma access_fresh:
  assumes fresh: "fresh_throughout ea clk d (gate_heap g)" and e: "cells (gate_heap g) ea = Some e"
    and r: "admission_on_access clk k ea dl sent g = (admitted, g')"
  shows "admitted \<and> holds_verdict e ea (gate_heap g')"
proof -
  obtain claim h where c: "access_claim (config g) clk k ea dl (gate_heap g) = (claim, h)" by fastforce
  have "fresh ea (clk 0) d (gate_heap g)" using fresh by (simp add: fresh_throughout_def)
  note C = claim_fresh [where clk = clk, OF this e c]
  have later: "fresh ea (clk i) d h'" if "holds_verdict e ea h'" for i h'
    using holds_fresh [OF e that] fresh by (simp add: fresh_throughout_def)
  show ?thesis
  proof (cases claim)
    case (Inl b)
    with r C c show ?thesis by (auto simp: admission_on_access_def set_heap_def)
  next
    case (Inr x)
    with C(1) obtain refresh qd where x: "claim = Inr (refresh, current e, qd)" by (cases x) auto
    obtain answer h2 where v: "access_revalidate (\<lambda>i. clk (i + 2)) ea refresh (current e) h = (answer, h2)"
      by fastforce
    note V = revalidate_fresh [where clk = "\<lambda>i. clk (i + 2)", OF C(2) later [OF C(2)] v]
    show ?thesis
    proof (cases answer)
      case None
      with r c x v have "access_finish (\<lambda>i. clk (i + 3)) ea refresh sent (set_heap h2 g) = (admitted, g')"
        by (simp add: admission_on_access_def)
      moreover have "holds_verdict e ea (gate_heap (set_heap h2 g))" using V(2) by (simp add: set_heap_def)
      ultimately show ?thesis
        using finish_fresh [where clk = "\<lambda>i. clk (i + 3)", OF _ later] by blast
    next
      case (Some b)
      with r c x v V show ?thesis by (auto simp: admission_on_access_def set_heap_def)
    qed
  qed
qed

section \<open>Cached reads\<close>

context subject_cache
begin

lemma check_served:
  assumes inv: "gate_inv valid L g" and snap: "snapshot g k = Some ea"
    and e: "cells (gate_heap g) ea = Some e" and fresh: "fresh_throughout ea clk d (gate_heap g)"
  shows "\<exists>g'. gate_check L clk k sent g = (Some ea, g') \<and> holds_verdict e ea (gate_heap g')"
proof -
  let ?h = "gate_heap g"
  let ?m = "(subjects g)\<lparr>sm_heap := ?h\<lparr>next_addr := Suc (next_addr ?h)\<rparr>\<rparr>"
  have now: "fresh ea (clk i) d ?h" for i using fresh by (simp add: fresh_throughout_def)
  have inv1: "subjects_inv valid L ?m"
    using map_inv_bump [OF gate_invD(1) [OF inv], of "Suc (next_addr ?h)"] by simp
  obtain matched m' where touch: "map_touch L k ea (clk 1) ?m = (matched, m')" by fastforce
  from snapshot_slot [OF inv snap now] have "(k, ea) \<in> slot_pairs L (sm_entries ?m)" by simp
  from map_touch_hit(3) [OF inv1 this touch] have cell: "cells (sm_heap m') ea = cells ?h ea" by simp
  obtain admitted g' where a: "admission_on_access (\<lambda>i. clk (i + 2)) k ea None sent (g\<lparr>subjects := m'\<rparr>) =
      (admitted, g')" by fastforce
  have "fresh_throughout ea (\<lambda>i. clk (i + 2)) d (gate_heap (g\<lparr>subjects := m'\<rparr>))"
    using now fresh_cong [OF cell] by (simp add: fresh_throughout_def)
  from access_fresh [OF this _ a] cell e have "admitted" "holds_verdict e ea (gate_heap g')" by simp_all
  with a touch show ?thesis
    by (simp add: gate_check_def snap verdict_at_fresh [OF now] set_heap_def del: One_nat_def)
qed

end

text \<open>
  C36: a cached verdict is served. When the published snapshot holds an entry with a verdict
  that is fresh at the readings of the call, a cached read returns that entry and leaves its
  verdict alone, whether a refresh is due or not, and whether the refresh queue takes it,
  refuses it or times out.
\<close>

theorem cached_verdict_served:
  assumes "subject_cache L valid" "gate_inv valid L g"
    and "snapshot g k = Some ea" "cells (gate_heap g) ea = Some e"
    and "\<forall>i. fresh ea (clk i) d (gate_heap g)"
  shows "\<exists>g' e'. gate_check L clk k sent g = (Some ea, g')
    \<and> cells (gate_heap g') ea = Some e' \<and> current e' = current e"
  using subject_cache.check_served [OF assms(1-4), of clk d sent] assms(5)
  by (auto simp: fresh_throughout_def holds_verdict_def split: option.splits)

section \<open>Answered lookups\<close>

text \<open>The entry once its first lookup is answered.\<close>

definition answered :: "policy_gate_config \<Rightarrow> instant \<Rightarrow> 'p decision_result \<Rightarrow> nat \<Rightarrow> ('k, 'p) entry \<Rightarrow> ('k, 'p) entry" where
  "answered cfg now res a e = e\<lparr>current := Arc a (decision_snapshot cfg now e res), pending := None\<rparr>"

lemma run_answered_fetch:
  assumes "gate_inv valid L g" and e: "cells (gate_heap g) ea = Some e" "current_state e = EPending" "pending e = Some f"
    and valid: "case valid_until res of None \<Rightarrow> True | Some u \<Rightarrow> clk 0 < u"
    and prepared: "\<not> is_expired_at e (snap_word (decision_snapshot (config g) (clk 1) e res)) (clk 2)"
  shows "\<exists>g'. run_fetch L clk f (LookupReturned (Inr (Some res))) g = Some (Some (Inr ()), g')
    \<and> cells (gate_heap g') ea = Some (answered (config g) (clk 1) res (next_addr (gate_heap g)) e)"
proof -
  note P = pending_entry_fetch [OF gate_invD(2) [OF assms(1)] e]
  have gen: "pending_generation e (generation (deref f)) = Some f"
    using e(3) by (simp add: pending_generation_def)
  have "lookup_result (clk 0) (LookupReturned (Inr (Some res))) = Inr res"
    using valid by (auto simp: lookup_result_def split: option.splits)
  moreover have "prepare_result (config g) (\<lambda>i. clk (Suc i)) e (Inr res) =
      Inr (decision_snapshot (config g) (clk 1) e res)"
    using prepared by (simp add: prepare_result_def Let_def numeral_2_eq_2)
  ultimately show ?thesis
    using P e gen apply_verdict_eq [of e "generation (deref f)"]
    by (simp add: run_fetch_def apply_fetch_result_def with_entry_heap [OF e(1)] log_def Let_def
        set_heap_def answered_def)
qed

lemma joined_fresh:
  assumes fresh: "\<forall>i. fresh ea (clk i) d (gate_heap g)" and e: "cells (gate_heap g) ea = Some e"
    and conn: "connected g" and st: "current_state e = entry_state_of d"
  shows "\<exists>g'. admit_joined clk sent ea (Inr ()) (t, g) = (goto (ADone (Some ea)) t, g')
    \<and> holds_verdict e ea (gate_heap g')"
proof -
  have now: "\<not> is_expired_at e (current_word e) (clk i)" for i
    using fresh e by (auto simp: fresh_def)
  then have o: "observe_state (clk 0) ea g = (current_state e,
      set_heap ((gate_heap g)\<lparr>next_addr := Suc (next_addr (gate_heap g))\<rparr>) g)"
    using e by (simp add: observe_state_def with_entry_heap [OF e] state_at_eq expire_fresh fun_upd_idem)
  define g1 where "g1 = set_heap ((gate_heap g)\<lparr>next_addr := Suc (next_addr (gate_heap g))\<rparr>) g"
  obtain admitted g' where a: "admission_on_access (\<lambda>i. clk (i + 1)) (at_subject t) ea (Some (at_deadline t)) sent g1 =
      (admitted, g')" by fastforce
  have c: "cells (gate_heap g1) ea = Some e" using e by (simp add: g1_def set_heap_def)
  have "fresh_throughout ea (\<lambda>i. clk (i + 1)) d (gate_heap g1)"
    using now c st by (simp add: fresh_throughout_def fresh_def)
  from access_fresh [OF this c a] a conn st o show ?thesis
    by (cases d) (simp_all add: admit_joined_def admit_access_def g1_def [symmetric])
qed

text \<open>
  C7: an admission whose subject the authority decides returns that decision. The poll of an
  admission that has published a pending entry joins the entry's lookup; when the lookup
  answers with a decision that is still valid, it becomes the entry's, with its payload if
  it allows; and the next poll returns the entry's handle, provided only that the admission
  is still before its deadline and the decision has not expired at the readings of the polls.
\<close>

theorem answered_lookup_admits:
  assumes "subject_cache L valid" "gate_inv valid L g" "connected g"
    and "cells (gate_heap g) ea = Some e" "current_state e = EPending" "at_pc t = AEntry ea"
    and "in_clock inp 0 < at_deadline t" "in_clock inp' 0 < at_deadline t"
    and "in_event inp' = JFetched (Some (Inr ()))"
    and "case valid_until res of None \<Rightarrow> True | Some u \<Rightarrow> clk 0 < u"
    and "\<forall>now \<in> insert (clk 2) (range (in_clock inp')).
      \<not> is_expired_at e (snap_word (decision_snapshot (config g) (clk 1) e res)) now"
  shows "\<exists>f g1 g2 t' g3 e'. admit_poll L inp (t, g) = Some (goto (AJoin ea f) t, g1)
    \<and> run_fetch L clk f (LookupReturned (Inr (Some res))) g1 = Some (Some (Inr ()), g2)
    \<and> admit_poll L inp' (goto (AJoin ea f) t, g2) = Some (t', g3) \<and> at_pc t' = ADone (Some ea)
    \<and> cells (gate_heap g3) ea = Some e' \<and> current_state e' = entry_state_of (decision res)
    \<and> snap_payload (deref (current e')) = (if decision res = DAllowed then payload res else None)"
proof -
  let ?snap = "decision_snapshot (config g) (clk 1) e res"
  obtain f g1 where join: "admit_poll L inp (t, g) = Some (goto (AJoin ea f) t, g1)" "pending e = Some f"
    "cells (gate_heap g1) ea = Some e"
    using admit_join_poll [OF assms(2,4-6,3,7)] assms(4) by auto
  have inv: "gate_inv valid L g1" using subject_cache.admit_poll_keeps [OF assms(1,2) join(1)] by simp
  have cfg: "config g1 = config g" "connected g1"
    using admit_poll_same_watch [OF join(1)] assms(3) by (simp_all add: same_watch_def)
  from run_answered_fetch [where clk = clk, OF inv join(3) assms(5) join(2) assms(10)] assms(11) obtain g2 a where
    run: "run_fetch L clk f (LookupReturned (Inr (Some res))) g1 = Some (Some (Inr ()), g2)"
    "cells (gate_heap g2) ea = Some (e\<lparr>current := Arc a ?snap, pending := None\<rparr>)"
    by (auto simp: cfg answered_def)
  let ?e = "e\<lparr>current := Arc a ?snap, pending := None\<rparr>"
  have "connected g2" using run_fetch_same_watch [OF run(1)] cfg by (simp add: same_watch_def)
  moreover have "\<forall>i. fresh ea (in_clock inp' (i + 1)) (decision res) (gate_heap g2)"
    using assms(11) by (simp add: fresh_def run(2) is_expired_at_def entry_tick_def)
  ultimately obtain g3 where
    "admit_joined (\<lambda>i. in_clock inp' (i + 1)) (in_sent inp') ea (Inr ()) (goto (AJoin ea f) t, g2) =
      (goto (ADone (Some ea)) (goto (AJoin ea f) t), g3)" "holds_verdict ?e ea (gate_heap g3)"
    using joined_fresh [OF _ run(2), of "\<lambda>i. in_clock inp' (i + 1)" "decision res" "in_sent inp'"
        "goto (AJoin ea f) t"] by auto
  with join(1) run(1) assms(8,9) show ?thesis
    by (auto simp: admit_poll_def holds_verdict_def decision_snapshot_def Let_def split: option.splits)
qed

section \<open>Witnesses\<close>

text \<open>The entry of subject 7 is published and read inside its refresh window.\<close>

definition ex_published :: "((nat, subject_slot) lru_list, nat, string) gate" where
  "ex_published = the (republish_if_due lru_list 60 (mark_dirty ex_allowed))"

definition ex_published_view where
  "ex_published_view g = (snapshot g 7, cells (gate_heap g) 0)"

lemma ex_published_facts:
  "map_option ex_published_view (republish_if_due lru_list 60 (mark_dirty ex_allowed)) =
    Some (Some 0, Some (ex_entry\<lparr>pending := None\<rparr>))"
  by code_simp

lemma ex_entry_due:
  "refresh_eligible_at ex_entry (deref (current ex_entry)) 70 \<and> \<not> is_expired_at ex_entry (current_word ex_entry) 70
    \<and> current_state ex_entry = EAllowed"
  by code_simp

theorem cached_verdict_served_witness:
  "\<exists>g' e'. gate_check lru_list (\<lambda>_. 70) 7 False ex_published = (Some 0, g')
    \<and> cells (gate_heap g') 0 = Some e' \<and> current e' = ex_cur"
proof -
  have r: "republish_if_due lru_list 60 (mark_dirty ex_allowed) = Some ex_published"
    unfolding ex_published_def by (rule some_the) (use ex_published_facts in auto)
  have "gate_inv lru_list_valid lru_list ex_published"
    using republish_keeps [OF _ r] ex_reachable_inv [OF ex_allowed_reachable] by (simp add: gate_frame)
  moreover have "snapshot ex_published 7 = Some 0" "cells (gate_heap ex_published) 0 = Some (ex_entry\<lparr>pending := None\<rparr>)"
    using ex_published_facts by (simp_all add: r ex_published_view_def)
  moreover from this(2) have "\<forall>i. fresh 0 ((\<lambda>_. 70) (i::nat)) DAllowed (gate_heap ex_published)"
    using ex_entry_due by (simp add: fresh_def is_expired_at_def entry_tick_def)
  ultimately show ?thesis
    using cached_verdict_served [OF list_cache.subject_cache_axioms, where clk = "\<lambda>_. 70" and k = 7 and ea = 0
        and d = DAllowed and sent = False and e = "ex_entry\<lparr>pending := None\<rparr>"]
    by (simp add: ex_entry_def)
qed

text \<open>The first lookup of subject 7 is answered while an admission waits for it.\<close>

definition ex_answer :: "string decision_result" where
  "ex_answer = \<lparr> decision = DAllowed, payload = Some ''p'', valid_until = None \<rparr>"

definition ex_waiting where
  "ex_waiting = the (cells (gate_heap (snd ex_admitted)) 0)"

definition ex_waiting_view where
  "ex_waiting_view g = (connected g, map_option (\<lambda>e. (current_state e,
     is_expired_at e (snap_word (decision_snapshot (config g) 3 e ex_answer)) 3,
     is_expired_at e (snap_word (decision_snapshot (config g) 3 e ex_answer)) 4)) (cells (gate_heap g) 0))"

lemma ex_waiting_facts: "ex_waiting_view (snd ex_admitted) = (True, Some (EPending, False, False))"
  by code_simp

lemma ex_deadline: "4 < at_deadline (ex_task 7)"
  by code_simp

theorem answered_lookup_admits_witness:
  "\<exists>f g1 g2 t' g3 e'. admit_poll lru_list (ex_input 3) ((ex_task 7)\<lparr>at_pc := AEntry 0\<rparr>, snd ex_admitted) =
      Some (goto (AJoin 0 f) ((ex_task 7)\<lparr>at_pc := AEntry 0\<rparr>), g1)
    \<and> run_fetch lru_list (\<lambda>_. 3) f (LookupReturned (Inr (Some ex_answer))) g1 = Some (Some (Inr ()), g2)
    \<and> admit_poll lru_list ((ex_input 4)\<lparr>in_event := JFetched (Some (Inr ()))\<rparr>)
        (goto (AJoin 0 f) ((ex_task 7)\<lparr>at_pc := AEntry 0\<rparr>), g2) = Some (t', g3)
    \<and> at_pc t' = ADone (Some 0) \<and> cells (gate_heap g3) 0 = Some e' \<and> current_state e' = EAllowed
    \<and> snap_payload (deref (current e')) = Some ''p''"
proof -
  have e: "cells (gate_heap (snd ex_admitted)) 0 = Some ex_waiting"
    unfolding ex_waiting_def by (rule some_the) (use ex_waiting_facts in \<open>auto simp: ex_waiting_view_def\<close>)
  with ex_waiting_facts have V: "connected (snd ex_admitted)" "current_state ex_waiting = EPending"
    "\<not> is_expired_at ex_waiting (snap_word (decision_snapshot (config (snd ex_admitted)) 3 ex_waiting ex_answer)) 3"
    "\<not> is_expired_at ex_waiting (snap_word (decision_snapshot (config (snd ex_admitted)) 3 ex_waiting ex_answer)) 4"
    by (simp_all add: ex_waiting_view_def)
  have inv: "gate_inv lru_list_valid lru_list (snd ex_admitted)"
    using ex_reachable_inv [OF ex_admitted_reachable] by simp
  show ?thesis
    using answered_lookup_admits [OF list_cache.subject_cache_axioms inv V(1) e V(2),
        where t = "(ex_task 7)\<lparr>at_pc := AEntry 0\<rparr>" and inp = "ex_input 3"
        and inp' = "(ex_input 4)\<lparr>in_event := JFetched (Some (Inr ()))\<rparr>" and res = ex_answer
        and clk = "\<lambda>_. 3"] V(3,4) ex_deadline
    by (simp add: ex_input_def ex_answer_def)
qed

end
