(* ===== verification/Settings.thy ===== *)
theory Settings
  imports Config
begin

text \<open>
  The accessors of \<open>PolicyGateConfig\<close> (\<open>src/src/lib.rs\<close>) against the builder's setters: a
  setting is a pair of an accessor and a setter that obey the laws of a lens, different
  settings are independent, and a configuration that \<open>build\<close> returns reads back what was set.
\<close>

section \<open>Accessors\<close>

definition get_unary_timeout :: "policy_gate_config \<Rightarrow> duration" where
  "get_unary_timeout c = unary_timeout c"

definition get_admission_timeout :: "policy_gate_config \<Rightarrow> duration" where
  "get_admission_timeout c = admission_timeout c"

definition get_initial_admission_retry_delay :: "policy_gate_config \<Rightarrow> duration" where
  "get_initial_admission_retry_delay c = initial_admission_retry_delay c"

definition get_max_admission_retry_delay :: "policy_gate_config \<Rightarrow> duration" where
  "get_max_admission_retry_delay c = max_admission_retry_delay c"

definition get_permanent_failure_cooldown :: "policy_gate_config \<Rightarrow> duration" where
  "get_permanent_failure_cooldown c = permanent_failure_cooldown c"

definition get_snapshot_republish_interval :: "policy_gate_config \<Rightarrow> duration" where
  "get_snapshot_republish_interval c = snapshot_republish_interval c"

definition get_initial_reconnect_delay :: "policy_gate_config \<Rightarrow> duration" where
  "get_initial_reconnect_delay c = initial_reconnect_delay c"

definition get_max_reconnect_delay :: "policy_gate_config \<Rightarrow> duration" where
  "get_max_reconnect_delay c = max_reconnect_delay c"

definition get_watch_events_per_yield :: "policy_gate_config \<Rightarrow> nat" where
  "get_watch_events_per_yield c = watch_events_per_yield c"

definition get_max_subjects :: "policy_gate_config \<Rightarrow> nat" where
  "get_max_subjects c = max_subjects c"

definition get_subject_ttl :: "policy_gate_config \<Rightarrow> duration" where
  "get_subject_ttl c = subject_ttl c"

definition get_decision_freshness_ttl :: "policy_gate_config \<Rightarrow> duration" where
  "get_decision_freshness_ttl c = decision_freshness_ttl c"

definition get_refresh_before_expiry :: "policy_gate_config \<Rightarrow> duration" where
  "get_refresh_before_expiry c = refresh_before_expiry c"

definition get_refresh_enqueue_timeout :: "policy_gate_config \<Rightarrow> duration" where
  "get_refresh_enqueue_timeout c = refresh_enqueue_timeout c"

definition get_refresh_queue_capacity :: "policy_gate_config \<Rightarrow> nat" where
  "get_refresh_queue_capacity c = refresh_queue_capacity c"

section \<open>Settings as lenses\<close>

datatype config_field =
    FUnaryTimeout
  | FAdmissionTimeout
  | FInitialAdmissionRetryDelay
  | FMaxAdmissionRetryDelay
  | FPermanentFailureCooldown
  | FSnapshotRepublishInterval
  | FInitialReconnectDelay
  | FMaxReconnectDelay
  | FWatchEventsPerYield
  | FMaxSubjects
  | FSubjectTtl
  | FDecisionFreshnessTtl
  | FRefreshBeforeExpiry
  | FRefreshEnqueueTimeout
  | FRefreshQueueCapacity

fun config_get :: "config_field \<Rightarrow> policy_gate_config \<Rightarrow> nat" where
  "config_get FUnaryTimeout c = get_unary_timeout c"
| "config_get FAdmissionTimeout c = get_admission_timeout c"
| "config_get FInitialAdmissionRetryDelay c = get_initial_admission_retry_delay c"
| "config_get FMaxAdmissionRetryDelay c = get_max_admission_retry_delay c"
| "config_get FPermanentFailureCooldown c = get_permanent_failure_cooldown c"
| "config_get FSnapshotRepublishInterval c = get_snapshot_republish_interval c"
| "config_get FInitialReconnectDelay c = get_initial_reconnect_delay c"
| "config_get FMaxReconnectDelay c = get_max_reconnect_delay c"
| "config_get FWatchEventsPerYield c = get_watch_events_per_yield c"
| "config_get FMaxSubjects c = get_max_subjects c"
| "config_get FSubjectTtl c = get_subject_ttl c"
| "config_get FDecisionFreshnessTtl c = get_decision_freshness_ttl c"
| "config_get FRefreshBeforeExpiry c = get_refresh_before_expiry c"
| "config_get FRefreshEnqueueTimeout c = get_refresh_enqueue_timeout c"
| "config_get FRefreshQueueCapacity c = get_refresh_queue_capacity c"

fun config_set :: "config_field \<Rightarrow> nat \<Rightarrow> policy_gate_config_builder \<Rightarrow> policy_gate_config_builder" where
  "config_set FUnaryTimeout v b = set_unary_timeout v b"
| "config_set FAdmissionTimeout v b = set_admission_timeout v b"
| "config_set FInitialAdmissionRetryDelay v b = set_initial_admission_retry_delay v b"
| "config_set FMaxAdmissionRetryDelay v b = set_max_admission_retry_delay v b"
| "config_set FPermanentFailureCooldown v b = set_permanent_failure_cooldown v b"
| "config_set FSnapshotRepublishInterval v b = set_snapshot_republish_interval v b"
| "config_set FInitialReconnectDelay v b = set_initial_reconnect_delay v b"
| "config_set FMaxReconnectDelay v b = set_max_reconnect_delay v b"
| "config_set FWatchEventsPerYield v b = set_watch_events_per_yield v b"
| "config_set FMaxSubjects v b = set_max_subjects v b"
| "config_set FSubjectTtl v b = set_subject_ttl v b"
| "config_set FDecisionFreshnessTtl v b = set_decision_freshness_ttl v b"
| "config_set FRefreshBeforeExpiry v b = set_refresh_before_expiry v b"
| "config_set FRefreshEnqueueTimeout v b = set_refresh_enqueue_timeout v b"
| "config_set FRefreshQueueCapacity v b = set_refresh_queue_capacity v b"

lemmas get_defs = get_unary_timeout_def get_admission_timeout_def get_initial_admission_retry_delay_def get_max_admission_retry_delay_def get_permanent_failure_cooldown_def get_snapshot_republish_interval_def get_initial_reconnect_delay_def get_max_reconnect_delay_def get_watch_events_per_yield_def get_max_subjects_def get_subject_ttl_def get_decision_freshness_ttl_def get_refresh_before_expiry_def get_refresh_enqueue_timeout_def get_refresh_queue_capacity_def
lemmas set_defs = set_unary_timeout_def set_admission_timeout_def set_initial_admission_retry_delay_def set_max_admission_retry_delay_def set_permanent_failure_cooldown_def set_snapshot_republish_interval_def set_initial_reconnect_delay_def set_max_reconnect_delay_def set_watch_events_per_yield_def set_max_subjects_def set_subject_ttl_def set_decision_freshness_ttl_def set_refresh_before_expiry_def set_refresh_enqueue_timeout_def set_refresh_queue_capacity_def

text \<open>
  The contract of a setting: reading after setting gives the new value, and what another
  reader sees of the builder does not change.
\<close>

locale setting =
  fixes get :: "'f \<Rightarrow> 's \<Rightarrow> 'v" and put :: "'f \<Rightarrow> 'v \<Rightarrow> 's \<Rightarrow> 's"
  assumes get_put: "get f (put f v s) = v"
    and get_put_other: "f \<noteq> f' \<Longrightarrow> get f (put f' v s) = get f s"
begin

lemma get_calls:
  "get f (fold (\<lambda>(f, v). put f v) calls s) =
     (case map_of (rev calls) f of Some v \<Rightarrow> v | None \<Rightarrow> get f s)"
proof (induction calls arbitrary: s)
  case (Cons call calls)
  obtain f' v where "call = (f', v)" by fastforce
  then show ?case
    by (cases "f' = f") (simp_all add: Cons get_put get_put_other map_add_def split: option.split)
qed simp

end

interpretation config: setting "\<lambda>f b. config_get f (candidate b)" config_set
proof
  fix f f' :: config_field and v b
  show "config_get f (candidate (config_set f v b)) = v"
    by (cases f) (simp_all add: get_defs set_defs)
  show "f \<noteq> f' \<Longrightarrow> config_get f (candidate (config_set f' v b)) = config_get f (candidate b)"
    by (cases f; cases f'; simp add: get_defs set_defs)
qed

text \<open>
  C40: a configuration reads back what was set. Whatever setters are called in whatever order,
  a configuration that \<open>build\<close> returns has in every accessor the value of the last call of
  that setter, or the default when it was never called.
\<close>

theorem built_config_roundtrip:
  assumes "build now (fold (\<lambda>(f, v). config_set f v) calls builder) = Inr cfg"
  shows "config_get f cfg =
    (case map_of (rev calls) f of Some v \<Rightarrow> v | None \<Rightarrow> config_get f (candidate builder))"
  using config.get_calls [of f calls builder] by (simp add: build_Inr [OF assms])

theorem built_config_roundtrip_witness:
  "config_get FMaxSubjects (candidate (config_set FMaxSubjects 7 (config_set FSubjectTtl 9 (config_set FMaxSubjects 5 builder)))) = 7"
proof -
  let ?calls = "[(FMaxSubjects, 5), (FSubjectTtl, 9), (FMaxSubjects, 7)]"
  have "build 0 (fold (\<lambda>(f, v). config_set f v) ?calls builder) =
      Inr (candidate (config_set FMaxSubjects 7 (config_set FSubjectTtl 9 (config_set FMaxSubjects 5 builder))))"
    by (simp add: build_iff config_valid_def builder_def set_defs default_defs from_secs_def from_millis_def
        INSTANT_MAX_def DURATION_MAX_def)
  from built_config_roundtrip [OF this, of FMaxSubjects] show ?thesis by simp
qed

end
