(* ===== verification/Metrics_Sink.thy ===== *)
theory Metrics_Sink
  imports Gate
begin

text \<open>
  The \<open>PolicyGateMetrics\<close> trait (\<open>src/src/metrics.rs\<close>): an implementation is a record of its
  methods, each a change of the sink's own state. The default methods do nothing. The
  implementation for \<open>Arc<M>\<close> acts on the sink behind the pointer; sinks are kept in a store,
  so that clones of one \<open>Arc\<close> share theirs. An entry of the gate's log (theory \<open>Gate\<close>)
  stands for one method call.
\<close>

section \<open>Implementations\<close>

record 'm metrics_sink =
  on_denial :: "'m \<Rightarrow> 'm"
  on_unavailable_rejection :: "'m \<Rightarrow> 'm"
  on_snapshot_miss :: "'m \<Rightarrow> 'm"
  on_map_hit :: "'m \<Rightarrow> 'm"
  on_stream_cutoff :: "'m \<Rightarrow> 'm"
  on_snapshot_republish :: "'m \<Rightarrow> 'm"
  on_unary_call :: "'m \<Rightarrow> 'm"
  on_unary_failure :: "'m \<Rightarrow> 'm"
  on_admission_retry :: "'m \<Rightarrow> 'm"
  on_admission_timeout :: "'m \<Rightarrow> 'm"
  on_set_watch_connected :: "bool \<Rightarrow> 'm \<Rightarrow> 'm"
  on_watch_disconnect :: "'m \<Rightarrow> 'm"
  on_watch_open_failure :: "'m \<Rightarrow> 'm"
  on_watch_event :: "'m \<Rightarrow> 'm"
  on_wire_failure :: "'m \<Rightarrow> 'm"
  on_missing_subject_rejection :: "'m \<Rightarrow> 'm"

text \<open>The default methods of the trait.\<close>

definition default_metrics :: "'m metrics_sink" where
  "default_metrics = \<lparr>
     on_denial = (\<lambda>s. s),
     on_unavailable_rejection = (\<lambda>s. s),
     on_snapshot_miss = (\<lambda>s. s),
     on_map_hit = (\<lambda>s. s),
     on_stream_cutoff = (\<lambda>s. s),
     on_snapshot_republish = (\<lambda>s. s),
     on_unary_call = (\<lambda>s. s),
     on_unary_failure = (\<lambda>s. s),
     on_admission_retry = (\<lambda>s. s),
     on_admission_timeout = (\<lambda>s. s),
     on_set_watch_connected = (\<lambda>_ s. s),
     on_watch_disconnect = (\<lambda>s. s),
     on_watch_open_failure = (\<lambda>s. s),
     on_watch_event = (\<lambda>s. s),
     on_wire_failure = (\<lambda>s. s),
     on_missing_subject_rejection = (\<lambda>s. s) \<rparr>"

text \<open>\<open>NoopPolicyGateMetrics\<close> overrides none of them.\<close>

definition noop_metrics :: "unit metrics_sink" where
  "noop_metrics = default_metrics"

text \<open>\<open>impl PolicyGateMetrics for Arc<M>\<close>: the sink at address \<open>a\<close> of the store.\<close>

definition through :: "nat \<Rightarrow> ('m \<Rightarrow> 'm) \<Rightarrow> (nat \<Rightarrow> 'm) \<Rightarrow> (nat \<Rightarrow> 'm)" where
  "through a f s = s(a := f (s a))"

definition arc_metrics :: "'m metrics_sink \<Rightarrow> nat \<Rightarrow> (nat \<Rightarrow> 'm) metrics_sink" where
  "arc_metrics M a = \<lparr>
     on_denial = through a (on_denial M),
     on_unavailable_rejection = through a (on_unavailable_rejection M),
     on_snapshot_miss = through a (on_snapshot_miss M),
     on_map_hit = through a (on_map_hit M),
     on_stream_cutoff = through a (on_stream_cutoff M),
     on_snapshot_republish = through a (on_snapshot_republish M),
     on_unary_call = through a (on_unary_call M),
     on_unary_failure = through a (on_unary_failure M),
     on_admission_retry = through a (on_admission_retry M),
     on_admission_timeout = through a (on_admission_timeout M),
     on_set_watch_connected = (\<lambda>c. through a (on_set_watch_connected M c)),
     on_watch_disconnect = through a (on_watch_disconnect M),
     on_watch_open_failure = through a (on_watch_open_failure M),
     on_watch_event = through a (on_watch_event M),
     on_wire_failure = through a (on_wire_failure M),
     on_missing_subject_rejection = through a (on_missing_subject_rejection M) \<rparr>"

text \<open>The call each entry of the gate's log stands for.\<close>

fun call :: "'m metrics_sink \<Rightarrow> metric \<Rightarrow> 'm \<Rightarrow> 'm" where
  "call M Denial = on_denial M"
| "call M UnavailableRejection = on_unavailable_rejection M"
| "call M SnapshotMiss = on_snapshot_miss M"
| "call M MapHit = on_map_hit M"
| "call M StreamCutoff = on_stream_cutoff M"
| "call M SnapshotRepublish = on_snapshot_republish M"
| "call M UnaryCall = on_unary_call M"
| "call M UnaryFailure = on_unary_failure M"
| "call M AdmissionRetry = on_admission_retry M"
| "call M AdmissionTimeout = on_admission_timeout M"
| "call M (SetWatchConnected c) = on_set_watch_connected M c"
| "call M WatchDisconnect = on_watch_disconnect M"
| "call M WatchOpenFailure = on_watch_open_failure M"
| "call M WatchEvent = on_watch_event M"
| "call M WireFailure = on_wire_failure M"
| "call M MissingSubjectRejection = on_missing_subject_rejection M"

section \<open>Forwarding\<close>

lemma call_arc: "call (arc_metrics M a) x = through a (call M x)"
  by (cases x) (simp_all add: arc_metrics_def)

lemma call_noop: "call noop_metrics x s = s"
  by (cases x) (simp_all add: noop_metrics_def default_metrics_def)

text \<open>
  A metrics handle behind an \<open>Arc\<close> is the sink it points to. Whatever the gate reports
  through clones of two such pointers, in any interleaving, each sink ends in the state
  that reporting to it directly its own events, in their order, would have given, and no
  other sink changes.
\<close>

lemma arc_metrics_forward:
  "fold (\<lambda>(a, x). call (arc_metrics M a) x) events store b =
     fold (call M) (map snd (filter (\<lambda>(a, x). a = b) events)) (store b)"
proof (induction events arbitrary: store)
  case (Cons ev events)
  obtain a x where "ev = (a, x)" by fastforce
  with Cons show ?case by (simp add: call_arc through_def)
qed simp

end
