(* ===== verification/Messages.thy ===== *)
theory Messages
  imports Tonic_Source Layer
begin

text \<open>
  The error values a host sees, their constructors and their texts, and what the adapter's
  and the layer's configurations report (\<open>src/src/lib.rs\<close>, \<open>src/src/gate.rs\<close>,
  \<open>src/src/time.rs\<close>, \<open>src/src/tonic_source.rs\<close>, \<open>src/src/layer.rs\<close>). A text is what
  \<open>Display\<close> writes.
\<close>

section \<open>Errors\<close>

definition source_error_new :: "error_kind \<Rightarrow> string \<Rightarrow> source_error" where
  "source_error_new k msg = \<lparr> kind = k, message = msg \<rparr>"

definition source_error_kind :: "source_error \<Rightarrow> error_kind" where
  "source_error_kind e = kind e"

definition source_error_text :: "source_error \<Rightarrow> string" where
  "source_error_text e = message e"

definition admission_unavailable_text :: "admission_unavailable \<Rightarrow> string" where
  "admission_unavailable_text e = ''policy decision source is unavailable''"

definition timeout_elapsed_text :: "timeout_elapsed \<Rightarrow> string" where
  "timeout_elapsed_text e = ''deadline elapsed''"

text \<open>The adapter's errors are built with the constructor, and say what the status says.\<close>

lemma adapter_errors:
  "wire msg = source_error_new Wire msg"
  "transient msg = source_error_new Transient msg"
  "source_error_text (source_error_of status_text status) = status_text status"
  by (simp_all add: wire_def transient_def source_error_new_def source_error_text_def source_error_of_def)

section \<open>Configurations\<close>

definition tonic_config_endpoint :: "tonic_decision_source_config \<Rightarrow> string" where
  "tonic_config_endpoint c = tc_endpoint c"

definition tonic_config_scope :: "tonic_decision_source_config \<Rightarrow> string" where
  "tonic_config_scope c = tc_scope c"

definition tonic_config_connect_timeout :: "tonic_decision_source_config \<Rightarrow> duration" where
  "tonic_config_connect_timeout c = tc_connect_timeout c"

lemma tonic_config_reports:
  "tonic_config_endpoint (with_connect_timeout t (tonic_config_new e s)) = e"
  "tonic_config_scope (with_connect_timeout t (tonic_config_new e s)) = s"
  "tonic_config_connect_timeout (with_connect_timeout t (tonic_config_new e s)) = t"
  "tonic_config_connect_timeout (tonic_config_new e s) = from_secs 2"
  by (simp_all add: tonic_config_endpoint_def tonic_config_scope_def tonic_config_connect_timeout_def
      with_connect_timeout_def tonic_config_new_def)

definition layer_config_denied_message :: "policy_gate_layer_config \<Rightarrow> string" where
  "layer_config_denied_message c = denied_message c"

definition layer_config_missing_subject_message :: "policy_gate_layer_config \<Rightarrow> string" where
  "layer_config_missing_subject_message c = missing_subject_message c"

text \<open>The two messages are what the layer's context renders.\<close>

lemma layer_context_messages:
  "rejection_message (layer_context c) = layer_config_denied_message c"
  "ctx_missing_subject_message (layer_context c) = layer_config_missing_subject_message c"
  by (simp_all add: layer_context_def layer_config_denied_message_def layer_config_missing_subject_message_def)

end
