(* ===== verification/Parts.thy ===== *)
theory Parts
  imports Scenario
begin

text \<open>
  The three values \<open>PolicyGate::new\<close> returns and what a host does with them
  (\<open>PolicyGate\<close> in \<open>src/src/gate.rs\<close>, \<open>DecisionSourceHealth\<close> and \<open>DecisionWatcher\<close> in
  \<open>src/src/watcher.rs\<close>). A process holds its gate states behind \<open>Arc\<close>, here at addresses;
  gates, their clones, the watcher and the health handle hold such an address. The metrics
  handle is the caller's, and its \<open>clone\<close> is a parameter.
\<close>

section \<open>The parts\<close>

record ('c, 'k, 'p, 'm) gate_cell =
  cell_gate :: "('c, 'k, 'p) gate"
  cell_metrics :: 'm

record ('c, 'k, 'p, 'm) process =
  next_state :: nat
  states :: "nat \<rightharpoonup> ('c, 'k, 'p, 'm) gate_cell"

record 'm policy_gate =
  pg_state :: nat
  pg_metrics :: 'm

record decision_source_health =
  dh_state :: nat
  dh_admission_timeout :: duration

text \<open>
  \<open>DecisionWatcher\<close>: the future of \<open>watch_source\<close>, which runs from its first poll on, with
  the lease it owns from the start.
\<close>

datatype ('k, 'p) watch_future = NotPolled | Polled "('k, 'p) watcher"

record ('k, 'p, 'm) decision_watcher =
  dw_state :: nat
  dw_metrics :: 'm
  dw_future :: "('k, 'p) watch_future"

definition update_gate ::
  "nat \<Rightarrow> ('c, 'k, 'p) gate \<Rightarrow> ('c, 'k, 'p, 'm) process \<Rightarrow> ('c, 'k, 'p, 'm) process" where
  "update_gate a g P =
     (case states P a of
        None \<Rightarrow> P
      | Some c \<Rightarrow> P\<lparr>states := (states P)(a \<mapsto> c\<lparr>cell_gate := g\<rparr>)\<rparr>)"

text \<open>\<open>DecisionWatcher::new\<close>: the watcher and the health handle of the gate state at \<open>a\<close>.\<close>

definition decision_watcher_new ::
  "nat \<Rightarrow> policy_gate_config \<Rightarrow> 'm \<Rightarrow> ('k, 'p, 'm) decision_watcher \<times> decision_source_health" where
  "decision_watcher_new a cfg m =
     (\<lparr> dw_state = a, dw_metrics = m, dw_future = NotPolled \<rparr>,
      \<lparr> dh_state = a, dh_admission_timeout = admission_timeout cfg \<rparr>)"

text \<open>
  \<open>PolicyGate::new_with_metrics_and_time_driver\<close>; \<open>None\<close> is the panic of a zero capacity,
  which \<open>build\<close> rules out. The time driver is a type, its readings are arguments.
\<close>

definition new_with_metrics_and_time_driver ::
  "('c, 'k) slot_lru \<Rightarrow> ('m \<Rightarrow> 'm) \<Rightarrow> instant \<Rightarrow> policy_gate_config \<Rightarrow> 'm \<Rightarrow> ('c, 'k, 'p, 'm) process
    \<Rightarrow> (('m policy_gate \<times> ('k, 'p, 'm) decision_watcher \<times> decision_source_health)
        \<times> ('c, 'k, 'p, 'm) process) option" where
  "new_with_metrics_and_time_driver L clone now cfg m P =
     do {
       g \<leftarrow> gate_new L cfg now;
       (let a = next_state P;
            P = P\<lparr>next_state := Suc a,
                  states := (states P)(a \<mapsto> \<lparr> cell_gate = g, cell_metrics = clone m \<rparr>)\<rparr>;
            (watcher, health) = decision_watcher_new a cfg (clone m)
        in Some ((\<lparr> pg_state = a, pg_metrics = m \<rparr>, watcher, health), P))
     }"

definition new_with_metrics ::
  "('c, 'k) slot_lru \<Rightarrow> ('m \<Rightarrow> 'm) \<Rightarrow> instant \<Rightarrow> policy_gate_config \<Rightarrow> 'm \<Rightarrow> ('c, 'k, 'p, 'm) process
    \<Rightarrow> (('m policy_gate \<times> ('k, 'p, 'm) decision_watcher \<times> decision_source_health)
        \<times> ('c, 'k, 'p, 'm) process) option" where
  "new_with_metrics L clone now cfg m P = new_with_metrics_and_time_driver L clone now cfg m P"

datatype noop_handle = NoopPolicyGateMetrics

definition new_with_time_driver ::
  "('c, 'k) slot_lru \<Rightarrow> instant \<Rightarrow> policy_gate_config \<Rightarrow> ('c, 'k, 'p, noop_handle) process
    \<Rightarrow> ((noop_handle policy_gate \<times> ('k, 'p, noop_handle) decision_watcher \<times> decision_source_health)
        \<times> ('c, 'k, 'p, noop_handle) process) option" where
  "new_with_time_driver L now cfg P =
     new_with_metrics_and_time_driver L (\<lambda>m. m) now cfg NoopPolicyGateMetrics P"

definition policy_gate_new ::
  "('c, 'k) slot_lru \<Rightarrow> instant \<Rightarrow> policy_gate_config \<Rightarrow> ('c, 'k, 'p, noop_handle) process
    \<Rightarrow> ((noop_handle policy_gate \<times> ('k, 'p, noop_handle) decision_watcher \<times> decision_source_health)
        \<times> ('c, 'k, 'p, noop_handle) process) option" where
  "policy_gate_new L now cfg P = new_with_metrics L (\<lambda>m. m) now cfg NoopPolicyGateMetrics P"

section \<open>What a host does with them\<close>

definition policy_gate_clone :: "('m \<Rightarrow> 'm) \<Rightarrow> 'm policy_gate \<Rightarrow> 'm policy_gate" where
  "policy_gate_clone clone pg = \<lparr> pg_state = pg_state pg, pg_metrics = clone (pg_metrics pg) \<rparr>"

definition policy_gate_metrics :: "('m \<Rightarrow> 'm) \<Rightarrow> 'm policy_gate \<Rightarrow> 'm" where
  "policy_gate_metrics clone pg = clone (pg_metrics pg)"

definition policy_gate_admission_timeout ::
  "('c, 'k, 'p, 'm) process \<Rightarrow> 'm policy_gate \<Rightarrow> duration option" where
  "policy_gate_admission_timeout P pg =
     map_option (\<lambda>c. admission_timeout (config (cell_gate c))) (states P (pg_state pg))"

definition try_cached ::
  "('c, 'k) slot_lru \<Rightarrow> clock \<Rightarrow> bool \<Rightarrow> 'm policy_gate \<Rightarrow> 'k \<Rightarrow> ('c, 'k, 'p, 'm) process
    \<Rightarrow> (nat option \<times> ('c, 'k, 'p, 'm) process) option" where
  "try_cached L clk sent pg k P =
     map_option (\<lambda>c. let (r, g) = gate_check L clk k sent (cell_gate c) in (r, update_gate (pg_state pg) g P))
       (states P (pg_state pg))"

definition policy_gate_refresh ::
  "('c, 'k) slot_lru \<Rightarrow> clock \<Rightarrow> bool \<Rightarrow> 'm policy_gate \<Rightarrow> 'k \<Rightarrow> nat \<Rightarrow> ('c, 'k, 'p, 'm) process
    \<Rightarrow> ('c, 'k, 'p, 'm) process option" where
  "policy_gate_refresh L clk sent pg k ea P =
     map_option (\<lambda>c. update_gate (pg_state pg) (refresh_entry L clk k ea sent (cell_gate c)) P)
       (states P (pg_state pg))"

text \<open>\<open>DecisionSourceHealth::status\<close>, read from the gate state the handle shares.\<close>

definition decision_source_status ::
  "instant \<Rightarrow> decision_source_health \<Rightarrow> ('c, 'k, 'p, 'm) process \<Rightarrow> health_status option" where
  "decision_source_status now h P =
     map_option (\<lambda>c. health_status now (dh_admission_timeout h) (disconnected_since (cell_gate c)))
       (states P (dh_state h))"

text \<open>
  Dropping the watcher, polled or not, drops its lease. A watcher that is gone has the
  counter \<open>WDropped\<close>.
\<close>

definition watcher_locals :: "policy_gate_config \<Rightarrow> instant \<Rightarrow> ('k, 'p) watch_future \<Rightarrow> ('k, 'p) watcher" where
  "watcher_locals cfg now f = (case f of NotPolled \<Rightarrow> watch_start cfg now | Polled w \<Rightarrow> w)"

definition drop_watcher ::
  "('c, 'k) slot_lru \<Rightarrow> instant \<Rightarrow> ('k, 'p, 'm) decision_watcher \<times> ('c, 'k, 'p, 'm) process
    \<Rightarrow> ('k, 'p, 'm) decision_watcher \<times> ('c, 'k, 'p, 'm) process" where
  "drop_watcher L now = (\<lambda>(dw, P).
     (case states P (dw_state dw) of
        None \<Rightarrow> (dw, P)
      | Some c \<Rightarrow>
          (let w = watcher_locals (config (cell_gate c)) now (dw_future dw) in
           if w_pc w = WDropped then (dw, P)
           else (dw\<lparr>dw_future := Polled (w\<lparr>w_pc := WDropped\<rparr>)\<rparr>,
                 update_gate (dw_state dw) (watch_disconnected L now (cell_gate c)) P))))"

text \<open>
  The steps of a process that concern one watcher and the gate state it shares: clients act
  through any clone, lookups complete, the watcher is polled or dropped, and other gates
  come and go at other addresses.
\<close>

inductive process_step ::
  "('c, 'k) slot_lru \<Rightarrow> ('k, 'p, 'm) decision_watcher \<times> ('c, 'k, 'p, 'm) process
    \<Rightarrow> ('k, 'p, 'm) decision_watcher \<times> ('c, 'k, 'p, 'm) process \<Rightarrow> bool"
  for L :: "('c, 'k) slot_lru" where
  client: "states P (dw_state dw) = Some c \<Longrightarrow> gate_step L (cell_gate c) g' \<Longrightarrow>
    process_step L (dw, P) (dw, update_gate (dw_state dw) g' P)"
| first_poll: "states P (dw_state dw) = Some c \<Longrightarrow> dw_future dw = NotPolled \<Longrightarrow>
    process_step L (dw, P) (dw\<lparr>dw_future := Polled (watch_start (config (cell_gate c)) now)\<rparr>, P)"
| poll: "states P (dw_state dw) = Some c \<Longrightarrow> dw_future dw = Polled w \<Longrightarrow>
    watch_step L (w, cell_gate c) (w', g') \<Longrightarrow>
    process_step L (dw, P) (dw\<lparr>dw_future := Polled w'\<rparr>, update_gate (dw_state dw) g' P)"
| drop: "process_step L (dw, P) (drop_watcher L now (dw, P))"
| other: "states P' (dw_state dw) = states P (dw_state dw) \<Longrightarrow> process_step L (dw, P) (dw, P')"

section \<open>The parts run as one system\<close>

lemma states_update [simp]:
  "states (update_gate a g P) b = (if b = a then map_option (cell_gate_update (\<lambda>_. g)) (states P a) else states P b)"
  by (simp add: update_gate_def split: option.split)

text \<open>The state of a process seen as a state of the system, at the address of one watcher.\<close>

definition simulates ::
  "('c, 'k) slot_lru \<Rightarrow> policy_gate_config \<Rightarrow> ('k, 'p, 'm) decision_watcher \<times> ('c, 'k, 'p, 'm) process \<Rightarrow> bool" where
  "simulates L cfg = (\<lambda>(dw, P).
     \<exists>c. states P (dw_state dw) = Some c \<and> config (cell_gate c) = cfg \<and>
       (\<forall>now. sys_reachable L cfg (watcher_locals cfg now (dw_future dw), cell_gate c)))"

lemma simulatesI:
  assumes "states P (dw_state dw) = Some c" "config (cell_gate c) = cfg"
    and "\<And>now. sys_reachable L cfg (watcher_locals cfg now (dw_future dw), cell_gate c)"
  shows "simulates L cfg (dw, P)"
  using assms by (auto simp: simulates_def)

lemma client_config: "gate_step L g g' \<Longrightarrow> config g' = config g"
  by (drule gate_step_same_watch) (simp add: same_watch_def)

lemma config_apply_change: "apply_change L clk change g = Some g' \<Longrightarrow> config g' = config g"
  by (drule apply_change_same_watch) (simp add: same_watch_def)

lemma config_watch_item:
  "watch_item L clk rng it timer settled refreshes (w, g) = Some (w', g') \<Longrightarrow> config g' = config g"
  by (auto simp: watch_item_def watch_closed_def Let_def split: option.splits sum.splits if_splits
      Option.bind_splits dest: config_apply_change)

lemma watch_config:
  assumes "watch_step L s s'"
  shows "config (snd s') = config (snd s)"
  using assms
proof (induction rule: watch_step.induct)
  case (refresh_done w timer settled refreshes f clk outcome g r g')
  from run_fetch_same_watch [OF this(3)] show ?case by (simp add: same_watch_def)
next
  case (item w timer settled refreshes clk rng it g s')
  then show ?case by (cases s') (simp add: config_watch_item)
qed (simp_all add: watch_opened_def watch_open_failed_def watch_closed_def watch_stable_def Let_def
    split: option.split)

lemma process_step_simulates:
  assumes "process_step L s s'" "simulates L cfg s"
  shows "simulates L cfg s'"
  using assms
proof (induction rule: process_step.induct)
  case (client P dw c g')
  then have c: "config (cell_gate c) = cfg"
    "\<And>now. sys_reachable L cfg (watcher_locals cfg now (dw_future dw), cell_gate c)"
    by (auto simp: simulates_def)
  have "sys_reachable L cfg (watcher_locals cfg now (dw_future dw), g')" for now
    by (rule sys_reachable.step [OF c(2) sys_step.client [OF client(2)]])
  with client(1) client_config [OF client(2)] c(1) show ?case by (auto intro: simulatesI)
next
  case (first_poll P dw c now)
  then show ?case by (auto simp: simulates_def watcher_locals_def)
next
  case (poll P dw c w w' g')
  then have c: "config (cell_gate c) = cfg" "sys_reachable L cfg (w, cell_gate c)"
    by (auto simp: simulates_def watcher_locals_def)
  have "sys_reachable L cfg (w', g')"
    by (rule sys_reachable.step [OF c(2) sys_step.watch [OF poll(3)]])
  with poll(1) watch_config [OF poll(3)] c(1) show ?case
    by (auto intro!: simulatesI simp: watcher_locals_def)
next
  case (drop dw P now)
  then obtain c where c: "states P (dw_state dw) = Some c" "config (cell_gate c) = cfg"
    "\<And>now. sys_reachable L cfg (watcher_locals cfg now (dw_future dw), cell_gate c)"
    by (auto simp: simulates_def)
  let ?w = "watcher_locals cfg now (dw_future dw)"
  have "sys_reachable L cfg (?w\<lparr>w_pc := WDropped\<rparr>, watch_disconnected L now (cell_gate c))"
    if "w_pc ?w \<noteq> WDropped"
    by (rule sys_reachable.step [OF c(3) sys_step.watch [OF watch_step.dropped [OF that]]])
  with c drop show ?case
    by (auto simp: drop_watcher_def Let_def watcher_locals_def [of _ _ "Polled _"] intro!: simulatesI)
next
  case (other P' dw P)
  then show ?case by (simp add: simulates_def)
qed

lemma new_simulates:
  assumes "new_with_metrics_and_time_driver L clone now cfg m P = Some ((pg, dw, h), P')"
  shows "simulates L cfg (dw, P')" "pg_state pg = dw_state dw" "dh_state h = dw_state dw"
    "dh_admission_timeout h = admission_timeout cfg"
proof -
  obtain g where g: "gate_new L cfg now = Some g"
    and dw: "dw = \<lparr> dw_state = next_state P, dw_metrics = clone m, dw_future = NotPolled \<rparr>"
    and rest: "pg_state pg = next_state P" "dh_state h = next_state P"
      "dh_admission_timeout h = admission_timeout cfg"
      "states P' (next_state P) = Some \<lparr> cell_gate = g, cell_metrics = clone m \<rparr>"
    using assms by (auto simp: new_with_metrics_and_time_driver_def decision_watcher_new_def Let_def
        split: Option.bind_splits)
  have "config g = cfg" using g by (auto simp: gate_new_def split: Option.bind_splits)
  with rest(4) sys_reachable.start [OF g] show "simulates L cfg (dw, P')"
    by (auto intro!: simulatesI simp: dw watcher_locals_def)
qed (use assms in \<open>auto simp: new_with_metrics_and_time_driver_def decision_watcher_new_def Let_def
    split: Option.bind_splits\<close>)

lemma run_simulates:
  "(process_step L)\<^sup>*\<^sup>* s s' \<Longrightarrow> simulates L cfg s \<Longrightarrow> simulates L cfg s'"
  by (induction rule: rtranclp_induct) (auto intro: process_step_simulates)

lemma process_step_state: "process_step L s s' \<Longrightarrow> dw_state (fst s') = dw_state (fst s)"
  by (induction rule: process_step.induct) (auto simp: drop_watcher_def Let_def split: option.split)

lemma run_state: "(process_step L)\<^sup>*\<^sup>* s s' \<Longrightarrow> dw_state (fst s') = dw_state (fst s)"
  by (induction rule: rtranclp_induct) (auto dest: process_step_state)

lemma watch_inv_settled:
  assumes "watch_inv cfg (w, g)" "disconnected_since g = None"
  shows "connected g \<and> w_settled (w_pc w)"
  using assms by (cases "w_pc w") (simp_all add: watch_inv_def)

text \<open>
  C17: the parts of a gate are one system. After construction, whatever the clones of the
  gate, the lookups and the watcher do, in any order, whether the watcher is polled, never
  polled or dropped before its first poll, the shared gate state and the watcher are a
  reachable state of the system, so its invariants hold of them. The health handle reads
  stable only while the watch is open and has been for its stability period.
\<close>

theorem parts_refine_system:
  assumes "subject_cache L valid" "config_valid now0 cfg" "max_reconnect_delay cfg \<le> DURATION_MAX"
    and "new_with_metrics_and_time_driver L clone now cfg m P = Some ((pg, dw, h), P1)"
    and "(process_step L)\<^sup>*\<^sup>* (dw, P1) (dw', P2)"
  shows "\<exists>c. states P2 (pg_state pg) = Some c
    \<and> (\<forall>t. sys_reachable L cfg (watcher_locals cfg t (dw_future dw'), cell_gate c))
    \<and> (\<forall>t. decision_source_status t h P2 = Some HStable \<longrightarrow>
        connected (cell_gate c) \<and> w_settled (w_pc (watcher_locals cfg t (dw_future dw'))))"
proof -
  note N = new_simulates [OF assms(4)]
  from run_simulates [OF assms(5) N(1)] run_state [OF assms(5)]
  obtain c where c: "states P2 (dw_state dw) = Some c"
    "\<And>t. sys_reachable L cfg (watcher_locals cfg t (dw_future dw'), cell_gate c)"
    by (auto simp: simulates_def)
  have "watch_inv cfg (watcher_locals cfg t (dw_future dw'), cell_gate c)" for t
    using subject_cache.reachable_inv [OF assms(1) c(2) assms(2,3)] by simp
  note watch_inv_settled [OF this]
  with c N(2,3) show ?thesis
    by (auto simp: decision_source_status_def health_status_def split: option.splits if_splits)
qed

text \<open>A gate is constructed and its watcher dropped without ever being polled.\<close>

definition ex_process :: "((nat, subject_slot) lru_list, nat, string, unit) process" where
  "ex_process = \<lparr> next_state = 0, states = Map.empty \<rparr>"

definition ex_dw :: "(nat, string, unit) decision_watcher" where
  "ex_dw = \<lparr> dw_state = 0, dw_metrics = (), dw_future = NotPolled \<rparr>"

definition ex_constructed :: "((nat, subject_slot) lru_list, nat, string, unit) process" where
  "ex_constructed = \<lparr> next_state = 1, states = [0 \<mapsto> \<lparr> cell_gate = ex_gate0, cell_metrics = () \<rparr>] \<rparr>"

lemma ex_parts: "new_with_metrics_and_time_driver lru_list (\<lambda>m. m) 0 ex_cfg () ex_process =
    Some ((\<lparr> pg_state = 0, pg_metrics = () \<rparr>, ex_dw,
           \<lparr> dh_state = 0, dh_admission_timeout = admission_timeout ex_cfg \<rparr>), ex_constructed)"
  by (simp add: new_with_metrics_and_time_driver_def decision_watcher_new_def ex_gate0_new ex_process_def
      ex_dw_def ex_constructed_def)

theorem parts_refine_system_witness:
  "\<exists>c. states (snd (drop_watcher lru_list 9 (ex_dw, ex_constructed))) 0 = Some c
    \<and> sys_reachable lru_list ex_cfg
        (watcher_locals ex_cfg 5 (dw_future (fst (drop_watcher lru_list 9 (ex_dw, ex_constructed)))), cell_gate c)"
proof -
  have "(process_step lru_list)\<^sup>*\<^sup>* (ex_dw, ex_constructed)
      (fst (drop_watcher lru_list 9 (ex_dw, ex_constructed)), snd (drop_watcher lru_list 9 (ex_dw, ex_constructed)))"
    unfolding prod.collapse by (rule r_into_rtranclp [of "process_step lru_list", OF process_step.drop])
  from parts_refine_system [OF list_cache.subject_cache_axioms ex_cfg_valid ex_cfg_duration ex_parts this]
  show ?thesis by auto
qed

end
