(* ===== verification/Layer_Build.thy ===== *)
theory Layer_Build
  imports Layer Parts
begin

text \<open>
  How a host puts the layer together (\<open>PolicyGateLayer\<close> and \<open>PolicyGateMiddleware\<close> in
  \<open>src/src/layer.rs\<close>): the constructors, the replacement of the unavailable response, the
  \<open>tower::Layer\<close> and \<open>tower::Service\<close> implementations around the call of theory \<open>Layer\<close>, and
  clones. What \<open>Arc\<close> shares is shared by value here, since none of it changes; the gate is
  the handle of theory \<open>Parts\<close>.
\<close>

section \<open>Building a layer\<close>

record ('q, 'b, 'r, 'k, 'p, 'e, 'm) policy_gate_layer =
  pl_gate :: "'m policy_gate"
  pl_metrics :: 'm
  pl_context :: gate_context
  pl_policy :: "('q, 'b, 'k) request_policy"
  pl_body :: "('b, 'r, 'k, 'p) body_adapter"
  pl_response :: "('b, 'e) rejection_response"

definition policy_gate_layer_config_new :: "string \<Rightarrow> string \<Rightarrow> policy_gate_layer_config" where
  "policy_gate_layer_config_new denied missing =
     \<lparr> denied_message = denied, missing_subject_message = missing \<rparr>"

definition layer_new_with_response ::
  "('m \<Rightarrow> 'm) \<Rightarrow> 'm policy_gate \<Rightarrow> policy_gate_layer_config \<Rightarrow> ('q, 'b, 'k) request_policy
    \<Rightarrow> ('b, 'r, 'k, 'p) body_adapter \<Rightarrow> ('b, 'e) rejection_response
    \<Rightarrow> ('q, 'b, 'r, 'k, 'p, 'e, 'm) policy_gate_layer" where
  "layer_new_with_response clone gate cfg policy body response =
     \<lparr> pl_gate = gate, pl_metrics = policy_gate_metrics clone gate, pl_context = layer_context cfg,
       pl_policy = policy, pl_body = body, pl_response = response \<rparr>"

definition layer_new ::
  "('m \<Rightarrow> 'm) \<Rightarrow> 'm policy_gate \<Rightarrow> policy_gate_layer_config \<Rightarrow> ('q, 'b, 'k) request_policy
    \<Rightarrow> ('b, 'r, 'k, 'p) body_adapter \<Rightarrow> ('q, 'b, 'r, 'k, 'p, 'e, 'm) policy_gate_layer" where
  "layer_new clone gate cfg policy body =
     layer_new_with_response clone gate cfg policy body http_rejection"

definition layer_with_unavailable_response ::
  "(admission_unavailable \<Rightarrow> 'b response option) \<Rightarrow> ('q, 'b, 'r, 'k, 'p, 'e, 'm) policy_gate_layer
    \<Rightarrow> ('q, 'b, 'r, 'k, 'p, 'e, 'm) policy_gate_layer" where
  "layer_with_unavailable_response unavailable l =
     \<lparr> pl_gate = pl_gate l, pl_metrics = pl_metrics l, pl_context = pl_context l,
       pl_policy = pl_policy l, pl_body = pl_body l,
       pl_response = with_unavailable_response unavailable (pl_response l) \<rparr>"

definition layer_clone ::
  "('q, 'b, 'r, 'k, 'p, 'e, 'm) policy_gate_layer \<Rightarrow> ('q, 'b, 'r, 'k, 'p, 'e, 'm) policy_gate_layer" where
  "layer_clone l =
     \<lparr> pl_gate = pl_gate l, pl_metrics = pl_metrics l, pl_context = pl_context l,
       pl_policy = pl_policy l, pl_body = pl_body l, pl_response = pl_response l \<rparr>"

section \<open>The middleware as a service\<close>

record ('s, 'q, 'b, 'r, 'k, 'p, 'e, 'm) policy_gate_middleware =
  pm_inner :: 's
  pm_layer :: "('q, 'b, 'r, 'k, 'p, 'e, 'm) policy_gate_layer"

text \<open>\<open>tower::Layer::layer\<close>: the middleware has the layer's fields and the inner service.\<close>

definition layer_layer ::
  "('q, 'b, 'r, 'k, 'p, 'e, 'm) policy_gate_layer \<Rightarrow> 's
    \<Rightarrow> ('s, 'q, 'b, 'r, 'k, 'p, 'e, 'm) policy_gate_middleware" where
  "layer_layer l inner = \<lparr> pm_inner = inner, pm_layer = layer_clone l \<rparr>"

definition middleware_clone ::
  "('s, 'f, 'q, 'b, 'r) service \<Rightarrow> ('s, 'q, 'b, 'r, 'k, 'p, 'e, 'm) policy_gate_middleware
    \<Rightarrow> ('s, 'q, 'b, 'r, 'k, 'p, 'e, 'm) policy_gate_middleware" where
  "middleware_clone S m = \<lparr> pm_inner = sv_clone S (pm_inner m), pm_layer = layer_clone (pm_layer m) \<rparr>"

text \<open>\<open>poll_ready\<close> asks the inner service, whose own \<open>poll_ready\<close> is a parameter.\<close>

definition middleware_poll_ready ::
  "('s \<Rightarrow> 'w \<times> 's) \<Rightarrow> ('s, 'q, 'b, 'r, 'k, 'p, 'e, 'm) policy_gate_middleware
    \<Rightarrow> 'w \<times> ('s, 'q, 'b, 'r, 'k, 'p, 'e, 'm) policy_gate_middleware" where
  "middleware_poll_ready poll_ready m =
     (let (r, inner) = poll_ready (pm_inner m) in (r, m\<lparr>pm_inner := inner\<rparr>))"

text \<open>The middleware's fields as theory \<open>Layer\<close> reads them.\<close>

definition call_layer ::
  "('s, 'f, 'q, 'b, 'r) service \<Rightarrow> ('q, 'b, 'r, 'k, 'p, 'e, 'm) policy_gate_layer
    \<Rightarrow> ('s, 'f, 'q, 'b, 'r, 'k, 'p, 'e) layer" where
  "call_layer S l =
     \<lparr> ly_context = pl_context l, ly_policy = pl_policy l, ly_adapter = pl_body l,
       ly_response = pl_response l, ly_service = S \<rparr>"

text \<open>
  \<open>Service::call\<close> on the process's gate state; the time of the next missing-subject warning
  is a static. \<open>None\<close> when the handle's gate state does not exist.
\<close>

definition middleware_call ::
  "('c, 'k) slot_lru \<Rightarrow> ('s, 'f, 'q, 'b, 'r) service \<Rightarrow> ('c, 'k, 'p) layer_input \<Rightarrow> ('q, 'b) request
    \<Rightarrow> ('s, 'q, 'b, 'r, 'k, 'p, 'e, 'm) policy_gate_middleware \<times> u64 \<times> ('c, 'k, 'p, 'm) process
    \<Rightarrow> (('s, 'f, 'q, 'b, 'k, 'p) layer_future
        \<times> ('s, 'q, 'b, 'r, 'k, 'p, 'e, 'm) policy_gate_middleware \<times> u64 \<times> ('c, 'k, 'p, 'm) process) option" where
  "middleware_call L S inp request = (\<lambda>(m, next_log, P).
     map_option (\<lambda>c.
         let (fut, mw, g) = layer_call L (call_layer S (pm_layer m)) inp request
               (\<lparr> mw_inner = pm_inner m, mw_next_log = next_log \<rparr>, cell_gate c)
         in (fut, m\<lparr>pm_inner := mw_inner mw\<rparr>, mw_next_log mw,
             update_gate (pg_state (pl_gate (pm_layer m))) g P))
       (states P (pg_state (pl_gate (pm_layer m)))))"

section \<open>Replacing the unavailable response\<close>

abbreviation replaced ::
  "(admission_unavailable \<Rightarrow> 'b response option) \<Rightarrow> ('s, 'f, 'q, 'b, 'r, 'k, 'p, 'e) layer
    \<Rightarrow> ('s, 'f, 'q, 'b, 'r, 'k, 'p, 'e) layer" where
  "replaced u Y \<equiv> Y\<lparr>ly_response := with_unavailable_response u (ly_response Y)\<rparr>"

lemma call_layer_replaced:
  "call_layer S (layer_with_unavailable_response u l) = replaced u (call_layer S l)"
  by (simp add: call_layer_def layer_with_unavailable_response_def)

lemma pass_through_replaced: "pass_through (replaced u Y) = pass_through Y"
  by (simp add: fun_eq_iff pass_through_def)

lemma deny_replaced: "deny (replaced u Y) = deny Y"
  by (simp add: fun_eq_iff deny_def with_unavailable_response_def)

lemma replaced_same:
  "on_admission (replaced u Y) = on_admission Y" "box_future (replaced u Y) = box_future Y"
  "snapshot_missed (replaced u Y) = snapshot_missed Y"
  "enforced_response_poll (replaced u Y) = enforced_response_poll Y"
proof -
  show "on_admission (replaced u Y) = on_admission Y"
    by (intro ext) (simp only: on_admission_def pass_through_replaced deny_replaced)
  show "box_future (replaced u Y) = box_future Y" by (simp add: fun_eq_iff box_future_def)
  then show "snapshot_missed (replaced u Y) = snapshot_missed Y"
    by (intro ext) (simp only: snapshot_missed_def)
  have "ly_adapter (replaced u Y) = ly_adapter Y" "ly_service (replaced u Y) = ly_service Y" by simp_all
  then show "enforced_response_poll (replaced u Y) = enforced_response_poll Y"
    by (intro ext) (simp only: enforced_response_poll_def)
qed

lemma layer_call_replaced: "layer_call L (replaced u Y) = layer_call L Y"
proof -
  have "ly_adapter (replaced u Y) = ly_adapter Y" "ly_policy (replaced u Y) = ly_policy Y"
    "ly_context (replaced u Y) = ly_context Y"
    "rr_missing_subject (ly_response (replaced u Y)) = rr_missing_subject (ly_response Y)"
    by (simp_all add: with_unavailable_response_def)
  then show ?thesis by (intro ext) (simp only: layer_call_def replaced_same)
qed

text \<open>What becomes of a future and the gate when the unavailable response is replaced.\<close>

definition replaced_result ::
  "(admission_unavailable \<Rightarrow> 'b response option) \<Rightarrow> ('s, 'f, 'q, 'b, 'r, 'k, 'p, 'e) layer
    \<Rightarrow> ('s, 'f, 'q, 'b, 'k, 'p) layer_future \<times> ('c, 'k, 'p) gate
    \<Rightarrow> ('s, 'f, 'q, 'b, 'k, 'p) layer_future \<times> ('c, 'k, 'p) gate \<Rightarrow> bool" where
  "replaced_result u Y s s' \<longleftrightarrow>
     snd s' = snd s \<and>
     (fst s' = fst s \<or>
      fst s' = LDone (u AdmissionUnavailable) \<and>
      fst s = LDone (rr_unavailable (ly_response Y) (ba_make_body (ly_adapter Y)) AdmissionUnavailable
        UNAVAILABLE_MESSAGE) \<and>
      hd (metrics (snd s)) = UnavailableRejection)"

lemma replaced_result_refl [simp]: "replaced_result u Y s s"
  by (simp add: replaced_result_def)

lemma admit_returned_replaced:
  "replaced_result u Y (admit_returned Y inp inner request k res g)
     (admit_returned (replaced u Y) inp inner request k res g)"
proof (cases res)
  case None
  then show ?thesis
    by (simp add: admit_returned_def with_unavailable_response_def replaced_result_def log_def)
next
  case (Some ea)
  then have "admit_returned (replaced u Y) inp inner request k res g = admit_returned Y inp inner request k res g"
    by (simp only: admit_returned_def replaced_same option.case)
  then show ?thesis by simp
qed

lemma layer_poll_replaced:
  "replaced_result u Y (layer_poll L Y inp (fut, g)) (layer_poll L (replaced u Y) inp (fut, g))"
  by (cases fut)
    (simp_all add: layer_poll_def replaced_same admit_returned_replaced
      split: option.split prod.split admit_pc.split)

text \<open>
  The callback of \<open>with_unavailable_response\<close> replaces one response and nothing else. The
  layer with the callback answers every call as the layer without it, every poll changes
  the gate in the same way, and its future is the same unless the admission turned out to
  be unavailable; then it is done, with the callback's response in place of the layer's own.
\<close>

lemma unavailable_response_is_local:
  "layer_call L (call_layer S (layer_with_unavailable_response u l)) inp request s =
     layer_call L (call_layer S l) inp request s
   \<and> (let (fut', g') = layer_poll L (call_layer S (layer_with_unavailable_response u l)) inp (fut, g);
          (fut0, g0) = layer_poll L (call_layer S l) inp (fut, g)
      in g' = g0 \<and>
        (fut' = fut0 \<or>
         fut' = LDone (u AdmissionUnavailable)
         \<and> fut0 = LDone (rr_unavailable (pl_response l) (ba_make_body (pl_body l)) AdmissionUnavailable
              UNAVAILABLE_MESSAGE)
         \<and> hd (metrics g0) = UnavailableRejection))"
  using layer_poll_replaced [of u "call_layer S l" L inp fut g]
  unfolding call_layer_replaced layer_call_replaced replaced_result_def
  by (simp add: case_prod_beta Let_def call_layer_def)

end
