(* ===== verification/Example_Service.thy ===== *)
theory Example_Service
  imports Layer_Build
begin

text \<open>
  The example service (\<open>src/examples/http_middleware.rs\<close>): an authentication middleware that
  validates a bearer token and inserts the subject, in front of the policy layer, in front
  of the route. The header value's \<open>to_str\<close> is a parameter, and so are axum's router and its
  adapter, which appear as the service the layer wraps.
\<close>

section \<open>Authentication\<close>

text \<open>What the example reads of a request: its authorization header and the inserted extension.\<close>

record 'v request_parts =
  authorization :: "'v option"
  authenticated_subject :: "string option"

text \<open>\<open>str::strip_prefix\<close>.\<close>

definition strip_prefix :: "string \<Rightarrow> string \<Rightarrow> string option" where
  "strip_prefix p s = (if take (length p) s = p then Some (drop (length p) s) else None)"

definition validate_bearer :: "('v \<Rightarrow> string option) \<Rightarrow> 'v request_parts \<Rightarrow> string option" where
  "validate_bearer to_str headers =
     do {
       value \<leftarrow> authorization headers;
       value \<leftarrow> to_str value;
       token \<leftarrow> strip_prefix ''Bearer '' value;
       (if token = ''example-token'' then Some ''user-123'' else None)
     }"

definition UNAUTHORIZED :: nat where "UNAUTHORIZED = 401"

text \<open>\<open>authenticate\<close>; \<open>next\<close> is the rest of the stack.\<close>

definition authenticate ::
  "('v \<Rightarrow> string option) \<Rightarrow> (('v request_parts, 'b) request \<Rightarrow> 'x) \<Rightarrow> ('v request_parts, 'b) request
    \<Rightarrow> nat + 'x" where
  "authenticate to_str next request =
     (case validate_bearer to_str (rq_head request) of
        None \<Rightarrow> Inl UNAUTHORIZED
      | Some subject \<Rightarrow> Inr (next (request\<lparr>rq_head := (rq_head request)\<lparr>authenticated_subject := Some subject\<rparr>\<rparr>)))"

section \<open>Policy and decision source\<close>

text \<open>\<open>SubjectFromAuthentication\<close>; the response side is the trait's default.\<close>

definition subject_from_authentication :: "('v request_parts, 'b, string) request_policy" where
  "subject_from_authentication =
     \<lparr> rp_subject = (\<lambda>request. authenticated_subject (rq_head request)),
       rp_enforce_request_body = (\<lambda>_. False),
       rp_enforce_response_body = (\<lambda>_. True) \<rparr>"

text \<open>\<open>ExampleDecisionSource\<close>: its lookups, and a watch stream that is never ready.\<close>

definition example_get_subject_decision :: "string \<Rightarrow> source_error + decision option" where
  "example_get_subject_decision subject =
     Inr (Some (if subject = ''user-123'' then DAllowed else DDenied))"

definition example_watch_subject_decisions :: "source_error + unit" where
  "example_watch_subject_decisions = Inr ()"

definition example_changes_poll :: "unit \<Rightarrow> (source_error + string decision_change) option option \<times> unit" where
  "example_changes_poll s = (None, s)"

section \<open>The application\<close>

text \<open>The layer of \<open>main\<close>, over the gate it constructs with the default configuration.\<close>

definition example_layer ::
  "noop_handle policy_gate \<Rightarrow> ('b, 'r, string, 'p) body_adapter
    \<Rightarrow> ('v request_parts, 'b, 'r, string, 'p, 'e, noop_handle) policy_gate_layer" where
  "example_layer gate adapter =
     layer_new (\<lambda>m. m) gate
       (policy_gate_layer_config_new ''the authenticated subject is not allowed''
          ''authentication did not provide a subject'')
       subject_from_authentication adapter"

text \<open>
  The stack of \<open>main\<close>: layers run from bottom to top, so the authentication comes first and
  the policy middleware is the rest of its stack.
\<close>

definition example_app ::
  "('v \<Rightarrow> string option) \<Rightarrow> ('c, string) slot_lru \<Rightarrow> ('s, 'f, 'v request_parts, 'b, 'r) service
    \<Rightarrow> ('c, string, 'p) layer_input
    \<Rightarrow> ('s, 'v request_parts, 'b, 'r, string, 'p, 'e, noop_handle) policy_gate_middleware \<times> u64
        \<times> ('c, string, 'p, noop_handle) process
    \<Rightarrow> ('v request_parts, 'b) request
    \<Rightarrow> nat + (('s, 'f, 'v request_parts, 'b, string, 'p) layer_future
        \<times> ('s, 'v request_parts, 'b, 'r, string, 'p, 'e, noop_handle) policy_gate_middleware \<times> u64
        \<times> ('c, string, 'p, noop_handle) process) option" where
  "example_app to_str L S inp s = authenticate to_str (\<lambda>request. middleware_call L S inp request s)"

text \<open>The configuration of \<open>main\<close>, and its gate, watcher and health handle.\<close>

definition example_main ::
  "('c, string) slot_lru \<Rightarrow> instant \<Rightarrow> ('c, string, 'p, noop_handle) process
    \<Rightarrow> ((noop_handle policy_gate \<times> (string, 'p, noop_handle) decision_watcher \<times> decision_source_health)
        \<times> ('c, string, 'p, noop_handle) process) option" where
  "example_main L now P =
     (case build now builder of Inl _ \<Rightarrow> None | Inr cfg \<Rightarrow> policy_gate_new L now cfg P)"

text \<open>The construction in \<open>main\<close> cannot fail while the clock has ten seconds of room.\<close>

lemma example_main_starts:
  assumes "now + int (from_secs 10) \<le> INSTANT_MAX"
  shows "\<exists>gate dw h P'. example_main L now P = Some ((gate, dw, h), P')"
proof -
  have "config_valid now (candidate builder)"
    using assms
    by (simp add: config_valid_def builder_def default_defs from_secs_def from_millis_def
        INSTANT_MAX_def DURATION_MAX_def)
  then have "build now builder = Inr (candidate builder)" by (simp add: build_iff)
  moreover have "0 < max_subjects (candidate builder)"
    by (simp add: builder_def default_defs)
  ultimately show ?thesis
    by (simp add: example_main_def policy_gate_new_def new_with_metrics_def Let_def
        new_with_metrics_and_time_driver_def gate_new_def subject_map_new_def decision_watcher_new_def)
qed

section \<open>Only authenticated subjects reach the gate\<close>

lemma strip_prefix_Some: "strip_prefix p s = Some t \<longleftrightarrow> s = p @ t"
  by (auto simp: strip_prefix_def) (metis append_take_drop_id)

lemma strip_prefix_None: "strip_prefix p s = None \<longleftrightarrow> take (length p) s \<noteq> p"
  by (simp add: strip_prefix_def)

lemma validate_bearer_Some:
  "validate_bearer to_str headers = Some subject \<longleftrightarrow>
    subject = ''user-123'' \<and> Option.bind (authorization headers) to_str = Some ''Bearer example-token''"
  by (auto simp: validate_bearer_def strip_prefix_Some strip_prefix_None split: Option.bind_splits if_splits)

lemma validate_bearer_None:
  "Option.bind (authorization headers) to_str \<noteq> Some ''Bearer example-token'' \<Longrightarrow>
    validate_bearer to_str headers = None"
  using validate_bearer_Some by (metis not_None_eq)

text \<open>A request with a subject is never answered with the missing-subject response.\<close>

lemma layer_call_subject:
  assumes "rp_subject (ly_policy Y) request = Some k"
    and "layer_call L Y inp request (mw, g) = (fut, mw', g')"
  shows "mw_next_log mw' = mw_next_log mw"
  using assms by (auto simp: layer_call_def Let_def case_prod_beta)

text \<open>
  Authentication guards the policy. A request is handed to the policy middleware exactly
  when its authorization header reads \<open>Bearer example-token\<close>; then the middleware is called
  once with the subject the authentication inserted, whatever subject the request carried
  before, and the request never counts as one without a subject. Every other request is
  answered with 401 and touches neither the gate nor the inner service.
\<close>

lemma authentication_guards_policy:
  assumes "pm_layer m = example_layer gate adapter" "states P (pg_state gate) = Some c"
  shows "if Option.bind (authorization (rq_head request)) to_str = Some ''Bearer example-token''
    then \<exists>fut m' P'. example_app to_str L S inp (m, next_log, P) request = Inr (Some (fut, m', next_log, P'))
      \<and> middleware_call L S inp
          (request\<lparr>rq_head := (rq_head request)\<lparr>authenticated_subject := Some ''user-123''\<rparr>\<rparr>)
          (m, next_log, P) = Some (fut, m', next_log, P')
    else example_app to_str L S inp (m, next_log, P) request = Inl 401"
proof -
  let ?rq = "request\<lparr>rq_head := (rq_head request)\<lparr>authenticated_subject := Some ''user-123''\<rparr>\<rparr>"
  let ?Y = "call_layer S (pm_layer m)" and ?mw = "\<lparr> mw_inner = pm_inner m, mw_next_log = next_log \<rparr>"
  obtain fut mw' g' where call: "layer_call L ?Y inp ?rq (?mw, cell_gate c) = (fut, mw', g')"
    by (metis prod_cases3)
  have "rp_subject (ly_policy ?Y) ?rq = Some ''user-123''"
    by (simp add: call_layer_def assms(1) example_layer_def layer_new_def layer_new_with_response_def
        subject_from_authentication_def)
  from layer_call_subject [OF this call] have "mw_next_log mw' = next_log" by simp
  then have "\<exists>m' P'. middleware_call L S inp ?rq (m, next_log, P) = Some (fut, m', next_log, P')"
    using assms call
    by (simp add: middleware_call_def example_layer_def layer_new_def layer_new_with_response_def)
  then show ?thesis
    using validate_bearer_Some [of to_str "rq_head request" "''user-123''"]
      validate_bearer_None [of "rq_head request" to_str]
    by (auto simp: example_app_def authenticate_def UNAUTHORIZED_def)
qed

text \<open>The token of the example passes, any other is answered with 401.\<close>

definition web_service :: "(nat, nat, string request_parts, unit, unit) service" where
  "web_service = \<lparr> sv_clone = (\<lambda>s. s), sv_call = (\<lambda>s _. (s, Suc s)),
     sv_poll = (\<lambda>f. (Some \<lparr> rs_status = 200, rs_headers = Map.empty, rs_body = () \<rparr>, f)) \<rparr>"

definition web_adapter :: "(unit, unit, string, string) body_adapter" where
  "web_adapter = \<lparr> ba_adapt_request = (\<lambda>_. ()), ba_adapt_response = (\<lambda>_. ()),
     ba_adapt_plain = (\<lambda>_. ()), ba_make_body = (\<lambda>_. ()) \<rparr>"

definition web_gate :: "noop_handle policy_gate" where
  "web_gate = \<lparr> pg_state = 0, pg_metrics = NoopPolicyGateMetrics \<rparr>"

definition web_cell :: "((string, subject_slot) lru_list, string, string, noop_handle) gate_cell" where
  "web_cell = \<lparr> cell_gate = the (gate_new lru_list ex_cfg 0), cell_metrics = NoopPolicyGateMetrics \<rparr>"

definition web_process :: "((string, subject_slot) lru_list, string, string, noop_handle) process" where
  "web_process = \<lparr> next_state = 1, states = [0 \<mapsto> web_cell] \<rparr>"

definition web_middleware ::
  "(nat, string request_parts, unit, unit, string, string, unit, noop_handle) policy_gate_middleware" where
  "web_middleware = layer_layer (example_layer web_gate web_adapter) 0"

definition web_input :: "((string, subject_slot) lru_list, string, string) layer_input" where
  "web_input = \<lparr> li_env = (\<lambda>_ g. g), li_clock = (\<lambda>_. 30), li_sent = True, li_admit = ex_input 30,
     li_secs = 30, li_loaded = 0 \<rparr>"

definition web_request :: "string \<Rightarrow> (string request_parts, unit) request" where
  "web_request value =
     \<lparr> rq_head = \<lparr> authorization = Some value, authenticated_subject = None \<rparr>, rq_body = () \<rparr>"

lemma layer_clone_same [simp]: "layer_clone l = l"
  by (simp add: layer_clone_def)

lemma authentication_example:
  "(\<exists>fut m' P'. example_app Some lru_list web_service web_input (web_middleware, 0, web_process)
        (web_request ''Bearer example-token'') = Inr (Some (fut, m', 0, P')))
    \<and> example_app Some lru_list web_service web_input (web_middleware, 0, web_process)
        (web_request ''Bearer guess'') = Inl 401"
proof -
  have m: "pm_layer web_middleware = example_layer web_gate web_adapter"
    by (simp add: web_middleware_def layer_layer_def)
  have p: "states web_process (pg_state web_gate) = Some web_cell"
    by (simp add: web_process_def web_gate_def)
  note guards = authentication_guards_policy [OF m p, where to_str = Some and S = web_service
      and L = lru_list and inp = web_input and next_log = 0]
  show ?thesis
    using guards [of "web_request ''Bearer example-token''"] guards [of "web_request ''Bearer guess''"]
    by (auto simp: web_request_def)
qed

end
