(* ===== verification/Authority_Setup.thy ===== *)
theory Authority_Setup
  imports Proto
begin

text \<open>
  How a client and a server of the policy authority are put together
  (\<open>src/src/policy_proto.rs\<close>): constructors, interceptors, compression and message sizes,
  clones, readiness and the service name. tonic's own client, its interceptors and its
  transport are parameters.
\<close>

section \<open>The client\<close>

text \<open>\<open>tonic::client::Grpc\<close>: the builder methods the client delegates to, and its calls.\<close>

record ('t, 'uri, 'e, 'g, 'st) grpc_builder =
  gb_new :: "'t \<Rightarrow> 'g"
  gb_with_origin :: "'t \<Rightarrow> 'uri \<Rightarrow> 'g"
  gb_send_compressed :: "'g \<Rightarrow> 'e \<Rightarrow> 'g"
  gb_accept_compressed :: "'g \<Rightarrow> 'e \<Rightarrow> 'g"
  gb_max_decoding_message_size :: "'g \<Rightarrow> u64 \<Rightarrow> 'g"
  gb_max_encoding_message_size :: "'g \<Rightarrow> u64 \<Rightarrow> 'g"
  gb_calls :: "'g \<Rightarrow> 'st grpc_client"

record 'g policy_authority_client =
  pc_inner :: 'g

definition client_new :: "('t, 'uri, 'e, 'g, 'st) grpc_builder \<Rightarrow> 't \<Rightarrow> 'g policy_authority_client" where
  "client_new B inner = \<lparr> pc_inner = gb_new B inner \<rparr>"

definition client_with_origin ::
  "('t, 'uri, 'e, 'g, 'st) grpc_builder \<Rightarrow> 't \<Rightarrow> 'uri \<Rightarrow> 'g policy_authority_client" where
  "client_with_origin B inner origin = \<lparr> pc_inner = gb_with_origin B inner origin \<rparr>"

definition client_with_interceptor ::
  "('i, 'uri, 'e, 'g, 'st) grpc_builder \<Rightarrow> ('t \<Rightarrow> 'f \<Rightarrow> 'i) \<Rightarrow> 't \<Rightarrow> 'f \<Rightarrow> 'g policy_authority_client" where
  "client_with_interceptor B intercepted inner interceptor = client_new B (intercepted inner interceptor)"

text \<open>\<open>connect\<close>, with \<open>Endpoint::new\<close> and \<open>Endpoint::connect\<close> as parameters.\<close>

definition client_connect ::
  "('t, 'uri, 'e, 'g, 'st) grpc_builder \<Rightarrow> ('d \<Rightarrow> 'err + 'ep) \<Rightarrow> ('ep \<Rightarrow> 'err + 't) \<Rightarrow> 'd
    \<Rightarrow> 'err + 'g policy_authority_client" where
  "client_connect B endpoint_new connect dst =
     (case endpoint_new dst of
        Inl e \<Rightarrow> Inl e
      | Inr ep \<Rightarrow> (case connect ep of Inl e \<Rightarrow> Inl e | Inr conn \<Rightarrow> Inr (client_new B conn)))"

definition client_send_compressed ::
  "('t, 'uri, 'e, 'g, 'st) grpc_builder \<Rightarrow> 'e \<Rightarrow> 'g policy_authority_client \<Rightarrow> 'g policy_authority_client" where
  "client_send_compressed B encoding c = c\<lparr>pc_inner := gb_send_compressed B (pc_inner c) encoding\<rparr>"

definition client_accept_compressed ::
  "('t, 'uri, 'e, 'g, 'st) grpc_builder \<Rightarrow> 'e \<Rightarrow> 'g policy_authority_client \<Rightarrow> 'g policy_authority_client" where
  "client_accept_compressed B encoding c = c\<lparr>pc_inner := gb_accept_compressed B (pc_inner c) encoding\<rparr>"

definition client_max_decoding_message_size ::
  "('t, 'uri, 'e, 'g, 'st) grpc_builder \<Rightarrow> u64 \<Rightarrow> 'g policy_authority_client \<Rightarrow> 'g policy_authority_client" where
  "client_max_decoding_message_size B limit c =
     c\<lparr>pc_inner := gb_max_decoding_message_size B (pc_inner c) limit\<rparr>"

definition client_max_encoding_message_size ::
  "('t, 'uri, 'e, 'g, 'st) grpc_builder \<Rightarrow> u64 \<Rightarrow> 'g policy_authority_client \<Rightarrow> 'g policy_authority_client" where
  "client_max_encoding_message_size B limit c =
     c\<lparr>pc_inner := gb_max_encoding_message_size B (pc_inner c) limit\<rparr>"

section \<open>The server\<close>

definition SERVICE_NAME :: string where
  "SERVICE_NAME = ''aspect.policy.gate.v1.PolicyAuthority''"

definition server_new :: "'st policy_authority \<Rightarrow> ('e, 'st) policy_authority_server" where
  "server_new inner = server_from_arc inner"

definition server_with_interceptor ::
  "(('e, 'st) policy_authority_server \<Rightarrow> 'f \<Rightarrow> 'i) \<Rightarrow> 'st policy_authority \<Rightarrow> 'f \<Rightarrow> 'i" where
  "server_with_interceptor intercepted inner interceptor = intercepted (server_new inner) interceptor"

definition server_poll_ready :: "('e, 'st) policy_authority_server \<Rightarrow> unit option" where
  "server_poll_ready s = Some ()"

definition server_clone ::
  "('e, 'st) policy_authority_server \<Rightarrow> ('e, 'st) policy_authority_server" where
  "server_clone s =
     \<lparr> ps_inner = ps_inner s,
       ps_accept_compression_encodings = ps_accept_compression_encodings s,
       ps_send_compression_encodings = ps_send_compression_encodings s,
       ps_max_decoding_message_size = ps_max_decoding_message_size s,
       ps_max_encoding_message_size = ps_max_encoding_message_size s \<rparr>"

section \<open>A configured server\<close>

text \<open>The settings a host can chain onto a server, and their effect in order.\<close>

datatype 'e server_setting =
    AcceptCompressed 'e
  | SendCompressed 'e
  | MaxDecoding u64
  | MaxEncoding u64

fun apply_setting ::
  "'e server_setting \<Rightarrow> ('e, 'st) policy_authority_server \<Rightarrow> ('e, 'st) policy_authority_server" where
  "apply_setting (AcceptCompressed e) s = accept_compressed e s"
| "apply_setting (SendCompressed e) s = send_compressed e s"
| "apply_setting (MaxDecoding n) s = max_decoding_message_size n s"
| "apply_setting (MaxEncoding n) s = max_encoding_message_size n s"

definition accepted :: "'e server_setting list \<Rightarrow> 'e set" where
  "accepted ss = {e. AcceptCompressed e \<in> set ss}"

definition sent :: "'e server_setting list \<Rightarrow> 'e set" where
  "sent ss = {e. SendCompressed e \<in> set ss}"

text \<open>The limit in force: the last one set.\<close>

fun last_limit :: "('e server_setting \<Rightarrow> u64 option) \<Rightarrow> 'e server_setting list \<Rightarrow> u64 option" where
  "last_limit f [] = None"
| "last_limit f (s # ss) = (case last_limit f ss of Some n \<Rightarrow> Some n | None \<Rightarrow> f s)"

fun decoding_limit :: "'e server_setting \<Rightarrow> u64 option" where
  "decoding_limit (MaxDecoding n) = Some n"
| "decoding_limit _ = None"

fun encoding_limit :: "'e server_setting \<Rightarrow> u64 option" where
  "encoding_limit (MaxEncoding n) = Some n"
| "encoding_limit _ = None"

lemma last_limit_snoc:
  "last_limit f (ss @ [s]) = (case f s of Some n \<Rightarrow> Some n | None \<Rightarrow> last_limit f ss)"
  by (induction ss) (auto split: option.splits)

lemma accepted_snoc [simp]:
  "accepted (ss @ [s]) = (case s of AcceptCompressed e \<Rightarrow> insert e (accepted ss) | _ \<Rightarrow> accepted ss)"
  by (auto simp: accepted_def split: server_setting.split)

lemma sent_snoc [simp]:
  "sent (ss @ [s]) = (case s of SendCompressed e \<Rightarrow> insert e (sent ss) | _ \<Rightarrow> sent ss)"
  by (auto simp: sent_def split: server_setting.split)

lemma fold_settings:
  "fold apply_setting ss (server_new inner) =
    \<lparr> ps_inner = inner, ps_accept_compression_encodings = accepted ss,
      ps_send_compression_encodings = sent ss,
      ps_max_decoding_message_size = last_limit decoding_limit ss,
      ps_max_encoding_message_size = last_limit encoding_limit ss \<rparr>"
proof (induction ss rule: rev_induct)
  case Nil
  then show ?case by (simp add: server_new_def server_from_arc_def accepted_def sent_def)
next
  case (snoc s ss)
  then show ?case
    by (cases s) (simp_all add: last_limit_snoc accept_compressed_def send_compressed_def
        max_decoding_message_size_def max_encoding_message_size_def)
qed

text \<open>
  What a configured server does with a call. Whatever settings were chained onto it, in
  any order, and through any clone, a call of one of the service's two methods reaches that
  method of the authority with exactly the encodings enabled and the last limits set;
  every other path is answered with \<open>UNIMPLEMENTED\<close> and the gRPC content type.
\<close>

lemma configured_server_dispatch:
  "server_call gs (server_clone (fold apply_setting ss (server_new inner))) req =
    (let config = \<lparr> compression_config = (accepted ss, sent ss),
           max_message_size_config = (last_limit decoding_limit ss, last_limit encoding_limit ss) \<rparr>
     in if gs_path gs req = ''/'' @ SERVICE_NAME @ ''/GetSubjectDecision''
        then gs_unary gs config (pa_get_subject_decision inner) req
        else if gs_path gs req = ''/'' @ SERVICE_NAME @ ''/WatchSubjectDecisions''
        then gs_server_streaming gs config (pa_watch_subject_decisions inner) req
        else gs_response gs [(''grpc-status'', ''12''), (''content-type'', ''application/grpc'')])"
  by (simp add: fold_settings server_clone_def server_call_def grpc_config_of_def SERVICE_NAME_def Let_def)

end
