(* ===== verification/Statements.thy ===== *)
theory Statements
  imports Effects
begin

text \<open>
  Which verdicts and which lookups an operation brings into the heap. An observation, an
  eviction, a release or a failure brings none; a change brings its decision to one entry; a
  completed lookup brings its answer to the entry it belongs to; an admission or a read
  brings at most a lookup of its own subject. Theory \<open>Provenance\<close> traces decisions with it.
\<close>

section \<open>Verdicts\<close>

text \<open>A decision with the payload it carries; only an allowed result carries one.\<close>

type_synonym 'p verdict = "decision \<times> 'p option"

definition snapshot_verdict :: "'p entry_snapshot \<Rightarrow> 'p verdict option" where
  "snapshot_verdict s =
     (case decode_entry_state (snap_word s) of
        EAllowed \<Rightarrow> Some (DAllowed, snap_payload s)
      | EDenied \<Rightarrow> Some (DDenied, snap_payload s)
      | EPending \<Rightarrow> None | EStale \<Rightarrow> None)"

abbreviation entry_verdict :: "('k, 'p) entry \<Rightarrow> 'p verdict option" where
  "entry_verdict e \<equiv> snapshot_verdict (deref (current e))"

definition result_verdict :: "'p decision_result \<Rightarrow> 'p verdict" where
  "result_verdict r = (decision r, if decision r = DAllowed then payload r else None)"

lemma result_verdict_change [simp]:
  "result_verdict \<lparr> decision = d, payload = None, valid_until = t \<rparr> = (d, None)"
  by (simp add: result_verdict_def)

lemma no_verdict [simp]:
  "decode_entry_state (snap_word s) = EStale \<Longrightarrow> snapshot_verdict s = None"
  "decode_entry_state (snap_word s) = EPending \<Longrightarrow> snapshot_verdict s = None"
  by (simp_all add: snapshot_verdict_def)

lemma verdict_state: "snapshot_verdict s = Some v \<Longrightarrow> decode_entry_state (snap_word s) = entry_state_of (fst v)"
  by (auto simp: snapshot_verdict_def split: entry_state.splits)

lemma decision_snapshot_verdict [simp]:
  "snapshot_verdict (decision_snapshot cfg now e r) = Some (result_verdict r)"
  by (cases "decision r") (simp_all add: snapshot_verdict_def result_verdict_def decision_snapshot_def Let_def)

lemma expire_verdict:
  "entry_verdict (expire n now e) = (if is_expired_at e (current_word e) now then None else entry_verdict e)"
  using stale_word_fix [of "current_word e"] by (simp add: expire_def current_at_quiet)

section \<open>What a step says\<close>

text \<open>
  From \<open>h\<close> to \<open>h'\<close> entries gain at most the verdicts in \<open>V\<close>, given as entry and verdict,
  and the lookups in \<open>P\<close>, given as entry and subject.
\<close>

definition says ::
  "(nat \<times> 'p verdict) set \<Rightarrow> (nat \<times> 'k) set \<Rightarrow> ('k, 'p) heap \<Rightarrow> ('k, 'p) heap \<Rightarrow> bool" where
  "says V P h h' \<longleftrightarrow>
     (\<forall>a e'. cells h' a = Some e' \<longrightarrow>
        (\<forall>d. entry_verdict e' = Some d \<longrightarrow>
           (\<exists>e. cells h a = Some e \<and> entry_verdict e = Some d) \<or> (a, d) \<in> V) \<and>
        (\<forall>p. pending e' = Some p \<longrightarrow>
           (\<exists>e. cells h a = Some e \<and> pending e = Some p) \<or> (a, fetch_subject (deref p)) \<in> P))"

abbreviation quiet :: "('k, 'p) heap \<Rightarrow> ('k, 'p) heap \<Rightarrow> bool" where
  "quiet \<equiv> says {} {}"

lemma saysD:
  assumes "says V P h h'" "cells h' a = Some e'"
  shows "entry_verdict e' = Some d \<Longrightarrow>
      (\<exists>e. cells h a = Some e \<and> entry_verdict e = Some d) \<or> (a, d) \<in> V"
    and "pending e' = Some p \<Longrightarrow>
      (\<exists>e. cells h a = Some e \<and> pending e = Some p) \<or> (a, fetch_subject (deref p)) \<in> P"
  using assms unfolding says_def by blast+

lemma says_trans: "says V P h h' \<Longrightarrow> says V P h' h'' \<Longrightarrow> says V P h h''"
  unfolding says_def by (smt (verit, best))

lemma says_mono: "says V P h h' \<Longrightarrow> V \<subseteq> V' \<Longrightarrow> P \<subseteq> P' \<Longrightarrow> says V' P' h h'"
  unfolding says_def by blast

lemma quiet_says: "quiet h h' \<Longrightarrow> says V P h h'"
  using says_mono [of "{}" "{}" h h' V P] by blast

lemma says_same [intro]: "cells h' = cells h \<Longrightarrow> says V P h h'"
  by (auto simp: says_def)

lemma says_refl [simp]: "says V P h h"
  by (rule says_same) (rule refl)

lemma says_from [simp]: "says V P (h\<lparr>next_addr := n\<rparr>) h' = says V P h h'" "says V P (h\<lparr>aborted := xs\<rparr>) h' = says V P h h'"
  "says V P h (h'\<lparr>next_addr := n\<rparr>) = says V P h h'" "says V P h (h'\<lparr>aborted := xs\<rparr>) = says V P h h'"
  "says V P h (record_abort x h') = says V P h h'"
  by (simp_all add: says_def)

lemma says_then_quiet: "says V P h h' \<Longrightarrow> quiet h' h'' \<Longrightarrow> says V P h h''"
  using says_trans quiet_says by blast

lemma quiet_then_says: "quiet h h' \<Longrightarrow> says V P h' h'' \<Longrightarrow> says V P h h''"
  using says_trans quiet_says by blast

text \<open>One entry changes.\<close>

lemma says_update:
  assumes "\<And>a. cells h' a = (if a = ea then Some e' else cells h a)"
    and "\<And>d. entry_verdict e' = Some d \<Longrightarrow>
      (\<exists>e. cells h ea = Some e \<and> entry_verdict e = Some d) \<or> (ea, d) \<in> V"
    and "\<And>p. pending e' = Some p \<Longrightarrow>
      (\<exists>e. cells h ea = Some e \<and> pending e = Some p) \<or> (ea, fetch_subject (deref p)) \<in> P"
  shows "says V P h h'"
  using assms unfolding says_def by auto

lemma with_entry_says:
  assumes "\<And>e. cells h ea = Some e \<Longrightarrow>
      (\<forall>d. entry_verdict (snd (f (next_addr h) e)) = Some d \<longrightarrow>
        entry_verdict e = Some d \<or> (ea, d) \<in> V) \<and>
      (\<forall>p. pending (snd (f (next_addr h) e)) = Some p \<longrightarrow>
        pending e = Some p \<or> (ea, fetch_subject (deref p)) \<in> P)"
  shows "says V P h (snd (with_entry ea f d h))"
proof (cases "cells h ea")
  case (Some e)
  with assms [OF Some] show ?thesis
    unfolding with_entry_heap [OF Some] snd_conv by (intro says_update [where ea = ea]) auto
qed (simp add: with_entry_def)

lemma expire_quiet:
  assumes "\<And>n e. snd (f n e) = expire n now e"
  shows "quiet h (snd (with_entry ea f d h))"
  by (rule with_entry_says) (simp add: assms expire_verdict)

lemma observations_quiet [simp]:
  "quiet h (snd (with_entry ea (\<lambda>a. state_at a now) d1 h))"
  "quiet h (snd (with_entry ea (\<lambda>a. verdict_at a now) d2 h))"
  "quiet h (snd (with_entry ea (\<lambda>a. admission a now) d3 h))"
  "quiet h (snd (with_entry ea (\<lambda>a. observed_at a now) d4 h))"
  by (rule expire_quiet; simp add: state_at_eq verdict_at_eq admission_eq observed_at_eq)+

lemma release_quiet [simp]: "quiet h (release_claim gen ea h)"
  unfolding release_claim_def
  by (rule with_entry_says) (simp add: replace_pending_eq split: option.split)

lemma invalidate_quiet_heap [simp]: "quiet h (heap_invalidate ea h)"
proof -
  have "quiet h (snd (with_entry ea (invalidate []) None h))"
    by (rule with_entry_says) (simp add: invalidate_quiet)
  then show ?thesis by (simp add: heap_invalidate_def case_prod_beta)
qed

lemma fail_quiet [simp]: "quiet h (snd (fail_pending fa gen ea h))"
  unfolding fail_pending_def
  by (rule with_entry_says) (simp add: compare_exchange_quiet)

lemma same_entry_quiet [simp]: "quiet h (snd (same_entry ea cur h))"
  "quiet h (snd (same_stale_entry now ea cur h))"
  by (simp_all add: same_entry_def same_stale_entry_def case_prod_beta)

lemma change_says: "says {(ea, d, None)} {} h (change_entry cfg now d ea h)"
proof -
  have "says {(ea, d, None)} {} h (snd (with_entry ea (\<lambda>a e. publish_change []
      (\<lambda>_. Arc a (decision_snapshot cfg now e \<lparr> decision = d, payload = None, valid_until = None \<rparr>)) e) None h))"
    by (rule with_entry_says) (simp add: publish_change_quiet del: publish_change.simps)
  then show ?thesis by (simp add: change_entry_def case_prod_beta)
qed

text \<open>The heap after a change: the entry holds the decision.\<close>

lemma change_entry_state:
  assumes "cells (change_entry cfg now d ea h) ea = Some e"
  shows "entry_verdict e = Some (d, None)"
proof (cases "cells h ea")
  case (Some e0)
  from assms show ?thesis by (auto simp: change_entry_eq [OF Some])
qed (use assms in \<open>simp add: change_entry_def with_entry_def record_abort_def\<close>)

section \<open>The map\<close>

lemma retire_slot_quiet [simp]: "quiet (sm_heap m) (sm_heap (retire_slot s m))"
  by (simp add: retire_slot_def)

lemma evict_loop_quiet: "quiet (sm_heap m) (sm_heap (evict_loop L n ttl now m))"
proof (induction n arbitrary: m)
  case (Suc n)
  have "quiet (sm_heap m) (sm_heap (evict_loop L n ttl now (retire_slot s (m\<lparr>sm_entries := c\<rparr>))))" for s c
    using says_trans [OF retire_slot_quiet Suc.IH, of "m\<lparr>sm_entries := c\<rparr>" s] by simp
  then show ?case by (auto split: option.split prod.split)
qed simp

lemma evict_quiet [simp]: "quiet (sm_heap m) (sm_heap (evict L now m))"
  unfolding evict_def by (rule evict_loop_quiet)

lemma pop_slot_quiet [simp]: "quiet (sm_heap m) (sm_heap (snd (pop_slot L k m)))"
  by (simp add: pop_slot_def split: prod.split option.split)

lemma map_touch_quiet [simp]: "quiet (sm_heap m) (sm_heap (snd (map_touch L k ea now m)))"
  using evict_quiet [of "m\<lparr>sm_entries := c\<rparr>" for c]
  by (simp add: map_touch_def Let_def split: option.split)

lemma map_remove_quiet [simp]: "quiet (sm_heap m) (sm_heap (snd (map_remove L k now m)))"
  unfolding map_remove_def by (rule says_trans [OF evict_quiet pop_slot_quiet])

lemma map_remove_if_quiet:
  assumes "\<And>ea h. quiet h (snd (pred ea h))"
  shows "quiet (sm_heap m) (sm_heap (snd (map_remove_if L k now pred m)))"
proof -
  let ?m = "evict L (map_tick m now) m"
  have "quiet (sm_heap m) (snd (pred a (sm_heap ?m)))" for a
    by (rule says_trans [OF evict_quiet assms])
  moreover have "quiet (sm_heap m) (sm_heap (snd (pop_slot L k (?m\<lparr>sm_heap := snd (pred a (sm_heap ?m))\<rparr>))))" for a
    by (rule says_trans [OF calculation]) (use pop_slot_quiet [of "?m\<lparr>sm_heap := snd (pred a (sm_heap ?m))\<rparr>"] in simp)
  ultimately show ?thesis
    by (simp add: map_remove_if_def Let_def case_prod_beta split: option.split)
qed

lemma map_clear_quiet [simp]:
  fixes m :: "('c, 'a, 'b) subject_map"
  shows "quiet (sm_heap m) (sm_heap (map_clear L m))"
proof -
  have "quiet h (fold (\<lambda>(k, s). heap_invalidate (slot_entry s)) ps h)" for ps and h :: "('a, 'b) heap"
    by (induction ps arbitrary: h) (auto intro: says_trans [OF invalidate_quiet_heap])
  then show ?thesis by (simp add: map_clear_def Let_def)
qed


lemma create_says: "create_entry cfg k now h = (ea, h') \<Longrightarrow> says {} {(ea, k)} h h'"
  by (rule says_update [where ea = ea])
    (auto simp: create_entry_def new_fetch_after_def entry_pending_def Let_def)

lemma get_or_insert_says:
  assumes create: "\<And>h a h'. create h = (a, h') \<Longrightarrow> says {} {(a, k)} h h'"
    and r: "get_or_insert_with L k now create m = ((ea, inserted), m')"
  shows "says {} {(ea, k)} (sm_heap m) (sm_heap m')"
proof (cases "lru_get_mut L k (sm_entries m)")
  case None
  let ?m = "evict L (map_tick m now) m"
  obtain a h where cr: "create (sm_heap ?m) = (a, h)" by fastforce
  from quiet_then_says [OF evict_quiet create [OF cr]]
  have new: "says {} {(a, k)} (sm_heap m) h" .
  have "says {} {(a, k)} (sm_heap m) (sm_heap (evict L t m2))" if "quiet h (sm_heap m2)" for t m2
    by (rule says_then_quiet [OF says_then_quiet [OF new that] evict_quiet])
  moreover have "quiet h (sm_heap (?m\<lparr>sm_heap := h, sm_entries := c\<rparr>))" for c by simp
  moreover have "quiet h (sm_heap (retire_slot s (?m\<lparr>sm_heap := h, sm_entries := c\<rparr>)))" for s c
    using retire_slot_quiet [of "?m\<lparr>sm_heap := h, sm_entries := c\<rparr>" s] by simp
  ultimately show ?thesis
    using r None cr by (auto simp: get_or_insert_with_def Let_def split: prod.splits option.splits)
next
  case (Some sp)
  have "quiet (sm_heap m) (sm_heap (evict L t (m\<lparr>sm_entries := c\<rparr>)))" for t c
    using evict_quiet [of "m\<lparr>sm_entries := c\<rparr>"] by simp
  with r Some show ?thesis
    by (auto simp: get_or_insert_with_def Let_def split: prod.splits intro: quiet_says)
qed

section \<open>Reads\<close>

lemma access_claim_says:
  assumes "access_claim cfg clk k ea ad h = (claim, h')"
  shows "says {} {(ea, k)} h h'"
proof -
  let ?h1 = "snd (with_entry ea (\<lambda>a. admission a (clk 0)) False h)"
  have "says {} {(ea, k)} ?h1 (h0\<lparr>cells := (cells ?h1)(ea \<mapsto> e\<lparr>pending := Some f\<rparr>)\<rparr>)"
    if "cells ?h1 ea = Some e" "fetch_subject (deref f) = k" for e f and h0 :: "('a, 'b) heap"
    by (rule says_update [where ea = ea and e' = "e\<lparr>pending := Some f\<rparr>"]) (use that in auto)
  from quiet_then_says [OF observations_quiet(3) this] quiet_says [OF observations_quiet(3)] assms
  show ?thesis
    by (auto simp: access_claim_def new_fetch_after_def Let_def case_prod_beta split: if_splits option.splits)
qed

lemma admission_release_quiet [simp]:
  "quiet h (release_claim gen eb (snd (with_entry ea (\<lambda>a. admission a now) d h)))"
  by (rule says_trans [OF observations_quiet(3) release_quiet])

lemma access_revalidate_quiet: "access_revalidate clk ea f cur h = (answer, h') \<Longrightarrow> quiet h h'"
  by (auto simp: access_revalidate_def Let_def case_prod_beta split: option.splits if_splits)

lemma set_heap_heap [simp]: "gate_heap (set_heap h g) = h"
  by (simp add: set_heap_def)

lemma access_finish_quiet: "quiet (gate_heap g) (gate_heap (snd (access_finish clk ea f sent g)))"
  by (simp add: access_finish_def Let_def case_prod_beta)

lemma access_says: "says {} {(ea, k)} (gate_heap g) (gate_heap (snd (admission_on_access clk k ea ad sent g)))"
proof -
  obtain claim h where cl: "access_claim (config g) clk k ea ad (gate_heap g) = (claim, h)" by fastforce
  note S = access_claim_says [OF cl]
  show ?thesis
  proof (cases claim)
    case (Inr x)
    obtain f cur qd where x: "x = (f, cur, qd)" by (cases x) auto
    obtain answer h2 where rv: "access_revalidate (\<lambda>i. clk (i + 2)) ea f cur h = (answer, h2)" by fastforce
    note S2 = says_then_quiet [OF S access_revalidate_quiet [OF rv]]
    have "says {} {(ea, k)} (gate_heap g) (gate_heap (snd (access_finish (\<lambda>i. clk (i + 3)) ea f sent (set_heap h2 g))))"
      using says_then_quiet [OF S2] access_finish_quiet [of "set_heap h2 g"] by simp
    with S2 show ?thesis
      by (cases answer) (simp_all add: admission_on_access_def cl Inr x rv [simplified])
  qed (use S in \<open>simp add: admission_on_access_def cl\<close>)
qed

lemma touch_then_access_says:
  assumes "quiet h (sm_heap m)"
  shows "says {} {(ea, k)} h (gate_heap (snd (admission_on_access clk k ea ad sent
    (g\<lparr>subjects := snd (map_touch L k ea now m)\<rparr>))))"
  by (rule quiet_then_says [OF assms quiet_then_says [OF map_touch_quiet]])
    (use access_says [of ea k "g\<lparr>subjects := snd (map_touch L k ea now m)\<rparr>"] in simp)

lemma check_says:
  "says {} {(ea, k) | ea. snapshot g k = Some ea} (gate_heap g) (gate_heap (snd (gate_check L clk k sent g)))"
proof (cases "snapshot g k")
  case (Some ea)
  have "quiet (gate_heap g) (sm_heap (subjects (set_heap (snd (with_entry ea (\<lambda>a. verdict_at a (clk 0)) None
      (gate_heap g))) g)))" by simp
  from touch_then_access_says [OF this] show ?thesis
    by (simp add: gate_check_def Some Let_def case_prod_beta quiet_says split: option.split)
qed (simp add: gate_check_def)

lemma check_sync_quiet: "quiet (gate_heap g) (gate_heap (snd (check_without_refresh L clk k g)))"
proof (cases "snapshot g k")
  case (Some ea)
  let ?m = "subjects (set_heap (snd (with_entry ea (\<lambda>a. verdict_at a (clk 0)) None (gate_heap g))) g)"
  have "quiet (gate_heap g) (sm_heap ?m)" by simp
  from says_trans [OF says_trans [OF this map_touch_quiet] observations_quiet(3)]
  show ?thesis
    by (simp add: check_without_refresh_def Some Let_def case_prod_beta split: option.split)
qed (simp add: check_without_refresh_def)

lemma refresh_says:
  "says {} {x. x = (ea, k) \<and> fst (map_touch L k ea (clk 0) (subjects g))} (gate_heap g)
    (gate_heap (refresh_entry L clk k ea sent g))"
proof (cases "fst (map_touch L k ea (clk 0) (subjects g))")
  case True
  then have r: "refresh_entry L clk k ea sent g = snd (admission_on_access (\<lambda>i. clk (i + 1)) k ea None sent
      (g\<lparr>subjects := snd (map_touch L k ea (clk 0) (subjects g))\<rparr>))"
    by (simp add: refresh_entry_def Let_def case_prod_beta)
  show ?thesis
    unfolding r using True touch_then_access_says [OF says_refl] by simp
qed (simp add: refresh_entry_def Let_def case_prod_beta)


section \<open>Admissions\<close>

text \<open>The entry a suspended or finished admission holds.\<close>

fun pc_entry :: "('k, 'p) admit_pc \<Rightarrow> nat option" where
  "pc_entry (AEntry ea) = Some ea"
| "pc_entry (AJoin ea f) = Some ea"
| "pc_entry (ADone r) = r"
| "pc_entry _ = None"

lemma frame_heap [simp]:
  "gate_heap (log x g) = gate_heap g" "gate_heap (mark_dirty g) = gate_heap g"
  by (simp_all add: log_def mark_dirty_def)

lemma republish_heap: "republish_if_due L now g = Some g' \<Longrightarrow> gate_heap g' = gate_heap g"
  using republish_subjects by blast

lemma observe_state_quiet [simp]: "quiet (gate_heap g) (gate_heap (snd (observe_state now ea g)))"
  by (simp add: observe_state_def case_prod_beta)

lemma admit_lookup_says:
  assumes "admit_lookup L k now g = (ea, g')"
  shows "says {} {(ea, k)} (gate_heap g) (gate_heap g')"
proof -
  obtain a b m where r: "get_or_insert_with L k now (create_entry (config g) k now) (subjects g) = ((a, b), m)"
    by (metis surj_pair)
  from get_or_insert_says [OF create_says r] assms show ?thesis
    by (auto simp: admit_lookup_def r Let_def split: if_splits)
qed

lemma admit_remove_quiet:
  "(\<And>a h. quiet h (snd (pred a h))) \<Longrightarrow> quiet (gate_heap g) (gate_heap (admit_remove L k now pred g))"
  using map_remove_if_quiet [of pred "subjects g" L k now]
  by (simp add: admit_remove_def Let_def case_prod_beta)

lemma admit_access_says:
  "says {} {(ea, at_subject t)} (gate_heap g) (gate_heap (snd (admit_access clk sent ea pc (t, g))))"
  using access_says [of ea "at_subject t" g] by (simp add: admit_access_def case_prod_beta)

lemma observed_access_says:
  assumes "gate_heap g' = gate_heap (snd (observe_state now ea g))"
  shows "says {} {(ea, at_subject t)} (gate_heap g) (gate_heap (snd (admit_access clk sent ea pc (t, g'))))"
  by (rule quiet_then_says [OF observe_state_quiet [of g now ea]])
    (use admit_access_says [of ea t g'] assms in simp)

lemma admit_join_quiet: "quiet (gate_heap g) (gate_heap (snd (admit_join now ea (t, g))))"
  by (simp add: admit_join_def Let_def case_prod_beta split: option.split)

lemma admit_joined_says:
  "says {} {(ea, at_subject t)} (gate_heap g) (gate_heap (snd (admit_joined clk sent ea result (t, g))))"
proof -
  let ?o = "snd (observe_state (clk 0) ea g)"
  have "says {} {(ea, at_subject t)} (gate_heap g) (gate_heap (snd (admit_access clk' sent ea pc (t, ?o))))" for clk' pc
    by (rule observed_access_says) (rule refl)
  moreover have "says {} {(ea, at_subject t)} (gate_heap g) (gate_heap ?o)" by (rule quiet_says) simp
  ultimately show ?thesis
    by (simp add: admit_joined_def Let_def case_prod_beta split: sum.split)
qed

lemma admit_entry_says:
  assumes "admit_entry L inp ea (t, g) = Some (t', g')"
  shows "says {} {(ea, at_subject t)} (gate_heap g) (gate_heap g')"
proof -
  let ?o = "snd (observe_state (in_clock inp 1) ea g)"
  have removed: "quiet (gate_heap ?o) (gate_heap g1)"
    if "republish_if_due L now (admit_remove L k n (same_stale_entry n' a) ?o) = Some g1" for now k n n' a g1
    using admit_remove_quiet [of "same_stale_entry n' a" ?o L k n] republish_heap [OF that] by simp
  show ?thesis
  proof (cases "in_clock inp 0 \<ge> at_deadline t \<or> \<not> connected g")
    case True
    then have "gate_heap g' = gate_heap g \<or>
        g' = admit_remove L (at_subject t) (in_clock inp 0) (same_entry ea) g"
      using assms by (auto simp: admit_entry_def Let_def split: if_splits)
    with quiet_says [OF admit_remove_quiet [OF same_entry_quiet(1)]] show ?thesis by auto
  next
    case False
    have served: "says {} {(ea, at_subject t)} (gate_heap g) (gate_heap g')"
      if "admit_access clk sent ea pc (t, log MapHit ?o) = (t', g')" for clk sent pc
      using observed_access_says [of "log MapHit ?o" "in_clock inp 1" ea g t clk sent pc] that by simp
    show ?thesis
    proof (cases "fst (observe_state (in_clock inp 1) ea g)")
      case EPending
      with False assms have "g' = snd (admit_join (in_clock inp 2) ea (t, ?o))"
        by (simp add: admit_entry_def Let_def case_prod_beta)
      with quiet_says [OF says_trans [OF observe_state_quiet admit_join_quiet]] show ?thesis by simp
    next
      case EStale
      with False assms have "republish_if_due L (in_clock inp 4)
          (admit_remove L (at_subject t) (in_clock inp 2) (same_stale_entry (in_clock inp 3) ea) ?o) = Some g'"
        by (auto simp: admit_entry_def Let_def case_prod_beta split: Option.bind_splits)
      from quiet_says [OF says_trans [OF observe_state_quiet removed [OF this]]] show ?thesis .
    qed (rule served, use False assms in \<open>simp add: admit_entry_def Let_def case_prod_beta\<close>)+
  qed
qed

lemma admit_access_pc:
  assumes "admit_access clk sent ea pc (t, g) = (t', g')" "pc_entry pc \<in> {None, Some ea}"
  shows "at_subject t' = at_subject t \<and> pc_entry (at_pc t') \<in> {None, Some ea}"
  using assms by (auto simp: admit_access_def split: prod.splits if_splits)

lemma admit_join_pc:
  "admit_join now ea (t, g) = (t', g') \<Longrightarrow>
    at_subject t' = at_subject t \<and> pc_entry (at_pc t') \<in> {None, Some ea}"
  by (auto simp: admit_join_def Let_def split: option.splits prod.splits if_splits)

lemma admit_joined_pc:
  "admit_joined clk sent ea result (t, g) = (t', g') \<Longrightarrow>
    at_subject t' = at_subject t \<and> pc_entry (at_pc t') \<in> {None, Some ea}"
  using admit_access_pc [of "\<lambda>i. clk (i + 1)" sent ea AConnect t]
  by (auto simp: admit_joined_def Let_def split: sum.splits prod.splits if_splits)

lemma admit_entry_pc:
  assumes "admit_entry L inp ea (t, g) = Some (t', g')"
  shows "at_subject t' = at_subject t \<and> pc_entry (at_pc t') \<in> {None, Some ea}"
proof -
  have "t' = goto (ADone None) t \<or> t' = goto AConnect t \<or>
      (\<exists>clk sent g1. admit_access clk sent ea AConnect (t, g1) = (t', g')) \<or>
      (\<exists>now g1. admit_join now ea (t, g1) = (t', g'))"
    using assms
    by (cases "fst (observe_state (in_clock inp 1) ea g)")
      (auto simp: admit_entry_def Let_def case_prod_beta split: if_splits Option.bind_splits)
  with admit_access_pc [of _ _ ea AConnect t _ t' g'] admit_join_pc [of _ ea t _ t' g'] show ?thesis by auto
qed

lemma admit_poll_says:
  assumes r: "admit_poll L inp (t, g) = Some (t', g')"
  shows "says {} {(ea, at_subject t) | ea. pc_entry (at_pc t) = Some ea \<or> pc_entry (at_pc t') = Some ea}
    (gate_heap g) (gate_heap g')"
    and "pc_entry (at_pc t') = Some ea \<Longrightarrow> pc_entry (at_pc t) = Some ea \<or> at_pc t = AInsert"
    and "at_subject t' = at_subject t"
proof -
  let ?P = "{(ea, at_subject t) | ea. pc_entry (at_pc t) = Some ea \<or> pc_entry (at_pc t') = Some ea}"
  have "says {} ?P (gate_heap g) (gate_heap g') \<and> at_subject t' = at_subject t \<and>
    (\<forall>ea. pc_entry (at_pc t') = Some ea \<longrightarrow> pc_entry (at_pc t) = Some ea \<or> at_pc t = AInsert)"
  proof (cases "at_pc t")
    case AInsert
    obtain ea g1 where g1: "admit_lookup L (at_subject t) (in_clock inp 0) g = (ea, g1)" by fastforce
    with AInsert have g2: "republish_if_due L (in_clock inp 1) g1 = Some g'" "t' = goto (AEntry ea) t"
      using r by (auto simp: admit_poll_def Let_def split: Option.bind_splits)
    from admit_lookup_says [OF g1] g2(2) AInsert show ?thesis
      by (auto simp: republish_heap [OF g2(1)] elim!: says_mono)
  next
    case (AEntry ea)
    then have e: "admit_entry L inp ea (t, g) = Some (t', g')" using r by (simp add: admit_poll_def Let_def)
    from says_mono [OF admit_entry_says [OF e]] admit_entry_pc [OF e] AEntry show ?thesis by auto
  next
    case (AJoin ea f)
    show ?thesis
    proof (cases "in_clock inp 0 \<ge> at_deadline t")
      case True
      define r where "r = admit_access (\<lambda>i. in_clock inp (i + 1)) (in_sent inp) ea (ADone None) (t, g)"
      have t': "t' = fst r" "gate_heap g' = gate_heap (snd r)"
        using True AJoin assms by (auto simp: admit_poll_def r_def Let_def split: prod.splits)
      from admit_access_says [of ea t g] have "says {} {(ea, at_subject t)} (gate_heap g) (gate_heap (snd r))"
        unfolding r_def .
      moreover from admit_access_pc [of _ _ ea "ADone None" t g "fst r" "snd r"]
      have "at_subject t' = at_subject t \<and> pc_entry (at_pc t') \<in> {None, Some ea}"
        by (simp add: r_def t')
      ultimately show ?thesis using AJoin t' by (auto elim!: says_mono)
    next
      case False
      then have "(t' = t \<or> t' = goto AConnect t) \<and> g' = g \<or>
          (\<exists>clk result. admit_joined clk (in_sent inp) ea result (t, g) = (t', g'))"
        using AJoin r by (auto simp: admit_poll_def Let_def split: join_event.splits option.splits)
      then show ?thesis
      proof
        assume "\<exists>clk result. admit_joined clk (in_sent inp) ea result (t, g) = (t', g')"
        then obtain clk result where j: "admit_joined clk (in_sent inp) ea result (t, g) = (t', g')" by blast
        with admit_joined_says [of ea t g clk "in_sent inp" result]
        have "says {} {(ea, at_subject t)} (gate_heap g) (gate_heap g')" by simp
        with admit_joined_pc [OF j] AJoin show ?thesis by (auto elim!: says_mono)
      qed auto
    qed
  qed (use r in \<open>auto simp: admit_poll_def Let_def split: if_splits\<close>)
  then show "says {} ?P (gate_heap g) (gate_heap g')"
    "pc_entry (at_pc t') = Some ea \<Longrightarrow> pc_entry (at_pc t) = Some ea \<or> at_pc t = AInsert"
    "at_subject t' = at_subject t" by blast+
qed


section \<open>Lookups\<close>

text \<open>The decision a returned lookup carries.\<close>

fun outcome_verdict :: "'p lookup_outcome \<Rightarrow> 'p verdict option" where
  "outcome_verdict (LookupReturned (Inr (Some r))) = Some (result_verdict r)"
| "outcome_verdict _ = None"

lemma lookup_result_decision:
  "lookup_result now outcome = Inr r \<Longrightarrow> outcome_verdict outcome = Some (result_verdict r)"
  by (auto simp: lookup_result_def split: lookup_outcome.splits sum.splits option.splits if_splits)

lemma prepare_result_decision:
  "prepare_result cfg clk e result = Inr snap \<Longrightarrow>
    \<exists>r. result = Inr r \<and> snapshot_verdict snap = Some (result_verdict r)"
  by (auto simp: prepare_result_def Let_def split: sum.splits if_splits)

lemma apply_refresh_says:
  assumes e: "cells h ea = Some e" "pending_generation e gen \<noteq> None"
    and d: "\<And>snap. res = Inr snap \<Longrightarrow> \<exists>d. snapshot_verdict snap = Some d \<and> (ea, d) \<in> V"
  shows "says V {} h (snd (with_entry ea (\<lambda>a e.
    ((), apply_refresh cfg now t2 gen cur (map_sum id (Arc a) res) e)) () h))"
proof (rule with_entry_says)
  fix e'
  assume "cells h ea = Some e'"
  with e have e': "pending_generation e' gen \<noteq> None" by simp
  show "(\<forall>d. entry_verdict (snd ((), apply_refresh cfg now t2 gen cur (map_sum id (Arc (next_addr h)) res) e')) =
        Some d \<longrightarrow> entry_verdict e' = Some d \<or> (ea, d) \<in> V) \<and>
      (\<forall>p. pending (snd ((), apply_refresh cfg now t2 gen cur (map_sum id (Arc (next_addr h)) res) e')) = Some p \<longrightarrow>
        pending e' = Some p \<or> (ea, fetch_subject (deref p)) \<in> {})"
    using d by (cases res) (auto simp: apply_refresh_eq [OF e'])
qed

lemma apply_verdict_says:
  assumes e: "cells h ea = Some e" "pending_generation e gen \<noteq> None"
    and d: "snapshot_verdict snap = Some d"
  shows "says {(ea, d)} {} h (snd (with_entry ea (\<lambda>a e. ((), apply_verdict gen (Arc a snap) e)) () h))"
  by (rule with_entry_says) (use e d in \<open>auto simp: apply_verdict_eq\<close>)

lemma apply_permanent_failure_says:
  assumes e: "cells h ea = Some e" "pending_generation e gen \<noteq> None"
  shows "says {} {(ea, k)} h (apply_permanent_failure cfg t2 k ea gen h)"
proof (cases "\<not> is_expired_at e (current_word e) t2 \<and> current_state e = EPending")
  case True
  show ?thesis
    unfolding apply_permanent_failure_eq [OF e] if_P [OF True]
    by (rule says_update [where ea = ea]) (use True e in auto)
next
  case False
  show ?thesis
    unfolding apply_permanent_failure_eq [OF e] if_not_P [OF False] by (rule quiet_says [OF observations_quiet(1)])
qed

text \<open>
  A lookup that completes is the pending lookup of its entry or changes no entry; the entry
  gains at most the decision it returned, or a later lookup of the same subject.
\<close>

lemma apply_fetch_result_says:
  assumes r: "apply_fetch_result L clk k ea gen rf result g = Some (answer, g')"
    and live: "cells (gate_heap g) ea = Some e" "pending_generation e gen \<noteq> None"
  shows "says {(ea, result_verdict r) | r. result = Inr r} {(ea, k)} (gate_heap g) (gate_heap g')"
proof -
  define res where "res = prepare_result (config g) clk e result"
  have dec: "\<exists>r. result = Inr r \<and> snapshot_verdict snap = Some (result_verdict r)"
    if "res = Inr snap" for snap
    using prepare_result_decision that unfolding res_def by blast
  show ?thesis
  proof (cases rf)
    case (Some cur)
    with r live have "g' = set_heap (snd (with_entry ea (\<lambda>a e. ((), apply_refresh (config g) (clk 1) (clk 2) gen cur
        (map_sum id (Arc a) res) e)) () (gate_heap g))) g"
      by (simp add: apply_fetch_result_def res_def Let_def)
    moreover have "\<exists>d. snapshot_verdict snap = Some d \<and> (ea, d) \<in> {(ea, result_verdict r) | r. result = Inr r}"
      if "res = Inr snap" for snap using dec [OF that] by blast
    ultimately show ?thesis
      using says_mono [OF apply_refresh_says [OF live], of res "{(ea, result_verdict r) | r. result = Inr r}"] by simp
  next
    case None
    show ?thesis
    proof (cases res)
      case (Inr snap)
      from dec [OF Inr] obtain d where d: "result = Inr d" "snapshot_verdict snap = Some (result_verdict d)"
        by blast
      have "g' = set_heap (snd (with_entry ea (\<lambda>a e. ((), apply_verdict gen (Arc a snap) e)) () (gate_heap g))) g"
        using r live None Inr by (simp add: apply_fetch_result_def res_def Let_def)
      then show ?thesis using says_mono [OF apply_verdict_says [OF live d(2)]] d(1) by simp
    next
      case (Inl err)
      show ?thesis
      proof (cases "is_permanent_status err")
        case True
        with r live None Inl have "g' = set_heap (apply_permanent_failure (config g) (clk 2) k ea gen (gate_heap g)) g"
          by (simp add: apply_fetch_result_def res_def Let_def)
        then show ?thesis using says_mono [OF apply_permanent_failure_says [OF live]] by simp
      next
        case False
        let ?rm = "map_remove_if L k (clk 2) (fail_pending ea gen) (subjects g)"
        have "republish_if_due L (clk 3) (if fst ?rm then mark_dirty (g\<lparr>subjects := snd ?rm\<rparr>)
            else g\<lparr>subjects := snd ?rm\<rparr>) = Some g'"
          using r live None Inl False
          by (auto simp: apply_fetch_result_def res_def Let_def split: prod.splits Option.bind_splits)
        from republish_heap [OF this] map_remove_if_quiet [of "fail_pending ea gen" "subjects g" L k "clk 2"]
        have "quiet (gate_heap g) (gate_heap g')" by (simp split: if_splits)
        then show ?thesis by (rule quiet_says)
      qed
    qed
  qed
qed

lemma run_fetch_says:
  assumes f: "fetch_issued (gate_heap g) f" and r: "run_fetch L clk f outcome g = Some (answer, g')"
  shows "quiet (gate_heap g) (gate_heap g') \<or>
    answer \<noteq> None \<and> (\<exists>e. cells (gate_heap g) (fetch_entry (deref f)) = Some e \<and> pending e = Some f) \<and>
    says {(fetch_entry (deref f), d) | d. outcome_verdict outcome = Some d}
      {(fetch_entry (deref f), fetch_subject (deref f))} (gate_heap g) (gate_heap g')"
proof (cases "generation (deref f) \<in> set (aborted (gate_heap g))")
  case True
  with r show ?thesis by (simp add: run_fetch_def Let_def)
next
  case False
  then obtain a g1 where a: "apply_fetch_result L (\<lambda>i. clk (Suc i)) (fetch_subject (deref f))
      (fetch_entry (deref f)) (generation (deref f)) (fetch_refresh_from (deref f))
      (lookup_result (clk 0) outcome) (log UnaryCall g) = Some (a, g1)"
    and g': "g' = g1 \<or> g' = log UnaryFailure g1 \<or> g' = log UnaryFailure (log WireFailure g1)"
    and answer: "answer \<noteq> None"
    using r by (auto simp: run_fetch_def Let_def split: Option.bind_splits sum.splits if_splits)
  show ?thesis
  proof (cases "\<exists>e. cells (gate_heap g) (fetch_entry (deref f)) = Some e \<and>
      pending_generation e (generation (deref f)) \<noteq> None")
    case True
    then obtain e where e: "cells (gate_heap g) (fetch_entry (deref f)) = Some e"
      "pending_generation e (generation (deref f)) \<noteq> None" by blast
    with f have "pending e = Some f" unfolding pending_generation_Some fetch_issued_def by blast
    moreover from apply_fetch_result_says [OF a] e
    have "says {(fetch_entry (deref f), result_verdict r) | r. lookup_result (clk 0) outcome = Inr r}
        {(fetch_entry (deref f), fetch_subject (deref f))} (gate_heap g) (gate_heap g')"
      using g' by auto
    then have "says {(fetch_entry (deref f), d) | d. outcome_verdict outcome = Some d}
        {(fetch_entry (deref f), fetch_subject (deref f))} (gate_heap g) (gate_heap g')"
      by (rule says_mono) (auto dest: lookup_result_decision)
    ultimately show ?thesis using e(1) answer by blast
  next
    case False
    then have "gate_heap g1 = gate_heap g"
      using a by (auto simp: apply_fetch_result_def split: option.splits)
    with g' show ?thesis by auto
  qed
qed

section \<open>Changes\<close>

lemma mark_dirty_entries [simp]: "sm_entries (subjects (mark_dirty g)) = sm_entries (subjects g)"
  by (simp add: mark_dirty_def)

lemma republish_entries: "republish_if_due L now g = Some g' \<Longrightarrow> sm_entries (subjects g') = sm_entries (subjects g)"
  using republish_subjects by blast

context subject_cache
begin

lemma peek_pair: "valid c \<Longrightarrow> lru_peek L k c = Some s \<Longrightarrow> (k, slot_entry s) \<in> slot_pairs L c"
  using peek [of c k] by (force simp: slot_pairs_def dest: map_of_SomeD)

lemma pair_peek:
  assumes "valid c" "(k, a) \<in> slot_pairs L c"
  shows "\<exists>s. lru_peek L k c = Some s \<and> slot_entry s = a"
  using assms peek [OF assms(1), of k] keys_distinct [OF assms(1)] by (auto simp: slot_pairs_def)

text \<open>
  A change with a decision gives it to the slot of its subject, which then holds it with no
  lookup in flight; a withdrawal leaves its subject without a slot.
\<close>

lemma apply_change_says:
  assumes inv: "gate_inv valid L g" and r: "apply_change L clk change g = Some g'"
  shows "says {(ea, d, None) | ea d. change_decision change = Some d \<and>
      (change_subject change, ea) \<in> slot_pairs L (sm_entries (subjects g'))} {} (gate_heap g) (gate_heap g')"
    and "(change_subject change, ea) \<in> slot_pairs L (sm_entries (subjects g')) \<Longrightarrow>
      cells (gate_heap g') ea = Some e \<Longrightarrow> \<exists>d. change_decision change = Some d \<and> entry_verdict e = Some (d, None)"
proof -
  let ?k = "change_subject change" and ?m = "evict L (map_tick (subjects g) (clk 0)) (subjects g)"
  let ?V = "{(ea, d, None) | ea d. change_decision change = Some d \<and>
      (?k, ea) \<in> slot_pairs L (sm_entries (subjects g'))}"
  have v: "valid (sm_entries ?m)" using evict_inv [OF gate_invD(1) [OF inv]] by (simp add: map_inv_def)
  have "says ?V {} (gate_heap g) (gate_heap g') \<and>
    (\<forall>ea e. (?k, ea) \<in> slot_pairs L (sm_entries (subjects g')) \<longrightarrow> cells (gate_heap g') ea = Some e \<longrightarrow>
      (\<exists>d. change_decision change = Some d \<and> entry_verdict e = Some (d, None)))"
  proof (cases "change_decision change")
    case (Some d)
    let ?u = "map_update L ?k (clk 0) (change_entry (config g) (clk 1) d) (subjects g)"
    have r': "republish_if_due L (clk 2) (g\<lparr>subjects := ?u\<rparr>) = Some g'"
      using r Some by (simp add: apply_change_def)
    have g': "gate_heap g' = sm_heap ?u" "sm_entries (subjects g') = sm_entries ?u"
      using republish_heap [OF r'] republish_entries [OF r'] by simp_all
    show ?thesis
    proof (cases "lru_peek L ?k (sm_entries ?m)")
      case None
      then have "?u = ?m" by (simp add: map_update_def)
      moreover have "says ?V {} (gate_heap g) (sm_heap ?m)" by (rule quiet_says [OF evict_quiet])
      ultimately show ?thesis using g' pair_peek [OF v, of ?k] None by auto
    next
      case (Some s)
      then have u: "sm_heap ?u = change_entry (config g) (clk 1) d (slot_entry s) (sm_heap ?m)"
        "sm_entries ?u = sm_entries ?m" by (simp_all add: map_update_def Let_def)
      have "says {(slot_entry s, d, None)} {} (gate_heap g) (gate_heap g')"
        unfolding g' u by (rule quiet_then_says [OF evict_quiet change_says])
      moreover have "(?k, slot_entry s) \<in> slot_pairs L (sm_entries (subjects g'))"
        unfolding g' u by (rule peek_pair [OF v Some])
      moreover have "entry_verdict e = Some (d, None)"
        if "(?k, ea) \<in> slot_pairs L (sm_entries (subjects g'))" "cells (gate_heap g') ea = Some e" for ea e
        using pair_peek [OF v that(1) [unfolded g' u]] Some that(2) change_entry_state unfolding g' u by auto
      ultimately show ?thesis using \<open>change_decision change = Some d\<close> by (auto elim!: says_mono)
    qed
  next
    case None
    let ?rm = "map_remove L ?k (clk 0) (subjects g)"
    have r': "republish_if_due L (clk 1) (if fst ?rm then mark_dirty (g\<lparr>subjects := snd ?rm\<rparr>)
        else g\<lparr>subjects := snd ?rm\<rparr>) = Some g'"
      using r None by (simp add: apply_change_def Let_def case_prod_beta)
    have g': "gate_heap g' = sm_heap (snd ?rm)" "sm_entries (subjects g') = sm_entries (snd ?rm)"
      using republish_heap [OF r'] republish_entries [OF r'] by (simp_all split: if_splits)
    have "fst x \<noteq> ?k" if "x \<in> set (lru_iter L (sm_entries (snd ?rm)))" for x
      using that pop [OF v, of ?k] by (auto simp: map_remove_def pop_slot_def split: option.splits)
    then have "(?k, ea) \<notin> slot_pairs L (sm_entries (subjects g'))" for ea
      unfolding g' slot_pairs_def by fastforce
    with g' None show ?thesis by simp
  qed
  then show "says ?V {} (gate_heap g) (gate_heap g')"
    and "(?k, ea) \<in> slot_pairs L (sm_entries (subjects g')) \<Longrightarrow>
      cells (gate_heap g') ea = Some e \<Longrightarrow> \<exists>d. change_decision change = Some d \<and> entry_verdict e = Some (d, None)"
    by blast+
qed

end

end
