(* ===== verification/Provenance.thy ===== *)
theory Provenance
  imports Statements Scenario
begin

text \<open>
  Where decisions come from. The statements of the authority, answers to lookups and watch
  changes, are recorded in a trace beside the system, and the admissions in progress are
  kept with it. No verdict is invented, outlives its revocation, or is filed under another
  subject: what an entry holds for a subject is a statement of the authority about this
  subject since the last change of it and since the connection last changed.
\<close>

section \<open>Statements\<close>

text \<open>
  \<open>Cleared\<close> stands for an opened or lost watch: what was said before does not count any more.
\<close>

datatype ('k, 'p) statement = Answered 'k "'p verdict" | Changed 'k "decision option" | Cleared

text \<open>
  The verdict, a decision with its payload, stands for the subject; the most recent
  statement comes first. A change carries no payload.
\<close>

fun stands :: "('k, 'p) statement list \<Rightarrow> 'k \<Rightarrow> 'p verdict \<Rightarrow> bool" where
  "stands [] k d \<longleftrightarrow> False"
| "stands (Answered k' d' # tr) k d \<longleftrightarrow> (k' = k \<and> d' = d) \<or> stands tr k d"
| "stands (Changed k' x # tr) k d \<longleftrightarrow> (if k' = k then map_option (\<lambda>d. (d, None)) x = Some d else stands tr k d)"
| "stands (Cleared # tr) k d \<longleftrightarrow> False"

text \<open>What the completion of a lookup adds; an aborted one adds nothing.\<close>

definition answers ::
  "('k, 'p) pending_fetch arc \<Rightarrow> 'p lookup_outcome \<Rightarrow> (source_error + unit) option \<Rightarrow> ('k, 'p) statement list" where
  "answers f outcome r =
     (case (outcome_verdict outcome, r) of
        (Some d, Some _) \<Rightarrow> [Answered (fetch_subject (deref f)) d]
      | _ \<Rightarrow> [])"

lemma stands_append_answers: "stands tr k d \<Longrightarrow> stands (answers f outcome r @ tr) k d"
  by (auto simp: answers_def split: option.split)

text \<open>Revoked and not granted since.\<close>

lemma stands_revoked:
  assumes "stands (new @ old) k d" "\<not> stands old k d"
  shows "Answered k d \<in> set new \<or> Changed k (Some (fst d)) \<in> set new"
  using assms
proof (induction new)
  case (Cons x new)
  then show ?case by (cases x) (auto split: if_splits)
qed simp

section \<open>The audited system\<close>

text \<open>
  A state of the system with the admissions in progress and the trace. Admissions start,
  are polled one at a time and may be dropped (\<open>arrive\<close>, \<open>poll\<close>, \<open>cancel\<close>); reads, handles
  and guards are \<open>serve\<close> and \<open>release\<close>. The trace grows when a lookup completes, driven by
  the admissions that join it (\<open>answer\<close>) or by the watch loop (\<open>refreshed\<close>), when the stream
  yields a change (\<open>changed\<close>), and when the watch is opened or lost, which clears the map
  (\<open>cleared\<close>). An \<open>idle\<close> step of the loop leaves the gate as it is, but for the stability
  mark and the refresh queue; a change is never idle, it counts its event.
\<close>

type_synonym ('c, 'k, 'p) audit =
  "(('k, 'p) watcher \<times> ('c, 'k, 'p) gate) \<times> ('k, 'p) admit_task list \<times> ('k, 'p) statement list"

inductive audit_step ::
  "('c, 'k) slot_lru \<Rightarrow> ('c, 'k, 'p) audit \<Rightarrow> ('c, 'k, 'p) audit \<Rightarrow> bool"
  for L :: "('c, 'k) slot_lru" where
  arrive: "admit_start k now g = (Some t, g') \<Longrightarrow>
    audit_step L ((w, g), ts, tr) ((w, g'), t # ts, tr)"
| poll: "admit_poll L inp (t, g) = Some (t', g') \<Longrightarrow>
    audit_step L ((w, g), us @ t # vs, tr) ((w, g'), us @ t' # vs, tr)"
| cancel: "audit_step L (s, us @ t # vs, tr) (s, us @ vs, tr)"
| serve: "g' \<in> {snd (gate_check L clk k sent g), snd (check_without_refresh L clk k g),
      refresh_entry L clk k ea sent g, observe_handle now ea g, invalidate_handle ea g, log x g} \<Longrightarrow>
    audit_step L ((w, g), ts, tr) ((w, g'), ts, tr)"
| release: "fetch_issued (gate_heap g) f \<Longrightarrow> fetch_refresh_from (deref f) \<noteq> None \<Longrightarrow>
    audit_step L ((w, g), ts, tr) ((w, drop_enqueue ea f g), ts, tr)"
| answer: "fetch_issued (gate_heap g) f \<Longrightarrow> run_fetch L clk f outcome g = Some (r, g') \<Longrightarrow>
    audit_step L ((w, g), ts, tr) ((w, g'), ts, answers f outcome r @ tr)"
| refreshed: "w_pc w = WOpen timer settled refreshes \<Longrightarrow> f \<in> set refreshes \<Longrightarrow>
    run_fetch L clk f outcome g = Some (r, g') \<Longrightarrow>
    audit_step L ((w, g), ts, tr)
      ((w\<lparr>w_pc := WOpen timer settled (remove1 f refreshes)\<rparr>, g'), ts, answers f outcome r @ tr)"
| changed: "w_pc w = WOpen timer settled refreshes \<Longrightarrow>
    watch_item L clk rng (Some (Inr change)) timer settled refreshes (w, g) = Some s' \<Longrightarrow>
    audit_step L ((w, g), ts, tr) (s', ts, Changed (change_subject change) (change_decision change) # tr)"
| cleared: "watch_step L s s' \<Longrightarrow> subjects (snd s') = map_clear L (subjects (snd s)) \<Longrightarrow>
    audit_step L (s, ts, tr) (s', ts, Cleared # tr)"
| idle: "watch_step L (w, g) (w', g') \<Longrightarrow> g' \<in> {g, watch_stable g, g\<lparr>refresh_queue := q\<rparr>} \<Longrightarrow>
    audit_step L ((w, g), ts, tr) ((w', g'), ts, tr)"

inductive audit_reachable ::
  "('c, 'k) slot_lru \<Rightarrow> policy_gate_config \<Rightarrow> ('c, 'k, 'p) audit \<Rightarrow> bool"
  for L :: "('c, 'k) slot_lru" and cfg :: policy_gate_config where
  start: "gate_new L cfg now = Some g \<Longrightarrow> audit_reachable L cfg ((watch_start cfg now', g), [], [])"
| step: "audit_reachable L cfg x \<Longrightarrow> audit_step L x y \<Longrightarrow> audit_reachable L cfg y"

text \<open>Every audited step is a step of the system, and every watch step is audited.\<close>

lemma audit_sys_step:
  assumes "audit_step L x y"
  shows "fst y = fst x \<or> sys_step L (fst x) (fst y)"
  using assms
proof (induction rule: audit_step.induct)
  case (arrive k now g t g' w ts tr)
  then show ?case by (auto simp: admit_start_def split: option.splits)
next
  case (serve g' clk k sent g ea now x w ts tr)
  then have "gate_step L g g'" by (auto intro: gate_step.cached gate_step.cached_sync gate_step.refresh
      gate_step.observe gate_step.invalidate gate_step.report)
  then show ?case by (simp add: sys_step.client)
qed (auto intro: sys_step.intros gate_step.intros watch_step.intros)

lemma audit_sys_reachable: "audit_reachable L cfg x \<Longrightarrow> sys_reachable L cfg (fst x)"
proof (induction rule: audit_reachable.induct)
  case (start now g now')
  then show ?case by (auto intro: sys_reachable.start)
next
  case (step x y)
  from audit_sys_step [OF step(2)] step(3) show ?case by (auto intro: sys_reachable.step)
qed

lemma watch_closed_clears: "subjects (snd (watch_closed L clk rng (w, g))) = map_clear L (subjects g)"
  by (simp add: watch_closed_gate watch_disconnected_subjects)

lemma watch_connected_clears: "subjects (watch_connected L g) = map_clear L (subjects g)"
  by (simp add: watch_connected_def publish_empty_def clear_subjects_def log_def Let_def)

lemma wire_metric_subjects [simp]: "subjects (wire_metric err g) = subjects g"
  by (simp add: wire_metric_def log_def)

lemma watch_step_audited:
  assumes "watch_step L s s'"
  shows "\<exists>tr'. audit_step L (s, ts, tr) (s', ts, tr')"
proof -
  have cleared: ?thesis if "subjects (snd s') = map_clear L (subjects (snd s))"
    using audit_step.cleared [OF assms that] by blast
  show ?thesis
    using assms
  proof cases
    case (opened w d now now' g)
    show ?thesis by (rule cleared) (simp add: opened watch_opened_def watch_connected_clears)
  next
    case (open_failed w d clk g rng err)
    show ?thesis by (rule cleared) (simp add: open_failed watch_open_failed_def watch_closed_clears Let_def)
  next
    case (open_timed_out w t clk g rng)
    show ?thesis by (rule cleared) (simp add: open_timed_out watch_open_failed_def watch_closed_clears Let_def)
  next
    case (stable w t refreshes now g)
    with audit_step.idle assms show ?thesis by fastforce
  next
    case (batch w timer settled refreshes g n)
    with audit_step.idle assms show ?thesis by fastforce
  next
    case (refresh_done w timer settled refreshes f clk outcome g r g')
    with audit_step.refreshed show ?thesis by fastforce
  next
    case (item w timer settled refreshes clk rng it g)
    show ?thesis
    proof (cases "\<exists>change. it = Some (Inr change)")
      case True
      with item audit_step.changed show ?thesis by fastforce
    next
      case False
      then have "it = None \<or> (\<exists>err. it = Some (Inl err))" by (metis option.exhaust sum.exhaust)
      then show ?thesis
        using item(3) by (intro cleared) (auto simp: item(1) watch_item_def watch_closed_clears)
    qed
  next
    case (yielded w timer settled refreshes g)
    with audit_step.idle assms show ?thesis by fastforce
  next
    case (reconnect w t now g now')
    with audit_step.idle assms show ?thesis by fastforce
  next
    case (dropped w now g)
    show ?thesis by (rule cleared) (simp add: dropped watch_disconnected_subjects)
  qed
qed


text \<open>So is every client step, the polls of an admission in progress included.\<close>

lemma gate_step_audited:
  assumes "gate_step L g g'" and "\<And>inp t t'. admit_poll L inp (t, g) = Some (t', g') \<Longrightarrow> t \<in> set ts"
  shows "\<exists>ts' tr'. audit_step L ((w, g), ts, tr) ((w, g'), ts', tr')"
proof -
  have serve: ?thesis if "g' \<in> {snd (gate_check L clk k sent g), snd (check_without_refresh L clk k g),
      refresh_entry L clk k ea sent g, observe_handle now ea g, invalidate_handle ea g, log x g}"
    for clk k sent ea now x
    using audit_step.serve [OF that] by blast
  show ?thesis
    using assms(1)
  proof cases
    case (admit inp t t')
    from assms(2) [OF admit] obtain us vs where "ts = us @ t # vs" by (auto simp: in_set_conv_decomp)
    with audit_step.poll [OF admit] show ?thesis by blast
  next
    case (fetch f clk outcome r)
    from audit_step.answer [OF this] show ?thesis by blast
  next
    case (drop f ea)
    from audit_step.release [OF drop(2,3)] drop(1) show ?thesis by blast
  qed (rule serve, simp, blast)+
qed

section \<open>What the trace says of the state\<close>

abbreviation gate_pairs :: "('c, 'k) slot_lru \<Rightarrow> ('c, 'k, 'p) gate \<Rightarrow> ('k \<times> nat) set" where
  "gate_pairs L g \<equiv> slot_pairs L (sm_entries (subjects g))"

definition traced :: "('c, 'k) slot_lru \<Rightarrow> ('k, 'p) statement list \<Rightarrow> ('c, 'k, 'p) gate \<Rightarrow> bool" where
  "traced L tr g \<longleftrightarrow>
     (\<forall>k a e. (k, a) \<in> gate_pairs L g \<longrightarrow> cells (gate_heap g) a = Some e \<longrightarrow>
        (\<forall>d. entry_verdict e = Some d \<longrightarrow> stands tr k d) \<and>
        (\<forall>p. pending e = Some p \<longrightarrow> fetch_subject (deref p) = k))"

lemma traced_log [simp]: "traced L tr (log x g) = traced L tr g"
  by (simp add: traced_def)

text \<open>The entry at \<open>a\<close> belongs to no subject but \<open>k\<close>, and never will.\<close>

definition filed :: "('c, 'k) slot_lru \<Rightarrow> ('c, 'k, 'p) gate \<Rightarrow> 'k \<Rightarrow> nat \<Rightarrow> bool" where
  "filed L g k a \<longleftrightarrow> a \<in> dom (cells (gate_heap g)) \<and> (\<forall>k'. (k', a) \<in> gate_pairs L g \<longrightarrow> k' = k)"

definition tasks_filed :: "('c, 'k) slot_lru \<Rightarrow> ('c, 'k, 'p) gate \<Rightarrow> ('k, 'p) admit_task list \<Rightarrow> bool" where
  "tasks_filed L g ts \<longleftrightarrow>
     (\<forall>t \<in> set ts. \<forall>a. pc_entry (at_pc t) = Some a \<longrightarrow> filed L g (at_subject t) a)"

lemma gate_evolves_pair:
  assumes "gate_evolves L g g'" "(k, a) \<in> gate_pairs L g'" "a \<in> dom (cells (gate_heap g))"
  shows "(k, a) \<in> gate_pairs L g"
  using assms unfolding gate_evolves_def map_evolves_def by blast

lemma filed_evolves:
  assumes ev: "gate_evolves L g g'" and f: "filed L g k a"
  shows "filed L g' k a"
proof -
  have "heap_evolves (gate_heap g) (gate_heap g')" using ev by (simp add: gate_evolves_def map_evolves_def)
  from heap_evolves_dom [OF this] f gate_evolves_pair [OF ev] show ?thesis unfolding filed_def by blast
qed

lemma tasks_filed_evolves: "gate_evolves L g g' \<Longrightarrow> tasks_filed L g ts \<Longrightarrow> tasks_filed L g' ts"
  unfolding tasks_filed_def by (meson filed_evolves)

lemma traced_step:
  assumes tr: "traced L tr g" and ev: "gate_evolves L g g'" and s: "says V P (gate_heap g) (gate_heap g')"
    and V: "\<And>a d k. (a, d) \<in> V \<Longrightarrow> (k, a) \<in> gate_pairs L g' \<Longrightarrow> stands tr' k d"
    and P: "\<And>a k k'. (a, k) \<in> P \<Longrightarrow> (k', a) \<in> gate_pairs L g' \<Longrightarrow> k' = k"
    and keep: "\<And>k a e d. (k, a) \<in> gate_pairs L g' \<Longrightarrow> cells (gate_heap g') a = Some e \<Longrightarrow>
      entry_verdict e = Some d \<Longrightarrow> stands tr k d \<Longrightarrow> stands tr' k d"
  shows "traced L tr' g'"
  unfolding traced_def
proof (intro allI impI conjI)
  fix k a e d
  assume k: "(k, a) \<in> gate_pairs L g'" and e: "cells (gate_heap g') a = Some e"
  have old: "(k, a) \<in> gate_pairs L g" if "cells (gate_heap g) a = Some e0" for e0
    using gate_evolves_pair [OF ev k] that by blast
  show "stands tr' k d" if d: "entry_verdict e = Some d"
    using saysD(1) [OF s e d]
  proof
    assume "\<exists>e0. cells (gate_heap g) a = Some e0 \<and> entry_verdict e0 = Some d"
    with old tr have "stands tr k d" unfolding traced_def by blast
    from keep [OF k e d this] show ?thesis .
  qed (rule V [OF _ k])
  show "fetch_subject (deref p) = k" if p: "pending e = Some p" for p
    using saysD(2) [OF s e p] old tr P [OF _ k] unfolding traced_def by blast
qed

context subject_cache
begin

lemma pair_filed:
  assumes inv: "gate_inv valid L g" and "(k, a) \<in> gate_pairs L g"
  shows "filed L g k a"
  unfolding filed_def
proof
  note S = gate_invD(1) [OF inv]
  show "a \<in> dom (cells (gate_heap g))"
    using map_invD(4) [OF S] assms(2) by (force simp: slot_refs_pairs)
  show "\<forall>k'. (k', a) \<in> gate_pairs L g \<longrightarrow> k' = k" using slot_pairs_unique [OF S _ assms(2)] by blast
qed

lemma snapshot_filed: "gate_inv valid L g \<Longrightarrow> snapshot g k = Some a \<Longrightarrow> filed L g k a"
  unfolding gate_inv_def filed_def by blast

lemma touched_filed:
  assumes inv: "gate_inv valid L g" and "fst (map_touch L k a now (subjects g))"
  shows "filed L g k a"
proof (rule pair_filed [OF inv])
  from assms(2) obtain s where "lru_peek L k (sm_entries (subjects g)) = Some s" "slot_entry s = a"
    by (auto simp: map_touch_def Let_def split: option.splits)
  with peek_pair map_invD(1) [OF gate_invD(1) [OF inv]] show "(k, a) \<in> gate_pairs L g" by blast
qed

lemma inserted_filed:
  assumes inv: "gate_inv valid L g" and r: "admit_lookup L k now g = (a, g')"
  shows "filed L g' k a"
proof (rule pair_filed)
  from admit_lookup_keeps [OF inv, of k now] r show inv': "gate_inv valid L g'" by simp
  obtain b m where m: "get_or_insert_with L k now (create_entry (config g) k now) (subjects g) = ((a, b), m)"
    and e: "sm_entries (subjects g') = sm_entries m"
    using r by (auto simp: admit_lookup_def Let_def split: prod.splits if_splits)
  from get_or_insert_with_lookup(1) [OF gate_invD(1) [OF inv] create_entry_creation m]
  obtain s where "lru_peek L k (sm_entries m) = Some s" "slot_entry s = a" by blast
  with peek_pair [of "sm_entries m"] map_invD(1) [OF gate_invD(1) [OF inv']] show "(k, a) \<in> gate_pairs L g'"
    by (auto simp: e)
qed

lemma poll_filed:
  assumes inv: "gate_inv valid L g" and r: "admit_poll L inp (t, g) = Some (t', g')"
    and t: "\<And>a. pc_entry (at_pc t) = Some a \<Longrightarrow> filed L g (at_subject t) a"
    and a: "pc_entry (at_pc t) = Some a \<or> pc_entry (at_pc t') = Some a"
  shows "filed L g' (at_subject t) a"
proof (cases "pc_entry (at_pc t) = Some a")
  case True
  from filed_evolves [OF conjunct2 [OF admit_poll_keeps [OF inv r]] t [OF True]] show ?thesis .
next
  case False
  with a admit_poll_says(2) [OF r] have pc: "at_pc t = AInsert" "pc_entry (at_pc t') = Some a" by auto
  obtain b g1 where g1: "admit_lookup L (at_subject t) (in_clock inp 0) g = (b, g1)" by fastforce
  with pc have g2: "republish_if_due L (in_clock inp 1) g1 = Some g'" "b = a"
    using r by (auto simp: admit_poll_def Let_def split: Option.bind_splits)
  have "gate_inv valid L g1" using admit_lookup_keeps [OF inv, of "at_subject t" "in_clock inp 0"] g1 by simp
  from filed_evolves [OF conjunct2 [OF republish_keeps [OF this g2(1)]] inserted_filed [OF inv g1]] g2(2)
  show ?thesis by simp
qed

lemma fetch_traced:
  assumes tr: "traced L tr g" and inv: "gate_inv valid L g" and f: "fetch_issued (gate_heap g) f"
    and r: "run_fetch L clk f outcome g = Some (answer, g')"
  shows "traced L (answers f outcome answer @ tr) g'"
proof -
  let ?a = "fetch_entry (deref f)" and ?k = "fetch_subject (deref f)"
  have ev: "gate_evolves L g g'" using run_fetch_keeps [OF inv f r] by blast
  note keep = stands_append_answers
  from run_fetch_says [OF f r] show ?thesis
  proof
    assume "quiet (gate_heap g) (gate_heap g')"
    then show ?thesis by (rule traced_step [OF tr ev]) (use keep in auto)
  next
    assume A: "answer \<noteq> None \<and> (\<exists>e. cells (gate_heap g) ?a = Some e \<and> pending e = Some f) \<and>
      says {(?a, d) | d. outcome_verdict outcome = Some d} {(?a, ?k)} (gate_heap g) (gate_heap g')"
    then obtain e where e: "cells (gate_heap g) ?a = Some e" "pending e = Some f" by blast
    have owner: "k = ?k" if "(k, ?a) \<in> gate_pairs L g'" for k
    proof -
      have "(k, ?a) \<in> gate_pairs L g" using gate_evolves_pair [OF ev that] e(1) by blast
      with tr e show ?thesis unfolding traced_def by blast
    qed
    show ?thesis
    proof (rule traced_step [OF tr ev conjunct2 [OF conjunct2 [OF A]]])
      show "stands (answers f outcome answer @ tr) k d"
        if "(a, d) \<in> {(?a, d) | d. outcome_verdict outcome = Some d}" "(k, a) \<in> gate_pairs L g'" for a d k
        using that owner A by (auto simp: answers_def)
    qed (use owner keep in auto)
  qed
qed

lemma cleared_traced:
  assumes g': "gate_inv valid L g" "subjects g' = map_clear L (subjects g)"
  shows "traced L tr' g'"
  using map_clear_inv(2) [OF gate_invD(1) [OF g'(1)]]
  by (auto simp: traced_def g'(2) slot_refs_pairs)

lemma change_traced:
  assumes tr: "traced L tr g" and inv: "gate_inv valid L g" and r: "apply_change L clk change g = Some g'"
  shows "traced L (Changed (change_subject change) (change_decision change) # tr) g'"
proof (rule traced_step [OF tr _ apply_change_says(1) [OF inv r]])
  show "gate_evolves L g g'" using apply_change_keeps [OF inv r] by blast
  have inv': "gate_inv valid L g'" using apply_change_keeps [OF inv r] by blast
  let ?V = "{(ea, d, None) | ea d. change_decision change = Some d \<and> (change_subject change, ea) \<in> gate_pairs L g'}"
  show "stands (Changed (change_subject change) (change_decision change) # tr) k d"
    if "(a, d) \<in> ?V" "(k, a) \<in> gate_pairs L g'" for a d k
  proof -
    from that(1) obtain c where "(change_subject change, a) \<in> gate_pairs L g'" "change_decision change = Some c"
      "d = (c, None)" by auto
    with slot_pairs_unique [OF gate_invD(1) [OF inv'] that(2)] show ?thesis by simp
  qed
  show "stands (Changed (change_subject change) (change_decision change) # tr) k d"
    if "(k, a) \<in> gate_pairs L g'" "cells (gate_heap g') a = Some e" "entry_verdict e = Some d"
      "stands tr k d" for k a e d
    using that apply_change_says(2) [OF inv r, of a e] by auto
qed simp


lemma quiet_traced:
  assumes "traced L tr g" "gate_evolves L g g'" "quiet (gate_heap g) (gate_heap g')"
  shows "traced L tr g'"
  by (rule traced_step [OF assms]) auto

text \<open>A step of one client that may claim or start a lookup of the subject it asks for.\<close>

lemma claim_traced:
  assumes "traced L tr g" "gate_evolves L g g'" "says {} P (gate_heap g) (gate_heap g')"
    and "\<And>a k. (a, k) \<in> P \<Longrightarrow> filed L g' k a"
  shows "traced L tr g'"
  by (rule traced_step [OF assms(1-3)]) (use assms(4) in \<open>auto simp: filed_def\<close>)

lemma serve_traced:
  assumes tr: "traced L tr g" and inv: "gate_inv valid L g" and ev: "gate_evolves L g g'"
    and g': "g' \<in> {snd (gate_check L clk k sent g), snd (check_without_refresh L clk k g),
      refresh_entry L clk k ea sent g, observe_handle now ea g, invalidate_handle ea g, log x g}"
  shows "traced L tr g'"
proof -
  from g' consider "g' = snd (gate_check L clk k sent g)" | "g' = refresh_entry L clk k ea sent g"
    | "quiet (gate_heap g) (gate_heap g')"
    using check_sync_quiet [of g L clk k] by (auto simp: observe_handle_def invalidate_handle_def)
  then show ?thesis
  proof cases
    case 1
    have "says {} {(ea, k) | ea. snapshot g k = Some ea} (gate_heap g) (gate_heap g')"
      unfolding 1 by (rule check_says)
    then show ?thesis
      by (rule claim_traced [OF tr ev]) (use filed_evolves [OF ev snapshot_filed [OF inv]] in auto)
  next
    case 2
    have "says {} {x. x = (ea, k) \<and> fst (map_touch L k ea (clk 0) (subjects g))} (gate_heap g) (gate_heap g')"
      unfolding 2 by (rule refresh_says)
    then show ?thesis
      by (rule claim_traced [OF tr ev]) (use filed_evolves [OF ev touched_filed [OF inv]] in auto)
  qed (rule quiet_traced [OF tr ev])
qed

lemma audit_step_traced:
  assumes "audit_step L x y" and "gate_inv valid L (snd (fst x))" "watch_inv cfg (fst x)"
    and "gate_evolves L (snd (fst x)) (snd (fst y))"
    and "traced L (snd (snd x)) (snd (fst x))" "tasks_filed L (snd (fst x)) (fst (snd x))"
  shows "traced L (snd (snd y)) (snd (fst y)) \<and> tasks_filed L (snd (fst y)) (fst (snd y))"
  using assms
proof (induction rule: audit_step.induct)
  case (arrive k now g t g' w ts tr)
  then have "g' = g" "pc_entry (at_pc t) = None" by (auto simp: admit_start_def split: option.splits)
  with arrive show ?case by (simp add: tasks_filed_def)
next
  case (poll inp t g t' g' w us vs tr)
  then have inv: "gate_inv valid L g" and ev: "gate_evolves L g g'" and tr: "traced L tr g"
    and ts: "tasks_filed L g (us @ t # vs)" by simp_all
  have t: "filed L g (at_subject t) a" if "pc_entry (at_pc t) = Some a" for a
    using ts that by (simp add: tasks_filed_def)
  note F = poll_filed [OF inv poll(1) t]
  have "traced L tr g'" by (rule claim_traced [OF tr ev admit_poll_says(1) [OF poll(1)]]) (use F in auto)
  moreover have "tasks_filed L g' (us @ t' # vs)"
    using tasks_filed_evolves [OF ev ts] F admit_poll_says(3) [OF poll(1)] by (auto simp: tasks_filed_def)
  ultimately show ?case by simp
next
  case (cancel us t vs s tr)
  then show ?case by (simp add: tasks_filed_def)
next
  case (serve g' clk k sent g ea now x w ts tr)
  with serve_traced [OF _ _ _ serve(1)] tasks_filed_evolves show ?case by auto
next
  case (release g f w ts tr ea)
  have "quiet (gate_heap g) (gate_heap (drop_enqueue ea f g))" by (simp add: drop_enqueue_def)
  with release quiet_traced tasks_filed_evolves show ?case by auto
next
  case (answer g f clk outcome r g' w ts tr)
  with fetch_traced [OF _ _ answer(1,2)] tasks_filed_evolves show ?case by auto
next
  case (refreshed w timer settled refreshes f clk outcome g r g' ts tr)
  then have "fetch_issued (gate_heap g) f" by (simp add: watch_inv_def)
  with fetch_traced [OF _ _ this refreshed(3)] refreshed tasks_filed_evolves show ?case by auto
next
  case (changed w timer settled refreshes clk rng change g s' ts tr)
  then obtain g1 where g1: "apply_change L clk change g = Some g1" "snd s' = log WatchEvent g1"
    by (auto simp: watch_item_def Let_def split: Option.bind_splits if_splits)
  have "traced L (Changed (change_subject change) (change_decision change) # tr) (snd s')"
    using change_traced [OF _ _ g1(1), of tr] changed(3,6) by (simp add: g1(2))
  with changed(5,7) tasks_filed_evolves show ?case by simp
next
  case (cleared s s' ts tr)
  with cleared_traced [OF _ cleared(2)] tasks_filed_evolves show ?case by auto
next
  case (idle w g w' g' q ts tr)
  then have "subjects g' = subjects g" by (auto simp: watch_stable_def)
  with idle show ?case by (simp add: traced_def tasks_filed_def filed_def)
qed

lemma audit_reachable_traced:
  assumes "audit_reachable L cfg x" and cfg: "config_valid now0 cfg" "max_reconnect_delay cfg \<le> DURATION_MAX"
  shows "traced L (snd (snd x)) (snd (fst x)) \<and> tasks_filed L (snd (fst x)) (fst (snd x))"
  using assms(1)
proof (induction rule: audit_reachable.induct)
  case (start now g now')
  then have "lru_iter L (sm_entries (subjects g)) = []"
    using new by (auto simp: gate_new_def subject_map_new_def split: if_splits)
  then show ?case by (simp add: traced_def tasks_filed_def slot_pairs_def)
next
  case (step x y)
  note I = reachable_inv [OF audit_sys_reachable [OF step(1)] cfg]
  have "gate_evolves L (snd (fst x)) (snd (fst y))"
    using audit_sys_step [OF step(2)] sys_step_keeps [OF _ _ _ cfg] I by fastforce
  from audit_step_traced [OF step(2) _ _ this] I step(3) show ?case by blast
qed

text \<open>An entry with a verdict has a slot, and a held entry has the slot of its own subject.\<close>

lemma verdict_pair:
  assumes inv: "gate_inv valid L g" and e: "cells (gate_heap g) a = Some e" "entry_verdict e = Some d"
    and f: "filed L g k a"
  shows "(k, a) \<in> gate_pairs L g"
proof -
  have "a \<in> slot_refs L (sm_entries (subjects g))"
    using map_invD(5) [OF gate_invD(1) [OF inv] e(1)] e(2) by (fastforce simp: retired_def)
  with f show ?thesis by (auto simp: slot_refs_pairs filed_def)
qed

lemma held_verdict_stands:
  assumes "audit_reachable L cfg (s, ts, tr)" and cfg: "config_valid now0 cfg" "max_reconnect_delay cfg \<le> DURATION_MAX"
    and f: "filed L (snd s) k a" and e: "cells (gate_heap (snd s)) a = Some e" "entry_verdict e = Some d"
  shows "stands tr k d"
proof -
  have "gate_inv valid L (snd s)" using reachable_inv [OF audit_sys_reachable [OF assms(1)] cfg] by simp
  from verdict_pair [OF this e f] audit_reachable_traced [OF assms(1) cfg] e show ?thesis
    unfolding traced_def snd_conv fst_conv by blast
qed

lemma task_handle_filed:
  assumes "audit_reachable L cfg (s, ts, tr)" and cfg: "config_valid now0 cfg" "max_reconnect_delay cfg \<le> DURATION_MAX"
    and "t \<in> set ts" "at_pc t = ADone (Some a)"
  shows "filed L (snd s) (at_subject t) a"
  using audit_reachable_traced [OF assms(1) cfg] assms(4,5) by (simp add: tasks_filed_def)

end

end
