(* ===== verification/Accountability.thy ===== *)
theory Accountability
  imports Provenance Layer
begin

text \<open>
  What the trace of the authority's statements means for the gate's clients: every answer of
  a handle and every request that reaches the inner service rests on a statement that
  stands, and a revocation holds until the authority grants access again.
\<close>

section \<open>Handles\<close>

text \<open>
  The entry is the subject's handle: an admission of the subject has returned it, or a
  cached read of the subject finds it.
\<close>

definition handed_out :: "('c, 'k, 'p) audit \<Rightarrow> 'k \<Rightarrow> nat \<Rightarrow> bool" where
  "handed_out x k ea \<longleftrightarrow>
     (\<exists>t \<in> set (fst (snd x)). at_pc t = ADone (Some ea) \<and> at_subject t = k) \<or>
     snapshot (snd (fst x)) k = Some ea"

lemma handle_read_observes:
  "snd (handle_is_allowed now ea g) = observe_handle now ea g" "snd (handle_state now ea g) = observe_handle now ea g"
  by (simp_all add: handle_is_allowed_def handle_state_def observe_handle_def with_entry_def
      admission_is_allowed_def admission_state_at_def observed_at_eq case_prod_beta set_heap_def
      split: option.split)

lemma handle_allowed_state:
  assumes "fst (handle_is_allowed now ea g) = Some True"
  shows "\<exists>e pl. cells (gate_heap g) ea = Some e \<and> entry_verdict e = Some (DAllowed, pl)"
  using assms
  by (auto simp: snapshot_verdict_def handle_is_allowed_def with_entry_def admission_is_allowed_def admission_state_at_def
      observed_at_eq case_prod_beta split: option.splits if_splits entry_state.splits)

lemma handle_denied_state:
  assumes "fst (handle_state now ea g) = Some ADenied"
  shows "\<exists>e pl. cells (gate_heap g) ea = Some e \<and> entry_verdict e = Some (DDenied, pl)"
  using assms
  by (auto simp: snapshot_verdict_def handle_state_def with_entry_def admission_state_at_def
      observed_at_eq case_prod_beta split: option.splits if_splits entry_state.splits)

text \<open>\<open>Admission::payload\<close> on a shared entry.\<close>

definition handle_payload :: "instant \<Rightarrow> nat \<Rightarrow> ('c, 'k, 'p) gate \<Rightarrow> 'p option \<times> ('c, 'k, 'p) gate" where
  "handle_payload now ea g =
     (let (p, h) = with_entry ea (\<lambda>a. admission_payload a now) None (gate_heap g) in (p, set_heap h g))"

lemma handle_payload_state:
  assumes "fst (handle_payload now ea g) = Some p"
  shows "\<exists>e. cells (gate_heap g) ea = Some e \<and> entry_verdict e = Some (DAllowed, Some p)"
  using assms
  by (auto simp: snapshot_verdict_def handle_payload_def with_entry_def admission_payload_def current_at_quiet
      case_prod_beta split: option.splits if_splits)

context subject_cache
begin

lemma audit_run:
  assumes "(audit_step L)\<^sup>*\<^sup>* x y" "audit_reachable L cfg x"
    and cfg: "config_valid now0 cfg" "max_reconnect_delay cfg \<le> DURATION_MAX"
  shows "audit_reachable L cfg y \<and> gate_evolves L (snd (fst x)) (snd (fst y))"
  using assms(1,2)
proof (induction rule: rtranclp_induct)
  case (step u v)
  then have u: "audit_reachable L cfg u" "gate_evolves L (snd (fst x)) (snd (fst u))" by simp_all
  note I = reachable_inv [OF audit_sys_reachable [OF u(1)] cfg]
  have "gate_evolves L (snd (fst u)) (snd (fst v))"
    using audit_sys_step [OF step(2)] sys_step_keeps [OF _ _ _ cfg] I by fastforce
  with u audit_reachable.step [OF u(1) step(2)] gate_evolves_trans show ?case by blast
qed simp

lemma handed_out_filed:
  assumes x: "audit_reachable L cfg x" and h: "handed_out x k ea"
    and cfg: "config_valid now0 cfg" "max_reconnect_delay cfg \<le> DURATION_MAX"
  shows "filed L (snd (fst x)) k ea"
proof -
  obtain s ts tr where xe: "x = (s, ts, tr)" by (cases x) auto
  have "gate_inv valid L (snd s)" using reachable_inv [OF audit_sys_reachable [OF x] cfg] by (simp add: xe)
  with h task_handle_filed [OF x [unfolded xe] cfg] snapshot_filed show ?thesis
    by (auto simp: handed_out_def xe)
qed

lemma handle_speaks:
  assumes x: "audit_reachable L cfg x" "handed_out x k ea" and run: "(audit_step L)\<^sup>*\<^sup>* x (s, ts, tr)"
    and cfg: "config_valid now0 cfg" "max_reconnect_delay cfg \<le> DURATION_MAX"
  shows "fst (handle_is_allowed now ea (snd s)) = Some True \<Longrightarrow> \<exists>pl. stands tr k (DAllowed, pl)"
    and "fst (handle_state now ea (snd s)) = Some ADenied \<Longrightarrow> \<exists>pl. stands tr k (DDenied, pl)"
    and "fst (handle_payload now ea (snd s)) = Some p \<Longrightarrow> stands tr k (DAllowed, Some p)"
proof -
  from audit_run [OF run x(1) cfg] have y: "audit_reachable L cfg (s, ts, tr)"
    and ev: "gate_evolves L (snd (fst x)) (snd s)" by simp_all
  note S = held_verdict_stands [OF y cfg filed_evolves [OF ev handed_out_filed [OF x cfg]]]
  show "fst (handle_is_allowed now ea (snd s)) = Some True \<Longrightarrow> \<exists>pl. stands tr k (DAllowed, pl)"
    using S handle_allowed_state by blast
  show "fst (handle_state now ea (snd s)) = Some ADenied \<Longrightarrow> \<exists>pl. stands tr k (DDenied, pl)"
    using S handle_denied_state by blast
  show "fst (handle_payload now ea (snd s)) = Some p \<Longrightarrow> stands tr k (DAllowed, Some p)"
    by (drule handle_payload_state) (auto intro: S)
qed

end

text \<open>
  C4: a handle speaks for the authority. Whenever a handle of a subject, returned by an
  admission or found by a cached read, reports allowed or denied, at that moment or after
  any further run of the system, the authority has stated this very decision about this
  very subject, in answer to a lookup or as a watch change, since the last change of the
  subject and since the watch was last opened or lost. A payload it gives out is the one
  the authority sent with such an answer for this subject, never another subject's.
\<close>

theorem handles_speak_for_the_authority:
  assumes "subject_cache L valid" and "config_valid now0 cfg" "max_reconnect_delay cfg \<le> DURATION_MAX"
    and "audit_reachable L cfg x" "handed_out x k ea" "(audit_step L)\<^sup>*\<^sup>* x (s, ts, tr)"
  shows "(fst (handle_is_allowed now ea (snd s)) = Some True \<longrightarrow> (\<exists>pl. stands tr k (DAllowed, pl)))
    \<and> (fst (handle_state now ea (snd s)) = Some ADenied \<longrightarrow> (\<exists>pl. stands tr k (DDenied, pl)))
    \<and> (fst (handle_payload now ea (snd s)) = Some p \<longrightarrow> stands tr k (DAllowed, Some p))"
  by (intro conjI impI subject_cache.handle_speaks [OF assms(1,4,5,6,2,3)])

text \<open>
  C2: a revocation is final until access is granted again. After the authority denies or
  withdraws a subject, or the watch is opened or lost, no handle of the subject, however
  old and whatever lookups were in flight, reports allowed before the authority has stated
  that the subject is allowed.
\<close>

theorem revocation_is_final:
  assumes "subject_cache L valid" and "config_valid now0 cfg" "max_reconnect_delay cfg \<le> DURATION_MAX"
    and "audit_reachable L cfg x" "handed_out x k ea" "(audit_step L)\<^sup>*\<^sup>* x (s, ts, new @ st # old)"
    and st: "st = Cleared \<or> (\<exists>c. st = Changed k c \<and> c \<noteq> Some DAllowed)"
    and "\<forall>pl. Answered k (DAllowed, pl) \<notin> set new" "Changed k (Some DAllowed) \<notin> set new"
  shows "fst (handle_is_allowed now ea (snd s)) \<noteq> Some True"
proof
  assume "fst (handle_is_allowed now ea (snd s)) = Some True"
  from subject_cache.handle_speaks(1) [OF assms(1,4,5,6,2,3) this]
  obtain pl where "stands (new @ st # old) k (DAllowed, pl)" by blast
  moreover have "\<not> stands (st # old) k (DAllowed, pl)" using st by (elim disjE exE) auto
  ultimately have "Answered k (DAllowed, pl) \<in> set new \<or> Changed k (Some DAllowed) \<in> set new"
    using stands_revoked by fastforce
  with assms(8,9) show False by simp
qed

section \<open>Requests\<close>

text \<open>The handle a middleware step judges, and what it makes of it.\<close>

lemma judge_reads:
  assumes "judge inp ea g = (Some (Some DAllowed), g')"
  shows "fst (handle_is_allowed (li_clock inp 0) ea (li_env inp 0 g)) = Some True"
  using assms by (auto simp: judge_def split: prod.splits option.splits bool.splits if_splits)

lemma on_admission_reads:
  assumes "on_admission Y inp inner request k ea otherwise g = (LEnforced f, inner', g')"
    and "\<And>g f. fst (otherwise g) \<noteq> LEnforced f"
  shows "fst (handle_is_allowed (li_clock inp 0) ea (li_env inp 0 g)) = Some True \<and> ef_subject f = k"
proof -
  obtain j g1 where j: "judge inp ea g = (j, g1)" by fastforce
  from assms j have allowed: "j = Some (Some DAllowed)"
    by (auto simp: on_admission_def deny_def case_prod_beta Let_def
        split: option.splits decision.splits) (metis fst_conv)+
  have "f = fst (pass_through Y inner request k ea)"
    using assms(1) j allowed by (simp add: on_admission_def case_prod_beta Let_def)
  then have "ef_subject f = k" by (simp add: pass_through_def Let_def case_prod_beta)
  with judge_reads [of inp ea g g1] j allowed show ?thesis by simp
qed

text \<open>
  A step that hands a request over has judged a handle in some gate state: the snapshot's
  after a cached read, or the admission's after its last poll.
\<close>

definition judged ::
  "('c, 'k) slot_lru \<Rightarrow> ('c, 'k, 'p) layer_input \<Rightarrow> ('s, 'f, 'q, 'b, 'k, 'p) layer_future
    \<Rightarrow> ('c, 'k, 'p) gate \<Rightarrow> 'k \<Rightarrow> nat \<Rightarrow> ('c, 'k, 'p) gate \<Rightarrow> bool" where
  "judged L inp fut g k ea g1 \<longleftrightarrow>
     (\<exists>inner rq. fut = LCached inner rq k \<and> snapshot g k = Some ea \<and>
        gate_check L (\<lambda>i. li_clock inp (i + 2)) k (li_sent inp) g = (Some ea, g1)) \<or>
     (\<exists>inner rq t t'. fut = LAdmitting inner rq t \<and> admit_poll L (li_admit inp) (t, g) = Some (t', g1) \<and>
        at_pc t' = ADone (Some ea) \<and> at_subject t' = k)"

lemma layer_poll_judged:
  assumes "layer_poll L Y inp (fut, g) = (LEnforced f, g')" and "\<And>f0. fut \<noteq> LEnforced f0"
  shows "\<exists>ea g1. judged L inp fut g (ef_subject f) ea g1
    \<and> fst (handle_is_allowed (li_clock inp 0) ea (li_env inp 0 g1)) = Some True"
proof (cases fut)
  case (LCached inner rq k)
  let ?missed = "\<lambda>g. (LEnter inner rq k, inner, log SnapshotMiss g)"
  obtain r g1 where c: "gate_check L (\<lambda>i. li_clock inp (i + 2)) k (li_sent inp) g = (r, g1)" by fastforce
  show ?thesis
  proof (cases r)
    case None
    with assms c LCached show ?thesis by (simp add: layer_poll_def)
  next
    case (Some ea)
    with assms c LCached have "fst (on_admission Y inp inner rq k ea ?missed g1) = LEnforced f"
      by (simp add: layer_poll_def case_prod_beta Let_def)
    then obtain i' g2 where "on_admission Y inp inner rq k ea ?missed g1 = (LEnforced f, i', g2)"
      by (metis surjective_pairing)
    note R = on_admission_reads [OF this]
    have "snapshot g k = Some ea"
      using c Some by (auto simp: gate_check_def Let_def split: option.splits prod.splits if_splits)
    with R c Some LCached show ?thesis by (auto simp: judged_def)
  qed
next
  case (LEnter inner rq k)
  with assms show ?thesis
    by (auto simp: layer_poll_def admit_returned_def split: option.splits prod.splits)
next
  case (LAdmitting inner rq t)
  with assms(1) obtain t' g1 res where p: "admit_poll L (li_admit inp) (t, g) = Some (t', g1)"
    "at_pc t' = ADone res" "admit_returned Y inp inner rq (at_subject t') res g1 = (LEnforced f, g')"
    by (auto simp: layer_poll_def split: option.splits admit_pc.splits)
  then obtain ea where res: "res = Some ea" by (cases res) (auto simp: admit_returned_def)
  let ?again = "\<lambda>g. (LEnter inner rq (at_subject t'), inner, g)"
  have "fst (on_admission Y inp inner rq (at_subject t') ea ?again g1) = LEnforced f"
    using p(3) res by (simp add: admit_returned_def case_prod_beta)
  then obtain i' g2 where "on_admission Y inp inner rq (at_subject t') ea ?again g1 = (LEnforced f, i', g2)"
    by (metis surjective_pairing)
  from on_admission_reads [OF this] p res LAdmitting show ?thesis by (auto simp: judged_def)
qed (use assms in \<open>simp_all add: layer_poll_def\<close>)

context subject_cache
begin

lemma judged_handle:
  assumes j: "judged L inp fut g k ea g1" and x: "audit_reachable L cfg ((w, g), ts, tr)"
    and t: "\<forall>inner rq t. fut = LAdmitting inner rq t \<longrightarrow> t \<in> set ts"
  shows "\<exists>ts1. audit_reachable L cfg ((w, g1), ts1, tr) \<and> (handed_out ((w, g), ts, tr) k ea \<or> handed_out ((w, g1), ts1, tr) k ea)
    \<and> (audit_step L)\<^sup>*\<^sup>* ((w, g), ts, tr) ((w, g1), ts1, tr)"
  using j unfolding judged_def
proof (elim disjE exE conjE)
  assume c: "snapshot g k = Some ea" "gate_check L (\<lambda>i. li_clock inp (i + 2)) k (li_sent inp) g = (Some ea, g1)"
  have g1: "g1 = snd (gate_check L (\<lambda>i. li_clock inp (i + 2)) k (li_sent inp) g)" using c(2) by simp
  have s: "audit_step L ((w, g), ts, tr) ((w, g1), ts, tr)" unfolding g1 by (rule audit_step.serve) (rule insertI1)
  with audit_reachable.step [OF x s] c(1) show ?thesis by (auto simp: handed_out_def)
next
  fix inner rq u u'
  assume p: "fut = LAdmitting inner rq u" "admit_poll L (li_admit inp) (u, g) = Some (u', g1)"
    "at_pc u' = ADone (Some ea)" "at_subject u' = k"
  from t p(1) have "u \<in> set ts" by blast
  then obtain us vs where ts: "ts = us @ u # vs" by (auto simp: in_set_conv_decomp)
  have s: "audit_step L ((w, g), ts, tr) ((w, g1), us @ u' # vs, tr)"
    unfolding ts by (rule audit_step.poll [OF p(2)])
  have "handed_out ((w, g1), us @ u' # vs, tr) k ea" using p(3,4) by (auto simp: handed_out_def)
  with audit_reachable.step [OF x s] s show ?thesis by blast
qed

lemma request_speaks:
  assumes x: "audit_reachable L cfg ((w, g), ts, tr)"
    and cfg: "config_valid now0 cfg" "max_reconnect_delay cfg \<le> DURATION_MAX"
    and p: "layer_poll L Y inp (fut, g) = (LEnforced f, g')" "\<And>f0. fut \<noteq> LEnforced f0"
    and t: "\<forall>inner rq t. fut = LAdmitting inner rq t \<longrightarrow> t \<in> set ts"
    and env: "\<And>g ts. audit_reachable L cfg ((w, g), ts, tr) \<Longrightarrow>
      \<exists>w' ts'. (audit_step L)\<^sup>*\<^sup>* ((w, g), ts, tr) ((w', li_env inp 0 g), ts', tr')"
  shows "\<exists>pl. stands tr' (ef_subject f) (DAllowed, pl)"
proof -
  from layer_poll_judged [OF p] obtain ea g1 where J: "judged L inp fut g (ef_subject f) ea g1"
    "fst (handle_is_allowed (li_clock inp 0) ea (li_env inp 0 g1)) = Some True" by blast
  from judged_handle [OF J(1) x t] obtain ts1 where s: "audit_reachable L cfg ((w, g1), ts1, tr)"
    "handed_out ((w, g), ts, tr) (ef_subject f) ea \<or> handed_out ((w, g1), ts1, tr) (ef_subject f) ea"
    "(audit_step L)\<^sup>*\<^sup>* ((w, g), ts, tr) ((w, g1), ts1, tr)" by blast
  from env [OF s(1)] obtain w' ts' where e: "(audit_step L)\<^sup>*\<^sup>* ((w, g1), ts1, tr) ((w', li_env inp 0 g1), ts', tr')"
    by blast
  have "fst (handle_is_allowed (li_clock inp 0) ea (snd (w', li_env inp 0 g1))) = Some True" using J(2) by simp
  with s(2) handle_speaks(1) [OF x _ rtranclp_trans [OF s(3) e] cfg] handle_speaks(1) [OF s(1) _ e cfg]
  show ?thesis by blast
qed

end


end
