(* ===== verification/Audit_Scenario.thy ===== *)
theory Audit_Scenario
  imports Accountability Transport_Properties
begin

text \<open>
  The run of theory \<open>Scenario\<close> as an audited run: the watch opens, subject 7 is admitted
  from its arrival to its handle, its lookup answers allowed in between, and a change
  denies it. The properties of theory \<open>Accountability\<close> are applied along it.
\<close>

abbreviation list_audited ::
  "((nat, subject_slot) lru_list, nat, string) audit \<Rightarrow> bool" where
  "list_audited \<equiv> audit_reachable lru_list ex_cfg"

definition ex_done :: "(nat, string) admit_task \<times> ((nat, subject_slot) lru_list, nat, string) gate" where
  "ex_done = the (admit_poll lru_list (ex_input 4) (fst ex_admitted, ex_allowed))"

definition ex_granted :: "(nat, string) statement list" where
  "ex_granted = [Answered 7 (DAllowed, Some ''p''), Cleared]"

text \<open>The state of the audit once the admission of subject 7 has returned.\<close>

definition ex_served :: "((nat, subject_slot) lru_list, nat, string) audit" where
  "ex_served = ((fst ex_open, snd ex_done), [fst ex_done], ex_granted)"

lemma audit_poll_step:
  assumes "list_audited ((w, g), us @ t # vs, tr)"
    and "case admit_poll lru_list inp (t, g) of None \<Rightarrow> False | Some y \<Rightarrow> True"
  shows "list_audited ((w, snd (the (admit_poll lru_list inp (t, g)))),
    us @ fst (the (admit_poll lru_list inp (t, g))) # vs, tr)"
  using audit_reachable.step [OF assms(1) audit_step.poll] some_the [OF assms(2)] by (metis surjective_pairing)

lemma ex_open_audited: "list_audited (ex_open, [], [Cleared])"
proof (rule audit_reachable.step)
  show "list_audited ((ex_watcher, ex_gate0), [], [])"
    unfolding ex_watcher_def by (rule audit_reachable.start [OF ex_gate0_new])
  have "watch_step lru_list (ex_watcher, ex_gate0) ex_open"
    unfolding ex_open_def by (rule watch_step.opened [OF ex_watcher_opening, of 1]) simp
  then show "audit_step lru_list ((ex_watcher, ex_gate0), [], []) (ex_open, [], [Cleared])"
    by (rule audit_step.cleared) (simp add: ex_open_def watch_opened_def watch_connected_clears)
qed

lemma ex_arrived: "list_audited ((fst ex_open, snd ex_open), [ex_task 7], [Cleared])"
proof (rule audit_reachable.step)
  show "list_audited ((fst ex_open, snd ex_open), [], [Cleared])" using ex_open_audited by simp
  have "case fst (admit_start 7 1 ex_gate0) of None \<Rightarrow> False | Some y \<Rightarrow> True" by code_simp
  from some_the [OF this] have "fst (admit_start 7 1 ex_gate0) = Some (ex_task 7)" by (simp add: ex_task_def)
  moreover have "config (snd ex_open) = config ex_gate0" by (simp add: ex_open_def watch_opened_def)
  ultimately have "admit_start 7 1 (snd ex_open) = (Some (ex_task 7), snd ex_open)"
    by (cases "instant_checked_add 1 (admission_timeout (config ex_gate0))") (simp_all add: admit_start_def)
  then show "audit_step lru_list ((fst ex_open, snd ex_open), [], [Cleared])
      ((fst ex_open, snd ex_open), [ex_task 7], [Cleared])"
    by (rule audit_step.arrive)
qed

lemma ex_admitted_audited: "list_audited ((fst ex_open, snd ex_admitted), [fst ex_admitted], [Cleared])"
proof -
  have c: "connected (snd ex_open)" "at_pc (ex_task 7) = AConnect" "at_deadline (ex_task 7) = 10000000001"
    by code_simp+
  then have "admit_poll lru_list (ex_input 1) (ex_task 7, snd ex_open) = Some (goto AInsert (ex_task 7), snd ex_open)"
    by (simp add: admit_poll_def ex_input_def)
  from audit_reachable.step [OF ex_arrived audit_step.poll [OF this, of _ "[]" "[]", simplified]]
  have "list_audited ((fst ex_open, snd ex_open), [] @ goto AInsert (ex_task 7) # [], [Cleared])" by simp
  moreover have "case admit_poll lru_list (ex_input 2) (goto AInsert (ex_task 7), snd ex_open) of
      None \<Rightarrow> False | Some y \<Rightarrow> True" by code_simp
  ultimately show ?thesis
    using audit_poll_step [of "fst ex_open" "snd ex_open" "[]" "goto AInsert (ex_task 7)" "[]" _ "ex_input 2"]
    by (simp add: ex_admitted_def)
qed

lemma ex_served_audited: "list_audited ex_served"
proof -
  have r: "case run_fetch lru_list (\<lambda>_. 3) ex_fetch
      (LookupReturned (Inr (Some \<lparr> decision = DAllowed, payload = Some ''p'', valid_until = None \<rparr>)))
      (snd ex_admitted) of None \<Rightarrow> False | Some (r, g) \<Rightarrow> r \<noteq> None" by code_simp
  define x where "x = the (run_fetch lru_list (\<lambda>_. 3) ex_fetch
      (LookupReturned (Inr (Some \<lparr> decision = DAllowed, payload = Some ''p'', valid_until = None \<rparr>)))
      (snd ex_admitted))"
  have x: "run_fetch lru_list (\<lambda>_. 3) ex_fetch
      (LookupReturned (Inr (Some \<lparr> decision = DAllowed, payload = Some ''p'', valid_until = None \<rparr>)))
      (snd ex_admitted) = Some (fst x, snd x)" "fst x \<noteq> None"
    using r by (auto simp: x_def split: option.splits)
  have "answers ex_fetch (LookupReturned (Inr (Some \<lparr> decision = DAllowed, payload = Some ''p'', valid_until = None \<rparr>)))
      (fst x) @ [Cleared] = ex_granted"
    using x(2) by (auto simp: answers_def ex_fetch_def ex_granted_def result_verdict_def)
  with audit_reachable.step [OF ex_admitted_audited audit_step.answer [OF ex_fetch_issued x(1)]]
  have "list_audited ((fst ex_open, ex_allowed), [] @ fst ex_admitted # [], ex_granted)"
    by (simp add: ex_allowed_def x_def)
  moreover have "case admit_poll lru_list (ex_input 4) (fst ex_admitted, ex_allowed) of
      None \<Rightarrow> False | Some y \<Rightarrow> True" by code_simp
  ultimately show ?thesis
    unfolding ex_served_def
    using audit_poll_step [of "fst ex_open" ex_allowed "[]" "fst ex_admitted" "[]" ex_granted "ex_input 4"]
    by (simp add: ex_done_def)
qed

text \<open>What the properties read of the state, evaluated once.\<close>

definition ex_done_view ::
  "(nat, string) admit_task \<times> ((nat, subject_slot) lru_list, nat, string) gate
    \<Rightarrow> nat \<times> bool \<times> nat option \<times> bool option \<times> string option" where
  "ex_done_view x = (at_subject (fst x), (case at_pc (fst x) of ADone (Some ea) \<Rightarrow> ea = 0 | _ \<Rightarrow> False),
     snapshot (snd x) 7, fst (handle_is_allowed 30 0 (snd x)),
     fst (handle_payload 30 0 (snd x)))"

lemma ex_done_viewed: "ex_done_view ex_done = (7, True, Some 0, Some True, Some ''p'')"
  by code_simp

lemma ex_done_facts: "at_subject (fst ex_done) = 7" "at_pc (fst ex_done) = ADone (Some 0)"
  "snapshot (snd ex_done) 7 = Some 0" "fst (handle_is_allowed 30 0 (snd ex_done)) = Some True"
  "fst (handle_payload 30 0 (snd ex_done)) = Some ''p''"
  using ex_done_viewed by (auto simp: ex_done_view_def split: admit_pc.splits option.splits)

lemma ex_handed_out: "handed_out ex_served 7 0"
  by (simp add: handed_out_def ex_served_def ex_done_facts)

theorem handles_speak_for_the_authority_witness:
  "fst (handle_is_allowed 30 0 (snd ex_done)) = Some True \<and> (\<exists>pl. stands ex_granted 7 (DAllowed, pl))
    \<and> fst (handle_payload 30 0 (snd ex_done)) = Some ''p'' \<and> stands ex_granted 7 (DAllowed, Some ''p'')"
  using handles_speak_for_the_authority [OF list_cache.subject_cache_axioms ex_cfg_valid ex_cfg_duration
      ex_served_audited ex_handed_out, of "(fst ex_open, snd ex_done)" "[fst ex_done]" ex_granted 30 "''p''"]
  by (simp add: ex_served_def ex_done_facts)

text \<open>The change that denies the subject.\<close>

definition ex_revoked :: "(nat, string) watcher \<times> ((nat, subject_slot) lru_list, nat, string) gate" where
  "ex_revoked = the (watch_item lru_list (\<lambda>_. 40) 0 (Some (Inr ex_denial))
     (instant_checked_add 1 (max_reconnect_delay ex_cfg)) False [] (fst ex_open, snd ex_done))"

lemma ex_revoked_step:
  "audit_step lru_list ex_served (ex_revoked, [fst ex_done], Changed 7 (Some DDenied) # ex_granted)"
proof -
  have "case watch_item lru_list (\<lambda>_. 40) 0 (Some (Inr ex_denial))
     (instant_checked_add 1 (max_reconnect_delay ex_cfg)) False [] (fst ex_open, snd ex_done) of
     None \<Rightarrow> False | Some y \<Rightarrow> True" by code_simp
  note r = some_the [OF this, folded ex_revoked_def]
  have "config g = ex_cfg" if "gate_new lru_list ex_cfg 0 = Some g" for g :: "((nat, subject_slot) lru_list, nat, string) gate"
    using that by (auto simp: gate_new_def split: Option.bind_splits)
  from this [OF ex_gate0_new] have "w_pc (fst ex_open) = WOpen (instant_checked_add 1 (max_reconnect_delay ex_cfg)) False []"
    by (simp add: ex_open_def watch_opened_def)
  from audit_step.changed [OF this r] show ?thesis
    unfolding ex_served_def by (simp add: ex_denial_def)
qed

theorem revocation_is_final_witness:
  "fst (handle_is_allowed 50 0 (snd ex_revoked)) \<noteq> Some True"
proof -
  have run: "(audit_step lru_list)\<^sup>*\<^sup>* ex_served
      ((fst ex_revoked, snd ex_revoked), [fst ex_done], [] @ Changed 7 (Some DDenied) # ex_granted)"
    using ex_revoked_step by simp
  have "fst (handle_is_allowed 50 0 (snd (fst ex_revoked, snd ex_revoked))) \<noteq> Some True"
    by (rule revocation_is_final [OF list_cache.subject_cache_axioms ex_cfg_valid ex_cfg_duration
        ex_served_audited ex_handed_out run]) simp_all
  then show ?thesis by simp
qed

text \<open>A request of subject 7 in that state, before the denial.\<close>

definition ex_request_future :: "(nat, nat, nat, string, nat, string) layer_future" where
  "ex_request_future = LCached 5 (tr_request 7) 7"

lemma ex_request_poll:
  "\<exists>f. ef_subject f = 7 \<and> fst (layer_poll lru_list tr_layer tr_input (ex_request_future, snd ex_done)) = LEnforced f"
proof -
  have "case fst (layer_poll lru_list tr_layer tr_input (ex_request_future, snd ex_done)) of
      LEnforced f \<Rightarrow> ef_subject f = 7 | _ \<Rightarrow> False"
    by code_simp
  then show ?thesis by (auto split: layer_future.splits)
qed


end
