(* ===== verification/Spec2Isabelle.thy ===== *)
theory Spec2Isabelle
  imports Gate_Properties System_Properties Transport_Properties Lifecycle Failures Denial Service
    Settings Metrics_Sink Messages Layer_Build Example_Service Authority_Setup Audit_Scenario
begin

text \<open>
  Policy gate: a client-side cache of allow/deny decisions with a watch, verified.

  \<^bold>\<open>The program.\<close> A gate answers whether a subject may work. It asks a remote
  authority once per subject (a unary lookup), keeps the decision in a bounded cache, and
  follows a watch stream of decision changes. Work that has been admitted keeps a handle on
  the subject's cache entry and reads it again before every activity, so a later denial, an
  expiry, an eviction or a lost watch stops it. On top of the gate sit a Tower layer that
  admits HTTP and gRPC requests and cuts transfers off, and an adapter to the authority's
  gRPC service.

  \<^bold>\<open>Which theory models what.\<close> In the order of the imports:

  \<^item> \<open>Prelude\<close>: 64-bit integers with Rust's checked and saturating operations, reference
    counted pointers with an address (\<open>Arc::ptr_eq\<close>), compare-and-swap, list lemmas.
  \<^item> \<open>Clock\<close> (\<open>src/src/time.rs\<close>): instants, durations, \<open>sleep\<close>, \<open>timeout\<close> and
    \<open>timeout_at\<close> over futures; the locale \<open>backoff\<close> of the two doubling delays.
  \<^item> \<open>Config\<close> (\<open>src/src/lib.rs\<close>): \<open>PolicyGateConfig\<close>, its builder and \<open>build\<close>.
  \<^item> \<open>Entry\<close> (\<open>src/src/gate.rs\<close>, \<open>Entry\<close>, \<open>Admission\<close>): the packed word of state and
    deadline, the compare-and-swap loops, expiry, the refresh window, the handle's reads.
  \<^item> \<open>Lru\<close>: the operations of the \<open>lru\<close> crate as a record and their documented laws as
    the locale \<open>lru_cache\<close>, interpreted on a list implementation.
  \<^item> \<open>Subjects\<close> (\<open>SubjectMap\<close>): the heap of entries, the map of slots, eviction; the
    locales \<open>entry_action\<close>, \<open>entry_observation\<close> and \<open>subject_cache\<close>.
  \<^item> \<open>Gate\<close>, \<open>Gate_Invariant\<close> (\<open>GateState\<close>): lookups, refreshes, watch changes,
    publishing of the read snapshot, connectivity; the invariant and that every operation
    keeps it.
  \<^item> \<open>Admit\<close> (\<open>GateState::admit\<close>): the admission loop as a polled task, one program
    counter per await.
  \<^item> \<open>Watcher\<close> (\<open>src/src/watcher.rs\<close>): \<open>watch_source\<close> as a step relation, the health
    status, the jitter.
  \<^item> \<open>System\<close>: clients, lookups, handles and the watch loop interleaved on one state
    (\<open>sys_step\<close>, \<open>sys_reachable\<close>); the invariant holds in every reachable state.
  \<^item> \<open>Publish\<close>: the publication race, every lock section of \<open>republish_if_due\<close>,
    \<open>watch_connected\<close> and \<open>watch_disconnected\<close> a step of its own.
  \<^item> \<open>Reads\<close>: reads that hit the cache leave the entry alone and keep its slot.
  \<^item> \<open>Stream_Body\<close> (\<open>src/src/stream.rs\<close>): \<open>EnforcedBody\<close> and its poll loop.
  \<^item> \<open>Grpc_Status\<close>, \<open>Rendering\<close> (\<open>src/src/grpc.rs\<close>, \<open>src/src/layer.rs\<close>): the HTTP and
    gRPC renderings of a rejection.
  \<^item> \<open>Layer\<close> (\<open>src/src/layer.rs\<close>): the middleware's call and future, the response
    future, the missing-subject log.
  \<^item> \<open>Proto\<close> (\<open>src/src/policy_proto.rs\<close>): messages, the decision enumeration, client and
    server of the authority service; the locale \<open>enumeration\<close>.
  \<^item> \<open>Tonic_Source\<close> (\<open>src/src/tonic_source.rs\<close>): lookups and the watch over that client,
    decoding, classification of statuses.
  \<^item> \<open>Parts\<close> (\<open>PolicyGate\<close>, \<open>DecisionWatcher\<close>, \<open>DecisionSourceHealth\<close>): the constructors and
    what a host does with the three values they return, over a process whose gate states
    have addresses; it runs as the system of \<open>System\<close>.
  \<^item> \<open>Layer_Build\<close> (\<open>PolicyGateLayer\<close>, \<open>PolicyGateMiddleware\<close>): constructors, clones, the
    \<open>tower\<close> traits; \<open>Example_Service\<close> (\<open>src/examples/http_middleware.rs\<close>): the example's
    stack over them.
  \<^item> \<open>Authority_Setup\<close> (\<open>src/src/policy_proto.rs\<close>): constructors and settings of the
    authority's client and server; \<open>Settings\<close> (\<open>src/src/lib.rs\<close>): the accessors of the
    configuration, and the locale \<open>setting\<close> of getters and setters; \<open>Metrics_Sink\<close>
    (\<open>src/src/metrics.rs\<close>): the metrics trait, its no-op and \<open>Arc\<close> implementations;
    \<open>Messages\<close>: error constructors and texts.
  \<^item> \<open>Effects\<close>: what an operation of the subject map does to one tracked subject, shared by
    \<open>System_Properties\<close>, \<open>Failures\<close> (from a gRPC status to the entry and the admissions
    waiting for it), \<open>Lifecycle\<close> (a dropped watcher, the rate of rebuilds, well-formedness,
    capacity), \<open>Denial\<close> (from a message of the authority to the open streams) and
    \<open>Service\<close> (cached reads and answered lookups are served).
  \<^item> \<open>Statements\<close>: the verdicts and lookups an operation brings into the heap;
    \<open>Provenance\<close>: the system with its admissions in progress and a trace of what the
    authority has stated (\<open>audit_step\<close>), and what the trace says of the state;
    \<open>Accountability\<close>: what it means for handles and requests; \<open>Audit_Scenario\<close>: a run.
  \<^item> \<open>Scenario\<close>, \<open>Transport_Scenario\<close>: concrete runs that compute;
    \<open>Gate_Properties\<close>, \<open>System_Properties\<close>, \<open>Stream_Properties\<close>,
    \<open>Transport_Properties\<close>: properties that span components, and all properties applied to
    the runs.

  \<^bold>\<open>How state corresponds.\<close> A \<open>record\<close> has the fields of the struct. The heap holds every
  entry at an address, so that the aliasing of \<open>Arc<Entry>\<close> between the map, the published
  snapshot, lookups and handles is explicit; a handle is the address, an entry that the map
  drops stays in the heap because a handle may hold it. A generation, an \<open>Arc<()>\<close> compared
  by address in the source, is a number of the heap's allocation counter. The \<open>ArcSwap\<close> cells, the mutex
  contents and the channels' current values are fields of the gate; the metrics handle is a
  log of its events. An error is a value of a sum, \<open>None\<close> of an option is a panic where the
  text says so. What an operation reads of the clock is a sequence of readings \<open>clk 0\<close>,
  \<open>clk 1\<close> and so on in the order of the source's calls; nothing is assumed about them
  unless a theorem says so.

  \<^bold>\<open>Atomicity.\<close> A section under the map's or the publish lock is one step, and so is a call
  on one entry. Inside the entry's lock-free loops other threads are explicit: a list of
  interferences, one per attempt, ends with an undisturbed one; a property of \<open>Entry\<close> shows
  that a loop acts as one atomic step at some point of that list, so the later theories run
  the undisturbed loop. \<open>admit\<close> may be interleaved at every await, between its connection
  check and the insertion of its entry (\<open>AInsert\<close>), and after the publication of that entry
  (\<open>AEntry\<close>), a stream poll between any two of its calls (\<open>ti_env\<close>), the middleware between
  its calls (\<open>li_env\<close>). In \<open>System\<close> a rebuild and a watch transition are one step each;
  \<open>Publish\<close> splits both.

  \<^bold>\<open>Bounds and fuel.\<close> The number of attempts of a compare-and-swap loop is the length of its
  interference list, which is arbitrary. \<open>evict_loop\<close> gets the number of slots as
  its fuel, as each turn drops one slot; \<open>evict_done\<close> shows that it stops at a slot that is
  not idle or at the empty map. \<open>frame_loop\<close> and
  \<open>run_admit\<close> take one input per turn; when the inputs run out the result says so
  (\<open>TContinue\<close>, a suspended task), and the property on recovery from the snapshot shows
  that two turns are enough there. The watch loop and the admission loop are step relations and tasks, with
  no bound at all.

  \<^bold>\<open>What is shown.\<close>

  \<^item> Decisions: an expired decision is final on every handle, deadlines and refresh
    ticks are exact and do not wrap around, a prepared snapshot carries what it must (a lemma).
  \<^item> Stopping work: a lost watch retires every earlier entry for good, a watch change
    takes effect on the shared entry at once and aborts the lookup in flight whatever
    races with it, a denial on the wire ends every open stream of its subject at the next
    poll, a dropped watcher fails closed for good, no refresh or superseded lookup revives a decision, an entry that has a verdict
    never makes a handle's read panic.
  \<^item> Accountability: a request reaches the inner service, and a handle reports allowed or
    denied, only on a statement of the authority about this very subject that no later change
    of the subject and no change of the connection has overtaken; a payload is the one sent
    for this subject; a revocation is final until the authority grants access again.
  \<^item> Admission: a returned handle is backed by a fresh verdict, lookups and refreshes
    are single-flight, an answered lookup ends with the authority's decision, a published
    verdict is served whether or not its refresh is queued, every wait ends at its deadline and fails closed, a failed call
    parks or forgets the subject by the class of its status.
  \<^item> Shared state: every reachable state is well-formed, with capacity, queue and connection
    bounds; a full cache gives up its least recently used subject, rebuilds keep their
    interval, the parts handed to the host run as one system, and a published snapshot that is safe under every interleaving at lock granularity.
  \<^item> Transport: the inner service sees allowed subjects only, a stream is the inner
    stream up to one rejection, is enforced at every poll, recovers from the snapshot, and
    acts on the gate as a client; a replaced unavailable response changes nothing else;
    lemmas on renderings, headers and the log rate.
  \<^item> Authority: a lookup through client, transport and server is the authority's answer for
    this subject and scope; a foreign scope ends the watch.

  \<^bold>\<open>What modelling found.\<close> The jitter's sum overflows for delays that \<open>build\<close> accepts
  (theory \<open>Watcher\<close>). A delayed readmission that completes on its first poll is stored
  completed and polled again, which panics, where the comment says that it is picked up
  (theory \<open>Stream_Body\<close>). A rebuild that starts while the watch reconnects can be
  published after it, where the comment says that the connected flag rejects it; the entries
  it publishes are retired, so it is harmless (theories \<open>Publish\<close> and
  \<open>Transport_Properties\<close>).

  \<^bold>\<open>Parameters.\<close> Code outside the repository is an argument: the LRU cache (hypothesis
  \<open>subject_cache\<close>, its documented laws), the driver's \<open>sleep_until\<close>, the decision source,
  the inner service, body, request policy and body adapter, tonic's header encoding
  (\<open>adds_status\<close>), channel and server (\<open>connected_to\<close>), prost's enum conversion
  (\<open>enumeration\<close>), the endpoint parser. Every such hypothesis is met by a concrete instance
  in a witness.

  \<^bold>\<open>Not modelled.\<close> \<open>TokioTimeDriver\<close> and \<open>AxumBodyAdapter\<close>, which only call tokio and axum;
  the \<open>Debug\<close> implementations; the example's listener; wakers other than the one the stream
  calls itself; memory orderings weaker than sequential consistency; the deallocation of
  entries no handle refers to; the tests.
\<close>

end
